(* ===== verification/Prelude.thy ===== *)
theory Prelude
  imports "HOL-Library.Word" "HOL-Library.Monad_Syntax"
begin

text \<open>
  What every component shares: the machine integer types, the Rust slice operations with
  their panics, big-endian integers, the \<open>?\<close> operator, text as UTF-8 bytes and its
  number formatting, and the contract of the decoder loops.

  A function of type \<open>'a exec\<close> returns \<open>None\<close> where the Rust code panics or does
  not return; a Rust \<open>Result\<close> is a sum (\<open>Inl\<close> the error), a Rust \<open>Option\<close> an
  option, both inside \<open>exec\<close> where the function can also panic.
\<close>

type_synonym u8 = "8 word"
type_synonym u16 = "16 word"
type_synonym u32 = "32 word"
type_synonym u64 = "64 word"
type_synonym usize = nat
type_synonym bytes = "u8 list"
type_synonym 'a exec = "'a option"

named_theorems wire_simps
  \<open>how the wire encodings of the components unfold and how long they are\<close>

section \<open>Slices, indexing and the question-mark operator\<close>

text \<open>\<open>xs[a..b]\<close>, \<open>xs[i]\<close> and \<open>a - b\<close> on \<open>usize\<close> panic out of range.\<close>

definition slice :: "'a list \<Rightarrow> usize \<Rightarrow> usize \<Rightarrow> 'a list exec" where
  "slice xs a b = (if a \<le> b \<and> b \<le> length xs then Some (take (b - a) (drop a xs)) else None)"

text \<open>\<open>xs[a..]\<close>\<close>

definition slice_from :: "'a list \<Rightarrow> usize \<Rightarrow> 'a list exec" where
  "slice_from xs a = (if a \<le> length xs then Some (drop a xs) else None)"

definition index :: "'a list \<Rightarrow> usize \<Rightarrow> 'a exec" where
  "index xs i = (if i < length xs then Some (xs ! i) else None)"

definition usize_sub :: "usize \<Rightarrow> usize \<Rightarrow> usize exec" where
  "usize_sub a b = (if b \<le> a then Some (a - b) else None)"

text \<open>\<open>saturating_sub\<close>\<close>

definition u16_saturating_sub :: "u16 \<Rightarrow> u16 \<Rightarrow> u16" where
  "u16_saturating_sub a b = (if b \<le> a then a - b else 0)"

definition u64_saturating_sub :: "u64 \<Rightarrow> u64 \<Rightarrow> u64" where
  "u64_saturating_sub a b = (if b \<le> a then a - b else 0)"

definition ask :: "('e + 'a) exec \<Rightarrow> ('a \<Rightarrow> ('e + 'b) exec) \<Rightarrow> ('e + 'b) exec" where
  "ask m k = (case m of None \<Rightarrow> None | Some (Inl e) \<Rightarrow> Some (Inl e) | Some (Inr x) \<Rightarrow> k x)"

definition ask_some :: "'a option exec \<Rightarrow> ('a \<Rightarrow> 'b option exec) \<Rightarrow> 'b option exec" where
  "ask_some m k = (case m of None \<Rightarrow> None | Some None \<Rightarrow> Some None | Some (Some x) \<Rightarrow> k x)"

lemma slice_ok [simp]:
  "a \<le> b \<Longrightarrow> b \<le> length xs \<Longrightarrow> slice xs a b = Some (take (b - a) (drop a xs))"
  by (simp add: slice_def)

lemma slice_from_ok [simp]: "a \<le> length xs \<Longrightarrow> slice_from xs a = Some (drop a xs)"
  by (simp add: slice_from_def)

lemma slice_from_Some: "slice_from xs a = Some ys \<longleftrightarrow> a \<le> length xs \<and> ys = drop a xs"
  by (auto simp: slice_from_def)

lemma index_ok [simp]: "i < length xs \<Longrightarrow> index xs i = Some (xs ! i)"
  by (simp add: index_def)

lemma usize_sub_ok [simp]: "b \<le> a \<Longrightarrow> usize_sub a b = Some (a - b)"
  by (simp add: usize_sub_def)

lemma ask_simps [simp]:
  "ask None k = None"
  "ask (Some (Inl e)) k = Some (Inl e)"
  "ask (Some (Inr x)) k = k x"
  by (simp_all add: ask_def)

lemma ask_some_simps [simp]:
  "ask_some None k = None"
  "ask_some (Some None) k = Some None"
  "ask_some (Some (Some x)) k = k x"
  by (simp_all add: ask_some_def)

lemma ask_cong [fundef_cong]:
  "m = m' \<Longrightarrow> (\<And>x. m' = Some (Inr x) \<Longrightarrow> k x = k' x) \<Longrightarrow> ask m k = ask m' k'"
  by (auto simp: ask_def split: option.splits sum.splits)

lemma ask_some_cong [fundef_cong]:
  "m = m' \<Longrightarrow> (\<And>x. m' = Some (Some x) \<Longrightarrow> k x = k' x) \<Longrightarrow> ask_some m k = ask_some m' k'"
  by (auto simp: ask_some_def split: option.splits)

lemma exec_bind_cong [fundef_cong]:
  "m = m' \<Longrightarrow> (\<And>x. m' = Some x \<Longrightarrow> k x = k' x) \<Longrightarrow> Option.bind m k = Option.bind m' k'"
  by (rule Option.bind_cong)

text \<open>The continuation of a step is left alone until the step itself has a value.\<close>

lemma exec_bind_weak_cong [cong]: "m = m' \<Longrightarrow> Option.bind m k = Option.bind m' k"
  by simp

lemma ask_weak_cong [cong]: "m = m' \<Longrightarrow> ask m k = ask m' k"
  by simp

lemma ask_some_weak_cong [cong]: "m = m' \<Longrightarrow> ask_some m k = ask_some m' k"
  by simp

section \<open>Loops over a list\<close>

text \<open>A \<open>for\<close> loop whose body updates a state and may panic.\<close>

fun fold_exec :: "('s \<Rightarrow> 'a \<Rightarrow> 's exec) \<Rightarrow> 's \<Rightarrow> 'a list \<Rightarrow> 's exec" where
  "fold_exec f s [] = Some s"
| "fold_exec f s (x # xs) = Option.bind (f s x) (\<lambda>s. fold_exec f s xs)"

lemma fold_exec_append:
  "fold_exec f s (xs @ ys) = Option.bind (fold_exec f s xs) (\<lambda>s. fold_exec f s ys)"
proof (induction xs arbitrary: s)
  case (Cons x xs)
  then show ?case by (cases "f s x") simp_all
qed simp

lemma fold_exec_total:
  assumes "\<And>s x. \<exists>s'. f s x = Some s'"
  shows "\<exists>s'. fold_exec f s xs = Some s'"
proof (induction xs arbitrary: s)
  case (Cons x xs)
  obtain s' where "f s x = Some s'" using assms by blast
  with Cons show ?case by simp
qed simp

text \<open>What every turn of the loop keeps or only lets grow, the loop does too.\<close>

lemma fold_exec_rel:
  assumes "fold_exec f s xs = Some s'" and "list_all P xs"
    and "\<And>s. R s s" and "\<And>a b c. R a b \<Longrightarrow> R b c \<Longrightarrow> R a c"
    and "\<And>s x s'. P x \<Longrightarrow> f s x = Some s' \<Longrightarrow> R s s'"
  shows "R s s'"
  using assms(1,2)
proof (induction xs arbitrary: s)
  case Nil
  with assms(3) show ?case by simp
next
  case (Cons x xs)
  then obtain u where "f s x = Some u" "fold_exec f u xs = Some s'"
    by (cases "f s x") simp_all
  with Cons assms(4,5) show ?case by (metis list.pred_inject(2))
qed

section \<open>Big-endian integers\<close>

definition u16_from_be_bytes :: "u8 \<Rightarrow> u8 \<Rightarrow> u16" where
  "u16_from_be_bytes a b = word_of_nat (256 * unat a + unat b)"

definition u32_from_be_bytes :: "u8 \<Rightarrow> u8 \<Rightarrow> u8 \<Rightarrow> u8 \<Rightarrow> u32" where
  "u32_from_be_bytes a b c d =
     word_of_nat (16777216 * unat a + 65536 * unat b + 256 * unat c + unat d)"

definition u16_to_be_bytes :: "u16 \<Rightarrow> bytes" where
  "u16_to_be_bytes v = [word_of_nat (unat v div 256), word_of_nat (unat v mod 256)]"

definition u32_to_be_bytes :: "u32 \<Rightarrow> bytes" where
  "u32_to_be_bytes v =
     [word_of_nat (unat v div 16777216), word_of_nat (unat v div 65536 mod 256),
      word_of_nat (unat v div 256 mod 256), word_of_nat (unat v mod 256)]"

lemma unat_u8_less [simp]: "unat (b :: u8) < 256"
  using unsigned_less [of b, where ?'a = nat] by simp

lemma unat_u16_less [simp]: "unat (v :: u16) < 65536"
  using unsigned_less [of v, where ?'a = nat] by simp

lemma unat_u32_less [simp]: "unat (v :: u32) < 4294967296"
  using unsigned_less [of v, where ?'a = nat] by simp

lemma unat_of_nat_u8: "n < 256 \<Longrightarrow> unat (word_of_nat n :: u8) = n"
  by (simp add: unat_of_nat take_bit_nat_eq_self_iff)

lemma unat_of_nat_u16: "n < 65536 \<Longrightarrow> unat (word_of_nat n :: u16) = n"
  by (simp add: unat_of_nat take_bit_nat_eq_self_iff)

lemma unat_of_nat_u32: "n < 4294967296 \<Longrightarrow> unat (word_of_nat n :: u32) = n"
  by (simp add: unat_of_nat take_bit_nat_eq_self_iff)

lemma unat_u16_from_be_bytes: "unat (u16_from_be_bytes a b) = 256 * unat a + unat b"
proof -
  have "256 * unat a + unat b < 65536"
    using unat_u8_less [of a] unat_u8_less [of b] by linarith
  then show ?thesis
    unfolding u16_from_be_bytes_def by (rule unat_of_nat_u16)
qed

lemma u16_be_roundtrip:
  "u16_from_be_bytes (word_of_nat (unat v div 256)) (word_of_nat (unat v mod 256)) = v"
proof -
  have hi: "unat (word_of_nat (unat v div 256) :: u8) = unat v div 256"
    using unat_u16_less [of v] by (intro unat_of_nat_u8) linarith
  have lo: "unat (word_of_nat (unat v mod 256) :: u8) = unat v mod 256"
    by (intro unat_of_nat_u8) simp
  have "unat (u16_from_be_bytes (word_of_nat (unat v div 256)) (word_of_nat (unat v mod 256)))
      = unat v"
    unfolding unat_u16_from_be_bytes hi lo by simp
  then show ?thesis by (simp only: word_unat_eq_iff)
qed

lemma u16_be_bytes_inverse:
  "u16_to_be_bytes (u16_from_be_bytes a b) = [a, b]"
proof -
  have "(256 * unat a + unat b) div 256 = unat a" "(256 * unat a + unat b) mod 256 = unat b"
    using unat_u8_less [of b] by simp_all
  then show ?thesis
    unfolding u16_to_be_bytes_def unat_u16_from_be_bytes by (simp add: of_nat_unat)
qed

lemma unat_u32_from_be_bytes:
  "unat (u32_from_be_bytes a b c d) = 16777216 * unat a + 65536 * unat b + 256 * unat c + unat d"
proof -
  have "16777216 * unat a + 65536 * unat b + 256 * unat c + unat d < 4294967296"
    using unat_u8_less [of a] unat_u8_less [of b] unat_u8_less [of c] unat_u8_less [of d]
    by linarith
  then show ?thesis
    unfolding u32_from_be_bytes_def by (rule unat_of_nat_u32)
qed

lemma nat_base_256:
  fixes n :: nat
  shows "16777216 * (n div 16777216) + 65536 * (n div 65536 mod 256)
       + 256 * (n div 256 mod 256) + n mod 256 = n"
proof -
  have a: "n = 256 * (n div 256) + n mod 256" by simp
  have b: "n div 256 = 256 * (n div 65536) + n div 256 mod 256"
    using mult_div_mod_eq [of 256 "n div 256"] by (simp add: div_mult2_eq [symmetric])
  have c: "n div 65536 = 256 * (n div 16777216) + n div 65536 mod 256"
    using mult_div_mod_eq [of 256 "n div 65536"] by (simp add: div_mult2_eq [symmetric])
  from a b c show ?thesis by linarith
qed

lemma u32_be_roundtrip:
  "u32_from_be_bytes (word_of_nat (unat v div 16777216)) (word_of_nat (unat v div 65536 mod 256))
     (word_of_nat (unat v div 256 mod 256)) (word_of_nat (unat v mod 256)) = v"
proof -
  have top: "unat (word_of_nat (unat v div 16777216) :: u8) = unat v div 16777216"
    using unat_u32_less [of v] by (intro unat_of_nat_u8) linarith
  have low: "unat (word_of_nat (n mod 256) :: u8) = n mod 256" for n
    by (intro unat_of_nat_u8) simp
  show ?thesis
    unfolding word_unat_eq_iff unat_u32_from_be_bytes top low by (rule nat_base_256)
qed

text \<open>A two-byte length prefix, as the decoders read it back.\<close>

definition len16 :: "nat \<Rightarrow> bytes" where
  "len16 n = u16_to_be_bytes (word_of_nat n)"

lemma len16_bytes:
  assumes "n < 65536"
  obtains h l where "len16 n = [h, l]" and "unat (u16_from_be_bytes h l) = n"
proof
  show "len16 n = [word_of_nat (unat (word_of_nat n :: u16) div 256),
      word_of_nat (unat (word_of_nat n :: u16) mod 256)]"
    by (simp add: len16_def u16_to_be_bytes_def)
  show "unat (u16_from_be_bytes (word_of_nat (unat (word_of_nat n :: u16) div 256))
      (word_of_nat (unat (word_of_nat n :: u16) mod 256))) = n"
    unfolding u16_be_roundtrip using assms by (rule unat_of_nat_u16)
qed

lemma length_len16 [simp, wire_simps]: "length (len16 n) = 2"
  by (simp add: len16_def u16_to_be_bytes_def)

lemma length_u16_to_be_bytes [simp]: "length (u16_to_be_bytes v) = 2"
  by (simp add: u16_to_be_bytes_def)

lemma length_u32_to_be_bytes [simp]: "length (u32_to_be_bytes v) = 4"
  by (simp add: u32_to_be_bytes_def)

section \<open>Lists\<close>

text \<open>\<open>chunks_exact(2)\<close> mapped with the big-endian decoder: a lone last byte is dropped.\<close>

fun u16_chunks :: "bytes \<Rightarrow> u16 list" where
  "u16_chunks (a # b # rest) = u16_from_be_bytes a b # u16_chunks rest"
| "u16_chunks _ = []"

lemma length_u16_chunks [simp]: "length (u16_chunks bs) = length bs div 2"
  by (induction bs rule: u16_chunks.induct) auto

lemma u16_chunks_encode:
  "u16_chunks (concat (map u16_to_be_bytes vs)) = vs"
  by (induction vs) (simp_all add: u16_to_be_bytes_def u16_be_roundtrip)

lemma encode_u16_chunks:
  "even (length bs) \<Longrightarrow> concat (map u16_to_be_bytes (u16_chunks bs)) = bs"
  by (induction bs rule: u16_chunks.induct) (auto simp: u16_be_bytes_inverse)

lemma length_concat_u16 [simp]: "length (concat (map u16_to_be_bytes vs)) = 2 * length vs"
  by (induction vs) auto

section \<open>The contract of the decoder loops\<close>

text \<open>
  Every decoder of the program that reads a list walks a cursor over a byte slice, decodes
  one entry, pushes it on the output and moves on. \<open>walk out cursor\<close> is such a loop,
  \<open>enc\<close> the wire form of an entry and \<open>wf\<close> what makes an entry encodable. The one law
  is a single turn of the loop; the lemmas are the round trips of whole lists.
\<close>

locale entry_loop =
  fixes walk :: "'a list \<Rightarrow> bytes \<Rightarrow> 'r"
    and enc :: "'a \<Rightarrow> bytes"
    and wf :: "'a \<Rightarrow> bool"
  assumes walk_entry: "wf x \<Longrightarrow> walk out (enc x @ rest) = walk (out @ [x]) rest"
begin

lemma walk_entries:
  "list_all wf xs \<Longrightarrow> walk out (concat (map enc xs) @ rest) = walk (out @ xs) rest"
proof (induction xs arbitrary: out)
  case Nil
  then show ?case by simp
next
  case (Cons x xs)
  then show ?case by (simp add: walk_entry)
qed

end

text \<open>A loop that ends at an empty cursor with \<open>final out\<close>.\<close>

locale full_entry_loop = entry_loop walk enc wf
  for walk :: "'a list \<Rightarrow> bytes \<Rightarrow> 'r" and enc :: "'a \<Rightarrow> bytes" and wf :: "'a \<Rightarrow> bool" +
  fixes final :: "'a list \<Rightarrow> 'r"
  assumes walk_empty: "walk out [] = final out"
begin

lemma walk_encoded: "list_all wf xs \<Longrightarrow> walk [] (concat (map enc xs)) = final xs"
  using walk_entries [of xs "[]" "[]"] by (simp add: walk_empty)

end

end
