(* ===== verification/Connection.thy ===== *)
theory Connection
  imports Prelude "HOL-Library.Product_Lexorder"
begin

text \<open>
  \<open>src/src/model/connection.rs\<close>: flow keys, their canonical form and the direction of a
  segment relative to it (\<open>ConnectionState\<close> is in \<open>Connection_State\<close>, after the record
  and handshake models it is made of). The two endpoints of a flow are compared as Rust
  compares \<open>(IpAddr, u16)\<close>: lexicographically, IPv4 before IPv6.
\<close>

datatype IpAddr = V4 u32 | V6 "128 word"

type_synonym SocketAddr = "IpAddr \<times> u16"

instantiation IpAddr :: linorder
begin

fun less_eq_IpAddr :: "IpAddr \<Rightarrow> IpAddr \<Rightarrow> bool" where
  "less_eq_IpAddr (V4 a) (V4 b) = (a \<le> b)"
| "less_eq_IpAddr (V4 a) (V6 b) = True"
| "less_eq_IpAddr (V6 a) (V4 b) = False"
| "less_eq_IpAddr (V6 a) (V6 b) = (a \<le> b)"

definition less_IpAddr :: "IpAddr \<Rightarrow> IpAddr \<Rightarrow> bool" where
  "less_IpAddr x y \<longleftrightarrow> x \<le> y \<and> \<not> y \<le> x"

instance
proof
  fix x y z :: IpAddr
  show "x < y \<longleftrightarrow> x \<le> y \<and> \<not> y \<le> x" by (rule less_IpAddr_def)
  show "x \<le> x" by (cases x) auto
  show "x \<le> y \<Longrightarrow> y \<le> z \<Longrightarrow> x \<le> z" by (cases x; cases y; cases z) auto
  show "x \<le> y \<Longrightarrow> y \<le> x \<Longrightarrow> x = y" by (cases x; cases y) auto
  show "x \<le> y \<or> y \<le> x" by (cases x; cases y) auto
qed

end

record ConnectionKey =
  client_ip :: IpAddr
  client_port :: u16
  server_ip :: IpAddr
  server_port :: u16

datatype Direction = ClientToServer | ServerToClient

definition RECORD_LOG_CAP :: usize where
  "RECORD_LOG_CAP = 64"

definition TLS_WELL_KNOWN_PORTS :: "u16 list" where
  "TLS_WELL_KNOWN_PORTS = [443, 8443]"

definition is_tls_server_port :: "u16 \<Rightarrow> bool" where
  "is_tls_server_port port \<longleftrightarrow> port \<in> set TLS_WELL_KNOWN_PORTS"

definition canonical :: "IpAddr \<Rightarrow> u16 \<Rightarrow> IpAddr \<Rightarrow> u16 \<Rightarrow> ConnectionKey" where
  "canonical a_ip a_port b_ip b_port =
     (let a_is_server = is_tls_server_port a_port;
          b_is_server = is_tls_server_port b_port;
          (c_ip, c_port, s_ip, s_port) =
            (case (a_is_server, b_is_server) of
               (False, True) \<Rightarrow> (a_ip, a_port, b_ip, b_port)
             | (True, False) \<Rightarrow> (b_ip, b_port, a_ip, a_port)
             | _ \<Rightarrow> if (a_ip, a_port) \<le> (b_ip, b_port)
                   then (a_ip, a_port, b_ip, b_port)
                   else (b_ip, b_port, a_ip, a_port))
      in \<lparr>client_ip = c_ip, client_port = c_port, server_ip = s_ip, server_port = s_port\<rparr>)"

text \<open>The direction the tracker thread gives a segment (\<open>run_live\<close> in \<open>src/src/ui/mod.rs\<close>).\<close>

definition segment_direction :: "IpAddr \<Rightarrow> u16 \<Rightarrow> ConnectionKey \<Rightarrow> Direction" where
  "segment_direction src_ip src_port key =
     (if (src_ip, src_port) = (client_ip key, client_port key)
      then ClientToServer else ServerToClient)"

fun opposite :: "Direction \<Rightarrow> Direction" where
  "opposite ClientToServer = ServerToClient"
| "opposite ServerToClient = ClientToServer"

lemma canonical_commute: "canonical a p b q = canonical b q a p"
  by (cases "is_tls_server_port p"; cases "is_tls_server_port q"; cases "(a, p) \<le> (b, q)";
      cases "(b, q) \<le> (a, p)") (auto simp: canonical_def Let_def)

lemma canonical_endpoints:
  "((client_ip k, client_port k), (server_ip k, server_port k)) =
      (((a, p), (b, q)) :: SocketAddr \<times> SocketAddr)
   \<or> ((client_ip k, client_port k), (server_ip k, server_port k)) = ((b, q), (a, p))"
  if "k = canonical a p b q"
  by (cases "is_tls_server_port p"; cases "is_tls_server_port q")
     (simp_all add: that canonical_def Let_def split: if_splits)

text \<open>
  Both directions of a flow get the same key, the key holds exactly the two observed
  endpoints, canonicalising a key again changes nothing, and a server port on exactly one
  side makes that side the server.
\<close>

theorem canonical_key:
  "canonical a p b q = canonical b q a p
   \<and> {(client_ip (canonical a p b q), client_port (canonical a p b q)),
      (server_ip (canonical a p b q), server_port (canonical a p b q))} = {(a, p), (b, q)}
   \<and> canonical (client_ip (canonical a p b q)) (client_port (canonical a p b q))
       (server_ip (canonical a p b q)) (server_port (canonical a p b q)) = canonical a p b q
   \<and> (is_tls_server_port q \<and> \<not> is_tls_server_port p \<longrightarrow>
       (server_ip (canonical a p b q), server_port (canonical a p b q)) = (b, q))"
proof -
  let ?k = "canonical a p b q"
  have ends: "((client_ip ?k, client_port ?k), (server_ip ?k, server_port ?k)) = ((a, p), (b, q))
      \<or> ((client_ip ?k, client_port ?k), (server_ip ?k, server_port ?k)) = ((b, q), (a, p))"
    by (rule canonical_endpoints) simp
  then have again: "canonical (client_ip ?k) (client_port ?k) (server_ip ?k) (server_port ?k) = ?k"
    using canonical_commute [of a p b q] by auto
  from ends have set: "{(client_ip ?k, client_port ?k), (server_ip ?k, server_port ?k)}
      = {(a, p), (b, q)}"
    by auto
  have server: "is_tls_server_port q \<and> \<not> is_tls_server_port p \<longrightarrow>
      (server_ip ?k, server_port ?k) = (b, q)"
    by (simp add: canonical_def Let_def)
  from again set server canonical_commute show ?thesis by blast
qed

theorem canonical_key_witness:
  "is_tls_server_port 443 \<and> \<not> is_tls_server_port 50000
   \<and> (server_ip (canonical (V4 167772161) 50000 (V4 16843009) 443),
      server_port (canonical (V4 167772161) 50000 (V4 16843009) 443)) = (V4 16843009, 443)"
proof -
  have "is_tls_server_port 443 \<and> \<not> is_tls_server_port 50000"
    by (simp add: is_tls_server_port_def TLS_WELL_KNOWN_PORTS_def)
  with canonical_key [of "V4 167772161" 50000 "V4 16843009" 443] show ?thesis by blast
qed

text \<open>
  For a flow between two different endpoints, the segments of one side and the answers of
  the other are given opposite directions under the common key.
\<close>

theorem directions_opposite:
  assumes "(a, p) \<noteq> (b, q)"
  shows "segment_direction b q (canonical b q a p) = opposite (segment_direction a p (canonical a p b q))"
proof -
  let ?k = "canonical a p b q"
  have "((client_ip ?k, client_port ?k), (server_ip ?k, server_port ?k)) = ((a, p), (b, q))
      \<or> ((client_ip ?k, client_port ?k), (server_ip ?k, server_port ?k)) = ((b, q), (a, p))"
    by (rule canonical_endpoints) simp
  with assms show ?thesis
    unfolding canonical_commute [of b q a p] by (auto simp: segment_direction_def)
qed

theorem directions_opposite_witness:
  "segment_direction (V4 2) 443 (canonical (V4 2) 443 (V4 1) 50000) = ServerToClient
   \<and> segment_direction (V4 1) 50000 (canonical (V4 1) 50000 (V4 2) 443) = ClientToServer"
proof -
  have "segment_direction (V4 1) 50000 (canonical (V4 1) 50000 (V4 2) 443) = ClientToServer"
    by (simp add: segment_direction_def canonical_def Let_def is_tls_server_port_def
        TLS_WELL_KNOWN_PORTS_def)
  then show ?thesis
    using directions_opposite [of "V4 1" 50000 "V4 2" 443] by simp
qed

end
