(* ===== verification/Rust_Text.thy ===== *)
theory Rust_Text
  imports Prelude
begin

text \<open>
  Rust's \<open>String\<close> and \<open>str\<close> as lists of UTF-8 bytes (the type \<open>string\<close>), with the
  operations of the standard library that the program uses: \<open>from_utf8_lossy\<close>, the
  formatting of numbers (\<open>{}\<close>, \<open>{:02x}\<close>, \<open>{:04x}\<close>, \<open>{:08x}\<close>), padding,
  \<open>contains\<close>, \<open>join\<close> and \<open>repeat\<close>. \<open>length\<close> is Rust's \<open>len()\<close>: it counts
  bytes. No entry of the source map points here: this is the language, not the program.
\<close>

definition str_of :: "bytes \<Rightarrow> string" where
  "str_of bs = map (\<lambda>b. char_of (unat b)) bs"

lemma length_str_of [simp]: "length (str_of bs) = length bs"
  by (simp add: str_of_def)

lemma str_of_append [simp]: "str_of (xs @ ys) = str_of xs @ str_of ys"
  by (simp add: str_of_def)

lemma str_of_inj [simp]: "str_of xs = str_of ys \<longleftrightarrow> xs = ys"
proof -
  have "inj (\<lambda>b :: u8. char_of (unat b) :: char)"
  proof (rule injI)
    fix x y :: u8
    assume "(char_of (unat x) :: char) = char_of (unat y)"
    then have "(of_char (char_of (unat x) :: char) :: nat) = of_char (char_of (unat y) :: char)"
      by simp
    then show "x = y" by (simp add: word_unat_eq_iff)
  qed
  then show ?thesis by (simp add: str_of_def inj_map_eq_map)
qed

section \<open>UTF-8\<close>

definition is_cont :: "u8 \<Rightarrow> bool" where
  "is_cont b \<longleftrightarrow> 0x80 \<le> b \<and> b \<le> 0xBF"

definition utf8_width :: "u8 \<Rightarrow> nat" where
  "utf8_width b =
     (if b < 0x80 then 1
      else if 0xC2 \<le> b \<and> b \<le> 0xDF then 2
      else if 0xE0 \<le> b \<and> b \<le> 0xEF then 3
      else if 0xF0 \<le> b \<and> b \<le> 0xF4 then 4
      else 0)"

definition second_ok :: "u8 \<Rightarrow> u8 \<Rightarrow> bool" where
  "second_ok b c =
     (if b = 0xE0 then 0xA0 \<le> c \<and> c \<le> 0xBF
      else if b = 0xED then 0x80 \<le> c \<and> c \<le> 0x9F
      else if b = 0xF0 then 0x90 \<le> c \<and> c \<le> 0xBF
      else if b = 0xF4 then 0x80 \<le> c \<and> c \<le> 0x8F
      else is_cont c)"

text \<open>
  One step of the lossy decoder: whether a scalar value starts here, and how many bytes it
  takes or, if none does, how many bytes the one replacement character stands for.
\<close>

fun utf8_step :: "u8 \<Rightarrow> bytes \<Rightarrow> bool \<times> nat" where
  "utf8_step b rest =
     (if utf8_width b = 1 then (True, 1)
      else if utf8_width b = 0 then (False, 1)
      else (case rest of
          [] \<Rightarrow> (False, 1)
        | c # rest2 \<Rightarrow>
            if \<not> second_ok b c then (False, 1)
            else if utf8_width b = 2 then (True, 2)
            else (case rest2 of
                [] \<Rightarrow> (False, 2)
              | d # rest3 \<Rightarrow>
                  if \<not> is_cont d then (False, 2)
                  else if utf8_width b = 3 then (True, 3)
                  else (case rest3 of
                      [] \<Rightarrow> (False, 3)
                    | e # _ \<Rightarrow> if is_cont e then (True, 4) else (False, 3)))))"

lemma utf8_step_pos: "utf8_step b rest = (ok, n) \<Longrightarrow> 0 < n"
  by (auto split: if_splits list.splits)

lemma utf8_step_le: "utf8_step b rest = (ok, n) \<Longrightarrow> n \<le> Suc (length rest)"
  by (auto split: if_splits list.splits)

declare utf8_step.simps [simp del]

definition replacement :: bytes where
  "replacement = [0xEF, 0xBF, 0xBD]"

function from_utf8_lossy :: "bytes \<Rightarrow> bytes" where
  "from_utf8_lossy [] = []"
| "from_utf8_lossy (b # bs) =
     (case utf8_step b bs of (ok, n) \<Rightarrow>
        (if ok then take n (b # bs) else replacement) @ from_utf8_lossy (drop n (b # bs)))"
  by pat_completeness auto
termination
  by (relation "measure length") (auto dest!: utf8_step_pos [OF sym])

function valid_utf8 :: "bytes \<Rightarrow> bool" where
  "valid_utf8 [] = True"
| "valid_utf8 (b # bs) =
     (case utf8_step b bs of (ok, n) \<Rightarrow> ok \<and> valid_utf8 (drop n (b # bs)))"
  by pat_completeness auto
termination
  by (relation "measure length") (auto dest!: utf8_step_pos [OF sym])

lemma from_utf8_lossy_valid: "valid_utf8 bs \<Longrightarrow> from_utf8_lossy bs = bs"
proof (induction bs rule: valid_utf8.induct)
  case 1
  show ?case by simp
next
  case (2 b bs)
  obtain ok n where step: "utf8_step b bs = (ok, n)" by force
  from 2 step show ?case by simp
qed

text \<open>A step reads only the bytes it consumes, so a valid scalar value stays one in front
  of other bytes.\<close>

lemma utf8_step_take:
  assumes "utf8_step b bs = (True, n)"
  shows "utf8_step b (take (n - 1) bs @ rest) = (True, n)"
  using assms
  by (auto simp: utf8_step.simps split: if_splits list.splits)

lemma valid_utf8_step_append:
  assumes "utf8_step b bs = (True, n)" and "valid_utf8 rest"
  shows "valid_utf8 (take n (b # bs) @ rest)"
proof -
  from assms(1) have pos: "0 < n" and le: "n \<le> Suc (length bs)"
    by (auto dest: utf8_step_pos utf8_step_le)
  then obtain m where n: "n = Suc m" by (cases n) auto
  have "utf8_step b (take m bs @ rest) = (True, n)"
    using utf8_step_take [OF assms(1), of rest] by (simp add: n)
  with assms(2) le show ?thesis by (simp add: n)
qed

lemma valid_utf8_replacement: "valid_utf8 rest \<Longrightarrow> valid_utf8 (replacement @ rest)"
  by (simp add: replacement_def utf8_step.simps utf8_width_def second_ok_def is_cont_def)

lemma valid_utf8_lossy: "valid_utf8 (from_utf8_lossy bs)"
proof (induction bs rule: from_utf8_lossy.induct)
  case 1
  show ?case by simp
next
  case (2 b bs)
  obtain ok n where step: "utf8_step b bs = (ok, n)" by force
  have IH: "valid_utf8 (from_utf8_lossy (drop n (b # bs)))"
    using "2.IH" [OF step [symmetric]] .
  show ?case
  proof (cases ok)
    case True
    then have eq: "from_utf8_lossy (b # bs) = take n (b # bs) @ from_utf8_lossy (drop n (b # bs))"
      by (simp add: step)
    show ?thesis unfolding eq
      by (rule valid_utf8_step_append) (use step True IH in simp_all)
  next
    case False
    then show ?thesis using IH by (simp add: step valid_utf8_replacement)
  qed
qed

section \<open>Formatting\<close>

definition hex_digit :: "nat \<Rightarrow> char" where
  "hex_digit n = char_of (if n < 10 then 48 + n else 87 + n)"

definition hex2 :: "u8 \<Rightarrow> string" where
  "hex2 b = [hex_digit (unat b div 16), hex_digit (unat b mod 16)]"

definition hex4 :: "u16 \<Rightarrow> string" where
  "hex4 v = concat (map hex2 (u16_to_be_bytes v))"

definition hex8 :: "u32 \<Rightarrow> string" where
  "hex8 v = concat (map hex2 (u32_to_be_bytes v))"

lemma length_hex2 [simp]: "length (hex2 b) = 2"
  by (simp add: hex2_def)

text \<open>\<open>{:04x}\<close> on a \<open>usize\<close>: at least four digits, more when the number needs them.\<close>

fun hex_nat :: "nat \<Rightarrow> string" where
  "hex_nat n = (if n < 16 then [hex_digit n] else hex_nat (n div 16) @ [hex_digit (n mod 16)])"

declare hex_nat.simps [simp del]

fun dec :: "nat \<Rightarrow> string" where
  "dec n = (if n < 10 then [char_of (48 + n)] else dec (n div 10) @ [char_of (48 + n mod 10)])"

declare dec.simps [simp del]

lemma dec_nonempty: "dec n \<noteq> []"
  by (subst dec.simps) simp

definition zero_pad :: "nat \<Rightarrow> string \<Rightarrow> string" where
  "zero_pad w s = replicate (w - length s) (CHR ''0'') @ s"

text \<open>Padding counts characters, that is bytes that do not continue a scalar value.\<close>

definition char_count :: "string \<Rightarrow> nat" where
  "char_count s = length (filter (\<lambda>c. \<not> (128 \<le> (of_char c :: nat) \<and> (of_char c :: nat) < 192)) s)"

definition pad_right :: "nat \<Rightarrow> string \<Rightarrow> string" where
  "pad_right w s = s @ replicate (w - char_count s) (CHR '' '')"

definition pad_left :: "nat \<Rightarrow> string \<Rightarrow> string" where
  "pad_left w s = replicate (w - char_count s) (CHR '' '') @ s"

section \<open>Searching and joining\<close>

fun contains :: "string \<Rightarrow> string \<Rightarrow> bool" where
  "contains [] pat = (pat = [])"
| "contains (c # cs) pat = (take (length pat) (c # cs) = pat \<or> contains cs pat)"

fun join :: "string \<Rightarrow> string list \<Rightarrow> string" where
  "join sep [] = []"
| "join sep [s] = s"
| "join sep (s # t # ss) = s @ sep @ join sep (t # ss)"

definition repeat_str :: "string \<Rightarrow> nat \<Rightarrow> string" where
  "repeat_str s n = concat (replicate n s)"

lemma contains_iff: "contains s pat \<longleftrightarrow> (\<exists>pre suf. s = pre @ pat @ suf)"
proof (induction s)
  case Nil
  then show ?case by simp
next
  case (Cons c cs)
  have "take (length pat) (c # cs) = pat \<longleftrightarrow> (\<exists>suf. c # cs = pat @ suf)"
    by (metis append_eq_conv_conj append_take_drop_id)
  with Cons show ?case by (auto simp: Cons_eq_append_conv)
qed

section \<open>Text that a \<open>String\<close> can hold\<close>

definition ascii :: "string \<Rightarrow> bool" where
  "ascii s = list_all (\<lambda>c. (of_char c :: nat) < 128) s"

definition is_text :: "string \<Rightarrow> bool" where
  "is_text s \<longleftrightarrow> (\<exists>bs. valid_utf8 bs \<and> s = str_of bs)"

lemma is_text_lossy [simp]: "is_text (str_of (from_utf8_lossy bs))"
  using valid_utf8_lossy by (auto simp: is_text_def)

lemma ascii_is_text:
  assumes "ascii s"
  shows "is_text s"
proof -
  let ?bs = "map (\<lambda>c. word_of_nat (of_char c) :: u8) s"
  have small: "unat (word_of_nat (of_char c) :: u8) = of_char c" if "c \<in> set s" for c
    using assms that by (intro unat_of_nat_u8) (auto simp: ascii_def list_all_iff)
  have "valid_utf8 ?bs"
    using assms
  proof (induction s)
    case (Cons c s)
    then have "unat (word_of_nat (of_char c) :: u8) < 128"
      by (subst unat_of_nat_u8) (simp_all add: ascii_def)
    then have "utf8_step (word_of_nat (of_char c)) bs = (True, 1)" for bs
      by (simp add: utf8_step.simps utf8_width_def word_less_nat_alt)
    with Cons show ?case by (simp add: ascii_def)
  qed simp
  moreover have "s = str_of ?bs"
    using small by (simp add: str_of_def map_idI)
  ultimately show ?thesis unfolding is_text_def by blast
qed

lemma ascii_append [simp]: "ascii (s @ t) \<longleftrightarrow> ascii s \<and> ascii t"
  by (simp add: ascii_def)

lemma ascii_dec [simp]: "ascii (dec n)"
proof (induction n rule: dec.induct)
  case (1 n)
  have "ascii [char_of (48 + k)]" if "k < 10" for k :: nat
    using that by (simp add: ascii_def)
  then have "ascii [char_of (48 + n mod 10)]" "n < 10 \<Longrightarrow> ascii [char_of (48 + n)]"
    by simp_all
  with 1 show ?case by (subst dec.simps) auto
qed

end
