(* ===== verification/Tls_Types.thy ===== *)
theory Tls_Types
  imports Rust_Text
begin

text \<open>
  \<open>src/src/model/tls.rs\<close>: the TLS enumerations, their decoding from wire codes and their
  display names. Each enumeration keeps the codes it does not name in \<open>Other\<close>, so
  decoding loses nothing: the \<open>to_u16\<close> functions are the specification of that, and the
  \<open>wire_code\<close> locale is what the decoders of lists rely on.
\<close>

datatype TlsVersion = Ssl30 | Tls10 | Tls11 | Tls12 | Tls13 | Other u16

definition TlsVersion_from_u16 :: "u16 \<Rightarrow> TlsVersion" where
  "TlsVersion_from_u16 v =
     (if v = 0x0300 then Ssl30
      else if v = 0x0301 then Tls10
      else if v = 0x0302 then Tls11
      else if v = 0x0303 then Tls12
      else if v = 0x0304 then Tls13
      else TlsVersion.Other v)"

fun TlsVersion_fmt :: "TlsVersion \<Rightarrow> string" where
  "TlsVersion_fmt Ssl30 = ''SSL 3.0''"
| "TlsVersion_fmt Tls10 = ''TLS 1.0''"
| "TlsVersion_fmt Tls11 = ''TLS 1.1''"
| "TlsVersion_fmt Tls12 = ''TLS 1.2''"
| "TlsVersion_fmt Tls13 = ''TLS 1.3''"
| "TlsVersion_fmt (TlsVersion.Other v) = ''Unknown(0x'' @ hex4 v @ '')''"

datatype CipherSuite =
    Aes128GcmSha256 | Aes256GcmSha384 | Chacha20Poly1305Sha256 | Aes128CcmSha256
  | Aes128Ccm8Sha256 | EcdheEcdsaAes128GcmSha256 | EcdheEcdsaAes256GcmSha384
  | EcdheRsaAes128GcmSha256 | EcdheRsaAes256GcmSha384 | EcdheEcdsaChacha20Poly1305Sha256
  | EcdheRsaChacha20Poly1305Sha256 | RsaAes128GcmSha256 | RsaAes256GcmSha384 | Other u16

definition CipherSuite_from_u16 :: "u16 \<Rightarrow> CipherSuite" where
  "CipherSuite_from_u16 v =
     (if v = 0x1301 then Aes128GcmSha256
      else if v = 0x1302 then Aes256GcmSha384
      else if v = 0x1303 then Chacha20Poly1305Sha256
      else if v = 0x1304 then Aes128CcmSha256
      else if v = 0x1305 then Aes128Ccm8Sha256
      else if v = 0xc02b then EcdheEcdsaAes128GcmSha256
      else if v = 0xc02c then EcdheEcdsaAes256GcmSha384
      else if v = 0xc02f then EcdheRsaAes128GcmSha256
      else if v = 0xc030 then EcdheRsaAes256GcmSha384
      else if v = 0xcca9 then EcdheEcdsaChacha20Poly1305Sha256
      else if v = 0xcca8 then EcdheRsaChacha20Poly1305Sha256
      else if v = 0x009c then RsaAes128GcmSha256
      else if v = 0x009d then RsaAes256GcmSha384
      else CipherSuite.Other v)"

fun CipherSuite_fmt :: "CipherSuite \<Rightarrow> string" where
  "CipherSuite_fmt Aes128GcmSha256 = ''TLS_AES_128_GCM_SHA256''"
| "CipherSuite_fmt Aes256GcmSha384 = ''TLS_AES_256_GCM_SHA384''"
| "CipherSuite_fmt Chacha20Poly1305Sha256 = ''TLS_CHACHA20_POLY1305_SHA256''"
| "CipherSuite_fmt Aes128CcmSha256 = ''TLS_AES_128_CCM_SHA256''"
| "CipherSuite_fmt Aes128Ccm8Sha256 = ''TLS_AES_128_CCM_8_SHA256''"
| "CipherSuite_fmt EcdheEcdsaAes128GcmSha256 = ''TLS_ECDHE_ECDSA_WITH_AES_128_GCM_SHA256''"
| "CipherSuite_fmt EcdheEcdsaAes256GcmSha384 = ''TLS_ECDHE_ECDSA_WITH_AES_256_GCM_SHA384''"
| "CipherSuite_fmt EcdheRsaAes128GcmSha256 = ''TLS_ECDHE_RSA_WITH_AES_128_GCM_SHA256''"
| "CipherSuite_fmt EcdheRsaAes256GcmSha384 = ''TLS_ECDHE_RSA_WITH_AES_256_GCM_SHA384''"
| "CipherSuite_fmt EcdheEcdsaChacha20Poly1305Sha256 =
     ''TLS_ECDHE_ECDSA_WITH_CHACHA20_POLY1305_SHA256''"
| "CipherSuite_fmt EcdheRsaChacha20Poly1305Sha256 =
     ''TLS_ECDHE_RSA_WITH_CHACHA20_POLY1305_SHA256''"
| "CipherSuite_fmt RsaAes128GcmSha256 = ''TLS_RSA_WITH_AES_128_GCM_SHA256''"
| "CipherSuite_fmt RsaAes256GcmSha384 = ''TLS_RSA_WITH_AES_256_GCM_SHA384''"
| "CipherSuite_fmt (CipherSuite.Other v) = ''Unknown(0x'' @ hex4 v @ '')''"

datatype NamedGroup =
    Secp256r1 | Secp384r1 | Secp521r1 | X25519 | X448 | Ffdhe2048 | Ffdhe3072 | Ffdhe4096
  | X25519Kyber768Draft00 | X25519MlKem768 | SecP256r1MlKem768 | Other u16

definition NamedGroup_from_u16 :: "u16 \<Rightarrow> NamedGroup" where
  "NamedGroup_from_u16 v =
     (if v = 0x0017 then Secp256r1
      else if v = 0x0018 then Secp384r1
      else if v = 0x0019 then Secp521r1
      else if v = 0x001d then X25519
      else if v = 0x001e then X448
      else if v = 0x0100 then Ffdhe2048
      else if v = 0x0101 then Ffdhe3072
      else if v = 0x0102 then Ffdhe4096
      else if v = 0x6399 then X25519Kyber768Draft00
      else if v = 0x11ec then X25519MlKem768
      else if v = 0x11eb then SecP256r1MlKem768
      else NamedGroup.Other v)"

fun NamedGroup_fmt :: "NamedGroup \<Rightarrow> string" where
  "NamedGroup_fmt Secp256r1 = ''secp256r1''"
| "NamedGroup_fmt Secp384r1 = ''secp384r1''"
| "NamedGroup_fmt Secp521r1 = ''secp521r1''"
| "NamedGroup_fmt X25519 = ''x25519''"
| "NamedGroup_fmt X448 = ''x448''"
| "NamedGroup_fmt Ffdhe2048 = ''ffdhe2048''"
| "NamedGroup_fmt Ffdhe3072 = ''ffdhe3072''"
| "NamedGroup_fmt Ffdhe4096 = ''ffdhe4096''"
| "NamedGroup_fmt X25519Kyber768Draft00 = ''x25519_kyber768_draft00''"
| "NamedGroup_fmt X25519MlKem768 = ''X25519MLKEM768''"
| "NamedGroup_fmt SecP256r1MlKem768 = ''SecP256r1MLKEM768''"
| "NamedGroup_fmt (NamedGroup.Other v) = ''Unknown(0x'' @ hex4 v @ '')''"

text \<open>\<open>AlpnProtocol\<close> is a newtype over \<open>String\<close>.\<close>

type_synonym AlpnProtocol = string

definition AlpnProtocol_from_bytes :: "bytes \<Rightarrow> AlpnProtocol" where
  "AlpnProtocol_from_bytes bs = str_of (from_utf8_lossy bs)"

text \<open>
  The test \<open>matches!(v, Some(Ssl30 | Tls10 | Tls11 | Tls12))\<close>, which the tracker, the
  application state and the flow panel each write out.
\<close>

fun pre_tls13 :: "TlsVersion \<Rightarrow> bool" where
  "pre_tls13 Ssl30 = True"
| "pre_tls13 Tls10 = True"
| "pre_tls13 Tls11 = True"
| "pre_tls13 Tls12 = True"
| "pre_tls13 Tls13 = False"
| "pre_tls13 (TlsVersion.Other v) = False"

section \<open>Wire codes\<close>

fun TlsVersion_to_u16 :: "TlsVersion \<Rightarrow> u16" where
  "TlsVersion_to_u16 Ssl30 = 0x0300"
| "TlsVersion_to_u16 Tls10 = 0x0301"
| "TlsVersion_to_u16 Tls11 = 0x0302"
| "TlsVersion_to_u16 Tls12 = 0x0303"
| "TlsVersion_to_u16 Tls13 = 0x0304"
| "TlsVersion_to_u16 (TlsVersion.Other v) = v"

fun CipherSuite_to_u16 :: "CipherSuite \<Rightarrow> u16" where
  "CipherSuite_to_u16 Aes128GcmSha256 = 0x1301"
| "CipherSuite_to_u16 Aes256GcmSha384 = 0x1302"
| "CipherSuite_to_u16 Chacha20Poly1305Sha256 = 0x1303"
| "CipherSuite_to_u16 Aes128CcmSha256 = 0x1304"
| "CipherSuite_to_u16 Aes128Ccm8Sha256 = 0x1305"
| "CipherSuite_to_u16 EcdheEcdsaAes128GcmSha256 = 0xc02b"
| "CipherSuite_to_u16 EcdheEcdsaAes256GcmSha384 = 0xc02c"
| "CipherSuite_to_u16 EcdheRsaAes128GcmSha256 = 0xc02f"
| "CipherSuite_to_u16 EcdheRsaAes256GcmSha384 = 0xc030"
| "CipherSuite_to_u16 EcdheEcdsaChacha20Poly1305Sha256 = 0xcca9"
| "CipherSuite_to_u16 EcdheRsaChacha20Poly1305Sha256 = 0xcca8"
| "CipherSuite_to_u16 RsaAes128GcmSha256 = 0x009c"
| "CipherSuite_to_u16 RsaAes256GcmSha384 = 0x009d"
| "CipherSuite_to_u16 (CipherSuite.Other v) = v"

fun NamedGroup_to_u16 :: "NamedGroup \<Rightarrow> u16" where
  "NamedGroup_to_u16 Secp256r1 = 0x0017"
| "NamedGroup_to_u16 Secp384r1 = 0x0018"
| "NamedGroup_to_u16 Secp521r1 = 0x0019"
| "NamedGroup_to_u16 X25519 = 0x001d"
| "NamedGroup_to_u16 X448 = 0x001e"
| "NamedGroup_to_u16 Ffdhe2048 = 0x0100"
| "NamedGroup_to_u16 Ffdhe3072 = 0x0101"
| "NamedGroup_to_u16 Ffdhe4096 = 0x0102"
| "NamedGroup_to_u16 X25519Kyber768Draft00 = 0x6399"
| "NamedGroup_to_u16 X25519MlKem768 = 0x11ec"
| "NamedGroup_to_u16 SecP256r1MlKem768 = 0x11eb"
| "NamedGroup_to_u16 (NamedGroup.Other v) = v"

locale wire_code =
  fixes from_code :: "u16 \<Rightarrow> 'a"
    and to_code :: "'a \<Rightarrow> u16"
  assumes code_kept: "to_code (from_code v) = v"
begin

lemma from_code_inj: "from_code v = from_code w \<longleftrightarrow> v = w"
  by (metis code_kept)

lemma list_codes_kept: "map to_code (map from_code vs) = vs"
  by (simp add: code_kept comp_def)

lemma decode_chunks_kept:
  "even (length bs) \<Longrightarrow>
     concat (map (u16_to_be_bytes \<circ> to_code) (map from_code (u16_chunks bs))) = bs"
  by (simp add: code_kept comp_def encode_u16_chunks)

end

interpretation version_code: wire_code TlsVersion_from_u16 TlsVersion_to_u16
  by unfold_locales (simp add: TlsVersion_from_u16_def)

interpretation suite_code: wire_code CipherSuite_from_u16 CipherSuite_to_u16
  by unfold_locales (simp add: CipherSuite_from_u16_def)

interpretation group_code: wire_code NamedGroup_from_u16 NamedGroup_to_u16
  by unfold_locales (simp add: NamedGroup_from_u16_def)

text \<open>The named values are exactly the ones the decoder produces: \<open>Other\<close> never hides a
  registered code.\<close>

lemma from_u16_named [simp]:
  "TlsVersion_from_u16 0x0300 = Ssl30"
  "TlsVersion_from_u16 0x0301 = Tls10"
  "TlsVersion_from_u16 0x0302 = Tls11"
  "TlsVersion_from_u16 0x0303 = Tls12"
  "TlsVersion_from_u16 0x0304 = Tls13"
  by (simp_all add: TlsVersion_from_u16_def)

text \<open>
  Decoding a two-byte wire code never loses it: for the TLS versions, the cipher suites
  and the named groups, the code can be read back from the decoded value, whether the code
  is registered or falls in \<open>Other\<close>.
\<close>

theorem wire_codes_roundtrip:
  "TlsVersion_to_u16 (TlsVersion_from_u16 v) = v
   \<and> CipherSuite_to_u16 (CipherSuite_from_u16 v) = v
   \<and> NamedGroup_to_u16 (NamedGroup_from_u16 v) = v"
  by (simp add: version_code.code_kept suite_code.code_kept group_code.code_kept)

end
