(* ===== verification/Origin.thy ===== *)
theory Origin
  imports Connection
begin

text \<open>
  \<open>src/src/origin/mod.rs\<close> and \<open>other.rs\<close>: who owns a flow. A resolver is the trait
  \<open>OriginResolver\<close>: from its own mutable state and the two endpoints, in either order, an
  \<open>Origin\<close> and a new state, or a panic. What a client relies on are the locales
  \<open>either_order_resolver\<close> and \<open>returning_resolver\<close>; the two portable implementations are
  interpretations of both. The \<open>/proc\<close> walker of Linux is in \<open>Origin_Linux\<close>.
\<close>

record ProcessOrigin =
  pid :: u32
  comm :: string
  cmdline :: string
  uid :: u32

datatype Origin = Local ProcessOrigin | OtherUser u32 | Unknown | Unsupported

type_synonym 'r OriginResolver = "'r \<Rightarrow> SocketAddr \<Rightarrow> SocketAddr \<Rightarrow> (Origin \<times> 'r) exec"

text \<open>\<open>FixedResolver(Origin)\<close>: the scripted answer is its state.\<close>

definition FixedResolver_resolve :: "Origin OriginResolver" where
  "FixedResolver_resolve fixed a b = Some (fixed, fixed)"

definition NullOriginResolver_resolve :: "unit OriginResolver" where
  "NullOriginResolver_resolve u a b = Some (Unsupported, u)"

locale either_order_resolver =
  fixes resolve :: "'r OriginResolver"
  assumes swap: "map_option fst (resolve r a b) = map_option fst (resolve r b a)"
begin

lemma answer_of_endpoints: "{a, b} = {c, d} \<Longrightarrow> map_option fst (resolve r a b) = map_option fst (resolve r c d)"
  by (metis doubleton_eq_iff swap)

lemma answer_of_flow:
  "map_option fst (resolve r a b) =
     map_option fst (resolve r (client_ip (canonical (fst a) (snd a) (fst b) (snd b)),
                     client_port (canonical (fst a) (snd a) (fst b) (snd b)))
                    (server_ip (canonical (fst a) (snd a) (fst b) (snd b)),
                     server_port (canonical (fst a) (snd a) (fst b) (snd b))))"
  using canonical_endpoints [OF refl, of "fst a" "snd a" "fst b" "snd b"]
  by (intro answer_of_endpoints) auto

end

text \<open>A resolver that returns as long as its state satisfies \<open>good\<close>, and keeps it so.\<close>

definition returning :: "'r OriginResolver \<Rightarrow> ('r \<Rightarrow> bool) \<Rightarrow> bool" where
  "returning resolve good \<longleftrightarrow> (\<forall>r a b. good r \<longrightarrow> (\<exists>o' r'. resolve r a b = Some (o', r') \<and> good r'))"

locale returning_resolver =
  fixes resolve :: "'r OriginResolver" and good :: "'r \<Rightarrow> bool"
  assumes answers: "good r \<Longrightarrow> \<exists>o' r'. resolve r a b = Some (o', r') \<and> good r'"
begin

lemma returning: "returning resolve good"
  using answers by (simp add: returning_def)

end

interpretation fixed_resolver: either_order_resolver FixedResolver_resolve
  by unfold_locales (simp add: FixedResolver_resolve_def)

interpretation null_resolver: either_order_resolver NullOriginResolver_resolve
  by unfold_locales (simp add: NullOriginResolver_resolve_def)

interpretation fixed_answers: returning_resolver FixedResolver_resolve "\<lambda>_. True"
  by unfold_locales (simp add: FixedResolver_resolve_def)

interpretation null_answers: returning_resolver NullOriginResolver_resolve "\<lambda>_. True"
  by unfold_locales (simp add: NullOriginResolver_resolve_def)

end
