(* ===== verification/Handshake_Model.thy ===== *)
theory Handshake_Model
  imports Tls_Types Origin
begin

text \<open>
  \<open>src/src/model/handshake.rs\<close>: the stages of a handshake, their display order for TLS 1.3
  and TLS 1.2, and the aggregated view of one handshake.
\<close>

datatype HandshakeStage =
    Idle | ClientHello | ServerHello | Certificate | ServerCertificate | ServerKeyExchange
  | ServerHelloDone | ClientKeyExchange | ClientFinished | ServerFinished | ApplicationData
  | Errored

definition ordered :: "HandshakeStage list" where
  "ordered =
     [HandshakeStage.ClientHello, HandshakeStage.ServerHello, HandshakeStage.Certificate,
      HandshakeStage.ClientFinished, HandshakeStage.ServerFinished,
      HandshakeStage.ApplicationData]"

definition ordered_tls12 :: "HandshakeStage list" where
  "ordered_tls12 =
     [HandshakeStage.ClientHello, HandshakeStage.ServerHello, HandshakeStage.ServerCertificate,
      HandshakeStage.ServerKeyExchange, HandshakeStage.ServerHelloDone,
      HandshakeStage.ClientKeyExchange, HandshakeStage.ClientFinished,
      HandshakeStage.ServerFinished, HandshakeStage.ApplicationData]"

fun stage_label :: "HandshakeStage \<Rightarrow> string" where
  "stage_label HandshakeStage.Idle = ''Idle''"
| "stage_label HandshakeStage.ClientHello = ''ClientHello''"
| "stage_label HandshakeStage.ServerHello = ''ServerHello''"
| "stage_label HandshakeStage.Certificate = ''Certificate''"
| "stage_label HandshakeStage.ServerCertificate = ''Server Cert''"
| "stage_label HandshakeStage.ServerKeyExchange = ''Svr Key Exch''"
| "stage_label HandshakeStage.ServerHelloDone = ''Svr Hello Done''"
| "stage_label HandshakeStage.ClientKeyExchange = ''Clt Key Exch''"
| "stage_label HandshakeStage.ClientFinished = ''Clt Finished''"
| "stage_label HandshakeStage.ServerFinished = ''Svr Finished''"
| "stage_label HandshakeStage.ApplicationData = ''App Data''"
| "stage_label HandshakeStage.Errored = ''Errored''"

record HandshakeInfo =
  stage :: HandshakeStage
  sni :: "string option"
  alpn_offered :: "AlpnProtocol list"
  alpn_selected :: "AlpnProtocol option"
  cipher_suites_offered :: "CipherSuite list"
  cipher_suite_selected :: "CipherSuite option"
  groups_offered :: "NamedGroup list"
  key_share_group :: "NamedGroup option"
  tls_version :: "TlsVersion option"
  certificate_subject :: "string option"
  certificate_issuer :: "string option"
  hs_error :: "string option"
  origin :: "Origin option"

definition HandshakeInfo_new :: HandshakeInfo where
  "HandshakeInfo_new =
     \<lparr>stage = HandshakeStage.Idle, sni = None, alpn_offered = [], alpn_selected = None,
      cipher_suites_offered = [], cipher_suite_selected = None, groups_offered = [],
      key_share_group = None, tls_version = None, certificate_subject = None,
      certificate_issuer = None, hs_error = None, origin = None\<rparr>"

text \<open>The two display lists are without repetition, agree on the stages both versions have,
  and between them hold every stage but the two that are never drawn.\<close>

lemma ordered_distinct: "distinct ordered" "distinct ordered_tls12"
  by (simp_all add: ordered_def ordered_tls12_def)

lemma ordered_cover: "set ordered \<union> set ordered_tls12 = UNIV - {HandshakeStage.Idle, HandshakeStage.Errored}"
proof -
  have "s \<in> set ordered \<union> set ordered_tls12 \<longleftrightarrow> s \<notin> {HandshakeStage.Idle, HandshakeStage.Errored}" for s
    by (cases s) (simp_all add: ordered_def ordered_tls12_def)
  then show ?thesis by blast
qed

lemma stage_label_inj: "stage_label s = stage_label t \<Longrightarrow> s = t"
  by (cases s; cases t) simp_all

end
