(* ===== verification/Record_Model.thy ===== *)
theory Record_Model
  imports Tls_Types
begin

text \<open>
  \<open>src/src/model/record.rs\<close> and the record type of \<open>src/src/parser/record.rs\<close>: one TLS
  record of the timeline, the decoded forms of its body, and the names of handshake
  messages. Field names that several structs share carry the struct's initials.
\<close>

datatype TlsRecordType = ChangeCipherSpec | Alert | Handshake | ApplicationData | Other u8

definition TlsRecordType_from_u8 :: "u8 \<Rightarrow> TlsRecordType" where
  "TlsRecordType_from_u8 v =
     (if v = 20 then TlsRecordType.ChangeCipherSpec
      else if v = 21 then TlsRecordType.Alert
      else if v = 22 then TlsRecordType.Handshake
      else if v = 23 then TlsRecordType.ApplicationData
      else TlsRecordType.Other v)"

text \<open>\<open>record_type_byte\<close> of the tracker.\<close>

fun record_type_byte :: "TlsRecordType \<Rightarrow> u8" where
  "record_type_byte TlsRecordType.ChangeCipherSpec = 20"
| "record_type_byte TlsRecordType.Alert = 21"
| "record_type_byte TlsRecordType.Handshake = 22"
| "record_type_byte TlsRecordType.ApplicationData = 23"
| "record_type_byte (TlsRecordType.Other v) = v"

lemma record_type_byte_from_u8 [simp]: "record_type_byte (TlsRecordType_from_u8 v) = v"
  by (simp add: TlsRecordType_from_u8_def)

datatype RecordDirection = ClientToServer | ServerToClient

fun RecordDirection_arrow :: "RecordDirection \<Rightarrow> string" where
  "RecordDirection_arrow RecordDirection.ClientToServer = [CHR 0xE2, CHR 0x86, CHR 0x92]"
| "RecordDirection_arrow RecordDirection.ServerToClient = [CHR 0xE2, CHR 0x86, CHR 0x90]"

fun RecordDirection_short :: "RecordDirection \<Rightarrow> string" where
  "RecordDirection_short RecordDirection.ClientToServer =
     ''C'' @ [CHR 0xE2, CHR 0x86, CHR 0x92] @ ''S''"
| "RecordDirection_short RecordDirection.ServerToClient =
     ''S'' @ [CHR 0xE2, CHR 0x86, CHR 0x92] @ ''C''"

record ServerNameEntry =
  name_type :: u8
  sn_name :: bytes

record KeyShareEntry =
  ks_group :: NamedGroup
  group_code :: u16
  key_exchange :: bytes

record PskIdentity =
  psk_identity :: bytes
  obfuscated_ticket_age :: u32

datatype ExtensionBody =
    ServerName "ServerNameEntry list"
  | SupportedVersions "u16 list"
  | SignatureAlgorithms "u16 list"
  | KeyShare "KeyShareEntry list"
  | SupportedGroups "NamedGroup list"
  | Alpn "bytes list"
  | PskKeyExchangeModes bytes
  | Cookie bytes
  | PreSharedKey "PskIdentity list" usize
  | EarlyData
  | Opaque

record DecodedExtension =
  ext_type :: u16
  ext_name :: string
  ext_raw :: bytes
  ext_body :: ExtensionBody

record DecodedClientHello =
  ch_legacy_version :: u16
  ch_random :: bytes
  ch_session_id :: bytes
  ch_cipher_suites :: "(u16 \<times> CipherSuite option) list"
  ch_compression_methods :: bytes
  ch_extensions :: "DecodedExtension list"

record DecodedServerHello =
  sh_legacy_version :: u16
  sh_random :: bytes
  sh_session_id_echo :: bytes
  sh_cipher_suite :: "u16 \<times> CipherSuite option"
  sh_compression_method :: u8
  sh_extensions :: "DecodedExtension list"

datatype DecodedHandshake =
    ClientHello DecodedClientHello
  | ServerHello DecodedServerHello
  | HelloRetryRequest DecodedServerHello
  | Unknown u8 bytes

datatype RecordBody =
    Handshake DecodedHandshake
  | EncryptedHandshake string bytes
  | ChangeCipherSpec

record RecordEvent =
  direction :: RecordDirection
  timestamp_ms :: u64
  sequence :: u32
  outer_type :: TlsRecordType
  outer_length :: u16
  raw :: bytes
  body :: RecordBody

definition handshake_type_name :: "u8 \<Rightarrow> string" where
  "handshake_type_name msg_type =
     (if msg_type = 1 then ''ClientHello''
      else if msg_type = 2 then ''ServerHello''
      else if msg_type = 4 then ''NewSessionTicket''
      else if msg_type = 5 then ''EndOfEarlyData''
      else if msg_type = 8 then ''EncryptedExtensions''
      else if msg_type = 11 then ''Certificate''
      else if msg_type = 12 then ''ServerKeyExchange''
      else if msg_type = 13 then ''CertificateRequest''
      else if msg_type = 14 then ''ServerHelloDone''
      else if msg_type = 15 then ''CertificateVerify''
      else if msg_type = 16 then ''ClientKeyExchange''
      else if msg_type = 20 then ''Finished''
      else if msg_type = 22 then ''CertificateStatus''
      else if msg_type = 24 then ''KeyUpdate''
      else if msg_type = 254 then ''MessageHash''
      else ''Unknown handshake'')"

fun DecodedHandshake_label :: "DecodedHandshake \<Rightarrow> string" where
  "DecodedHandshake_label (DecodedHandshake.ClientHello _) = ''ClientHello''"
| "DecodedHandshake_label (DecodedHandshake.ServerHello _) = ''ServerHello''"
| "DecodedHandshake_label (DecodedHandshake.HelloRetryRequest _) = ''HelloRetryRequest''"
| "DecodedHandshake_label (DecodedHandshake.Unknown msg_type _) = handshake_type_name msg_type"

end
