(* ===== verification/Connection_State.thy ===== *)
theory Connection_State
  imports Connection Handshake_Model Record_Model
begin

text \<open>
  \<open>ConnectionState\<close> of \<open>src/src/model/connection.rs\<close>: what the tracker hands to the user
  interface about one flow.
\<close>

record ConnectionState =
  cs_key :: ConnectionKey
  first_seen_ms :: u64
  last_seen_ms :: u64
  handshake :: HandshakeInfo
  records :: "RecordEvent list"

end
