(* ===== verification/Hash_Map.thy ===== *)
theory Hash_Map
  imports Prelude
begin

text \<open>
  Rust's \<open>HashMap\<close>: the contract the tracker, the user interface and the origin resolver
  rely on, as the locale \<open>hash_map\<close>, and the map itself as an association list with
  distinct keys. The iteration order of a \<open>HashMap\<close> is unspecified and no definition of
  the development depends on it.
\<close>

type_synonym ('k, 'v) hmap = "('k \<times> 'v) list"

definition hm_empty :: "('k, 'v) hmap" where
  "hm_empty = []"

definition hm_get :: "('k, 'v) hmap \<Rightarrow> 'k \<Rightarrow> 'v option" where
  "hm_get m k = map_of m k"

definition hm_contains :: "('k, 'v) hmap \<Rightarrow> 'k \<Rightarrow> bool" where
  "hm_contains m k \<longleftrightarrow> hm_get m k \<noteq> None"

fun hm_insert :: "'k \<Rightarrow> 'v \<Rightarrow> ('k, 'v) hmap \<Rightarrow> ('k, 'v) hmap" where
  "hm_insert k v [] = [(k, v)]"
| "hm_insert k v ((k', v') # m) = (if k' = k then (k, v) # m else (k', v') # hm_insert k v m)"

definition hm_retain :: "('k \<Rightarrow> 'v \<Rightarrow> bool) \<Rightarrow> ('k, 'v) hmap \<Rightarrow> ('k, 'v) hmap" where
  "hm_retain p m = filter (\<lambda>(k, v). p k v) m"

definition hm_len :: "('k, 'v) hmap \<Rightarrow> nat" where
  "hm_len m = length m"

definition hm_keys :: "('k, 'v) hmap \<Rightarrow> 'k list" where
  "hm_keys m = map fst m"

definition hm_values :: "('k, 'v) hmap \<Rightarrow> 'v list" where
  "hm_values m = map snd m"

definition hm_ok :: "('k, 'v) hmap \<Rightarrow> bool" where
  "hm_ok m \<longleftrightarrow> distinct (map fst m)"

locale hash_map =
  fixes empty :: "'m"
    and get :: "'m \<Rightarrow> 'k \<Rightarrow> 'v option"
    and insert :: "'k \<Rightarrow> 'v \<Rightarrow> 'm \<Rightarrow> 'm"
    and retain :: "('k \<Rightarrow> 'v \<Rightarrow> bool) \<Rightarrow> 'm \<Rightarrow> 'm"
    and len :: "'m \<Rightarrow> nat"
    and keys :: "'m \<Rightarrow> 'k list"
    and invar :: "'m \<Rightarrow> bool"
  assumes invar_empty: "invar empty"
    and get_empty: "get empty k = None"
    and invar_insert: "invar m \<Longrightarrow> invar (insert k v m)"
    and get_insert: "invar m \<Longrightarrow> get (insert k v m) k' = (if k' = k then Some v else get m k')"
    and invar_retain: "invar m \<Longrightarrow> invar (retain p m)"
    and get_retain: "invar m \<Longrightarrow>
          get (retain p m) k = (case get m k of None \<Rightarrow> None | Some v \<Rightarrow> if p k v then Some v else None)"
    and len_keys: "invar m \<Longrightarrow> len m = length (keys m)"
    and keys_distinct: "invar m \<Longrightarrow> distinct (keys m)"
    and keys_get: "invar m \<Longrightarrow> k \<in> set (keys m) \<longleftrightarrow> get m k \<noteq> None"
begin

lemma keys_set: "invar m \<Longrightarrow> {k. get m k \<noteq> None} = set (keys m)"
  using keys_get by blast

lemma len_card: "invar m \<Longrightarrow> len m = card {k. get m k \<noteq> None}"
  by (simp only: keys_set len_keys distinct_card [OF keys_distinct])

lemma finite_keys: "invar m \<Longrightarrow> finite {k. get m k \<noteq> None}"
  by (simp only: keys_set List.finite_set)

lemma len_insert:
  assumes "invar m"
  shows "len (insert k v m) = (if get m k = None then Suc (len m) else len m)"
proof -
  have fin: "finite {k. get m k \<noteq> None}"
    using assms by (rule finite_keys)
  have "{k'. get (insert k v m) k' \<noteq> None} = Set.insert k {k. get m k \<noteq> None}"
    by (auto simp: get_insert [OF assms])
  then show ?thesis
    using fin by (simp add: len_card assms invar_insert card_insert_if)
qed

text \<open>What \<open>retain\<close> removes is what the predicate refuses, and \<open>len\<close> says how many.\<close>

lemma len_retain:
  assumes "invar m"
  shows "len m = len (retain p m) + card {k. \<exists>v. get m k = Some v \<and> \<not> p k v}"
proof -
  let ?kept = "{k. get (retain p m) k \<noteq> None}" and ?gone = "{k. \<exists>v. get m k = Some v \<and> \<not> p k v}"
  have fin: "finite {k. get m k \<noteq> None}"
    using assms by (rule finite_keys)
  have split: "{k. get m k \<noteq> None} = ?kept \<union> ?gone"
    by (auto simp: get_retain [OF assms] split: option.splits if_splits)
  have disj: "?kept \<inter> ?gone = {}"
    by (auto simp: get_retain [OF assms] split: option.splits if_splits)
  have "card {k. get m k \<noteq> None} = card ?kept + card ?gone"
    using fin disj unfolding split by (simp only: card_Un_disjoint finite_Un)
  then show ?thesis by (simp add: len_card assms invar_retain)
qed

lemma len_retain_le: "invar m \<Longrightarrow> len (retain p m) \<le> len m"
  using len_retain [of m p] by simp

lemma retain_noop_get:
  assumes "invar m" and "\<And>k v. get m k = Some v \<Longrightarrow> p k v"
  shows "get (retain p m) k = get m k"
  using assms by (auto simp: get_retain split: option.splits)

end

lemma hm_insert_keys:
  "set (map fst (hm_insert k v m)) = insert k (set (map fst m))"
  by (induction k v m rule: hm_insert.induct) (simp_all add: insert_commute)

lemma hm_insert_ok: "hm_ok m \<Longrightarrow> hm_ok (hm_insert k v m)"
proof (induction m)
  case Nil
  then show ?case by (simp add: hm_ok_def)
next
  case (Cons kv m)
  obtain k' v' where kv: "kv = (k', v')" by force
  from Cons have ok: "hm_ok (hm_insert k v m)" and nin: "k' \<notin> set (map fst m)"
    by (simp_all add: hm_ok_def kv)
  show ?case
  proof (cases "k' = k")
    case True
    with Cons.prems show ?thesis by (simp add: hm_ok_def kv)
  next
    case False
    have "k' \<notin> set (map fst (hm_insert k v m))"
      unfolding hm_insert_keys using nin False by simp
    with ok False show ?thesis by (simp add: hm_ok_def kv)
  qed
qed

lemma hm_get_insert: "hm_get (hm_insert k v m) k' = (if k' = k then Some v else hm_get m k')"
  by (induction m) (auto simp: hm_get_def)

lemma hm_retain_ok: "hm_ok m \<Longrightarrow> hm_ok (hm_retain p m)"
  by (induction m) (auto simp: hm_ok_def hm_retain_def)

lemma hm_get_retain:
  "hm_ok m \<Longrightarrow> hm_get (hm_retain p m) k =
     (case hm_get m k of None \<Rightarrow> None | Some v \<Rightarrow> if p k v then Some v else None)"
proof (induction m)
  case Nil
  then show ?case by (simp add: hm_get_def hm_retain_def)
next
  case (Cons kv m)
  obtain k' v' where kv: "kv = (k', v')" by force
  from Cons.prems have "hm_ok m" and nin: "k' \<notin> set (map fst m)"
    by (simp_all add: hm_ok_def kv)
  moreover from nin have "map_of m k' = None" by (simp add: map_of_eq_None_iff)
  ultimately show ?case using Cons.IH
    by (auto simp: hm_get_def hm_retain_def kv split: option.splits)
qed

interpretation hm: hash_map hm_empty hm_get hm_insert hm_retain hm_len hm_keys hm_ok
proof unfold_locales
  fix m :: "('a, 'b) hmap" and k k' :: 'a and v :: 'b and p :: "'a \<Rightarrow> 'b \<Rightarrow> bool"
  show "hm_ok (hm_empty :: ('a, 'b) hmap)" by (simp add: hm_ok_def hm_empty_def)
  show "hm_get (hm_empty :: ('a, 'b) hmap) k = None" by (simp add: hm_get_def hm_empty_def)
  show "hm_get (hm_insert k v m) k' = (if k' = k then Some v else hm_get m k')"
    by (rule hm_get_insert)
  assume ok: "hm_ok m"
  show "hm_ok (hm_insert k v m)" using ok by (rule hm_insert_ok)
  show "hm_ok (hm_retain p m)" using ok by (rule hm_retain_ok)
  show "hm_get (hm_retain p m) k =
      (case hm_get m k of None \<Rightarrow> None | Some v \<Rightarrow> if p k v then Some v else None)"
    using ok by (rule hm_get_retain)
  show "hm_len m = length (hm_keys m)" by (simp add: hm_len_def hm_keys_def)
  show "distinct (hm_keys m)" using ok by (simp add: hm_ok_def hm_keys_def)
  show "k \<in> set (hm_keys m) \<longleftrightarrow> hm_get m k \<noteq> None"
    by (auto simp: hm_keys_def hm_get_def map_of_eq_None_iff)
qed

lemma hm_contains_insert [simp]:
  "hm_contains (hm_insert k v m) k' \<longleftrightarrow> k' = k \<or> hm_contains m k'"
  by (simp add: hm_contains_def hm_get_insert)

end
