(* ===== verification/Error_Model.thy ===== *)
theory Error_Model
  imports Rust_Text
begin

text \<open>
  \<open>src/src/error.rs\<close>: the crate's error type, its messages, the permission heuristic and
  the process exit codes. The payload of \<open>Io\<close> is the display text of the \<open>io::Error\<close>.
\<close>

datatype Error =
    Capture string
  | Parse string
  | Tracker string
  | Ui string
  | Config string
  | Io string

fun Error_to_string :: "Error \<Rightarrow> string" where
  "Error_to_string (Capture msg) = ''packet capture error: '' @ msg"
| "Error_to_string (Parse msg) = ''TLS parse error: '' @ msg"
| "Error_to_string (Tracker msg) = ''connection tracking error: '' @ msg"
| "Error_to_string (Ui msg) = ''UI error: '' @ msg"
| "Error_to_string (Config msg) = ''configuration error: '' @ msg"
| "Error_to_string (Io msg) = msg"

fun is_permission_denied :: "Error \<Rightarrow> bool" where
  "is_permission_denied (Capture msg) =
     (contains msg ''permission'' \<or> contains msg ''Operation not permitted''
      \<or> contains msg ''Permission denied'')"
| "is_permission_denied (Parse msg) = False"
| "is_permission_denied (Tracker msg) = False"
| "is_permission_denied (Ui msg) = False"
| "is_permission_denied (Config msg) = False"
| "is_permission_denied (Io msg) = False"

definition exit_code :: "Error \<Rightarrow> u8" where
  "exit_code e =
     (if is_permission_denied e then 77
      else (case e of Parse _ \<Rightarrow> 65 | Config _ \<Rightarrow> 78 | _ \<Rightarrow> 1))"

text \<open>
  The exit code of every error: 77 exactly for a capture error whose message contains one
  of the three permission texts, 65 exactly for parse errors, 78 exactly for configuration
  errors, and 1 for everything else; it is never 0.
\<close>

theorem exit_code_classifies:
  "(exit_code e = 77 \<longleftrightarrow> (\<exists>pre suf msg. e = Capture msg \<and>
       (msg = pre @ ''permission'' @ suf \<or> msg = pre @ ''Operation not permitted'' @ suf
        \<or> msg = pre @ ''Permission denied'' @ suf)))
   \<and> (exit_code e = 65 \<longleftrightarrow> (\<exists>msg. e = Parse msg))
   \<and> (exit_code e = 78 \<longleftrightarrow> (\<exists>msg. e = Config msg))
   \<and> exit_code e \<in> {77, 65, 78, 1} \<and> exit_code e \<noteq> 0"
  by (cases e) (simp_all add: exit_code_def contains_iff ex_disj_distrib)

end
