(* ===== verification/Record_Parser.thy ===== *)
theory Record_Parser
  imports Record_Model Error_Model
begin

text \<open>
  \<open>src/src/parser/record.rs\<close>: framing. \<open>parse_records\<close> peels complete TLS records off the
  front of a buffer. The model keeps the cursor loop with its slice and index operations, so
  that "never panics" is a theorem; \<open>parse_spec\<close> is the framing stated on the unread rest of
  the buffer, and the loop refines it.
\<close>

record TlsRecord =
  record_type :: TlsRecordType
  legacy_version :: u16
  payload :: bytes

definition MAX_RECORD_PAYLOAD :: usize where
  "MAX_RECORD_PAYLOAD = 16384"

definition RECORD_HEADER_LEN :: usize where
  "RECORD_HEADER_LEN = 5"

definition oversize_error :: "usize \<Rightarrow> Error" where
  "oversize_error n =
     Parse (''record payload length '' @ dec n @ '' exceeds maximum '' @ dec MAX_RECORD_PAYLOAD)"

function parse_records_loop ::
  "bytes \<Rightarrow> usize \<Rightarrow> TlsRecord list \<Rightarrow> (Error + TlsRecord list \<times> usize) exec" where
  "parse_records_loop buf cursor records = do {
     left \<leftarrow> usize_sub (length buf) cursor;
     if RECORD_HEADER_LEN \<le> left then do {
       header \<leftarrow> slice buf cursor (cursor + RECORD_HEADER_LEN);
       h0 \<leftarrow> index header 0;
       h1 \<leftarrow> index header 1;
       h2 \<leftarrow> index header 2;
       h3 \<leftarrow> index header 3;
       h4 \<leftarrow> index header 4;
       let len = unat (u16_from_be_bytes h3 h4);
       if MAX_RECORD_PAYLOAD < len then Some (Inl (oversize_error len))
       else do {
         let record_end = cursor + RECORD_HEADER_LEN + len;
         if length buf < record_end then Some (Inr (records, cursor))
         else do {
           body \<leftarrow> slice buf (cursor + RECORD_HEADER_LEN) record_end;
           parse_records_loop buf record_end
             (records @ [\<lparr>record_type = TlsRecordType_from_u8 h0,
                          legacy_version = u16_from_be_bytes h1 h2, payload = body\<rparr>])
         }
       }
     }
     else Some (Inr (records, cursor))
   }"
  by pat_completeness auto
termination
  by (relation "measure (\<lambda>(buf, cursor, records). length buf - cursor)")
     (auto simp: RECORD_HEADER_LEN_def)

declare parse_records_loop.simps [simp del]

definition parse_records :: "bytes \<Rightarrow> (Error + TlsRecord list \<times> usize) exec" where
  "parse_records buf = parse_records_loop buf 0 []"

section \<open>Framing as a specification\<close>

definition wire :: "TlsRecord \<Rightarrow> bytes" where
  "wire r = record_type_byte (record_type r) # u16_to_be_bytes (legacy_version r)
     @ u16_to_be_bytes (word_of_nat (length (payload r))) @ payload r"

text \<open>A record as it can be on the wire: a bounded payload, and a type the header byte gives.\<close>

definition wf_record :: "TlsRecord \<Rightarrow> bool" where
  "wf_record r \<longleftrightarrow> length (payload r) \<le> MAX_RECORD_PAYLOAD
     \<and> TlsRecordType_from_u8 (record_type_byte (record_type r)) = record_type r"

datatype head = Incomplete | Oversize usize | Full TlsRecord

fun frame_head :: "bytes \<Rightarrow> head" where
  "frame_head (t # v1 # v2 # l1 # l2 # rest) =
     (let n = unat (u16_from_be_bytes l1 l2) in
      if MAX_RECORD_PAYLOAD < n then Oversize n
      else if length rest < n then Incomplete
      else Full \<lparr>record_type = TlsRecordType_from_u8 t, legacy_version = u16_from_be_bytes v1 v2,
                 payload = take n rest\<rparr>)"
| "frame_head _ = Incomplete"

lemma frame_head_short: "length bs < 5 \<Longrightarrow> frame_head bs = Incomplete"
  by (cases bs rule: frame_head.cases) auto

lemma frame_head_long:
  "5 \<le> length (bs :: bytes) \<Longrightarrow> \<exists>t v1 v2 l1 l2 rest. bs = t # v1 # v2 # l1 # l2 # rest"
  by (cases bs rule: frame_head.cases) auto

definition record_len :: "TlsRecord \<Rightarrow> usize" where
  "record_len r = RECORD_HEADER_LEN + length (payload r)"

lemma length_wire [wire_simps, simp]: "length (wire r) = record_len r"
  by (simp add: wire_def record_len_def RECORD_HEADER_LEN_def)

lemma record_len_pos [simp]: "0 < record_len r"
  by (simp add: record_len_def RECORD_HEADER_LEN_def)

lemma frame_head_Full:
  assumes "frame_head bs = Full r"
  shows "wf_record r" and "bs = wire r @ drop (record_len r) bs" and "record_len r \<le> length bs"
proof -
  obtain t v1 v2 l1 l2 rest where bs: "bs = t # v1 # v2 # l1 # l2 # rest"
    using assms by (cases bs rule: frame_head.cases) auto
  let ?n = "unat (u16_from_be_bytes l1 l2)"
  have r: "r = \<lparr>record_type = TlsRecordType_from_u8 t, legacy_version = u16_from_be_bytes v1 v2,
      payload = take ?n rest\<rparr>" and n: "?n \<le> MAX_RECORD_PAYLOAD" "?n \<le> length rest"
    using assms by (auto simp: bs Let_def split: if_splits)
  have len: "length (payload r) = ?n" using n by (simp add: r)
  have l: "u16_to_be_bytes (word_of_nat (length (payload r))) = [l1, l2]"
    unfolding len by (simp add: u16_be_bytes_inverse)
  show "wf_record r" using n by (simp add: wf_record_def r)
  show "record_len r \<le> length bs"
    using n by (simp add: record_len_def len bs RECORD_HEADER_LEN_def)
  have "drop (record_len r) bs = drop ?n rest"
    by (simp add: record_len_def len bs RECORD_HEADER_LEN_def eval_nat_numeral)
  then show "bs = wire r @ drop (record_len r) bs"
    using l by (simp add: wire_def r bs u16_be_bytes_inverse)
qed

lemma frame_head_wire:
  assumes "wf_record r"
  shows "frame_head (wire r @ rest) = Full r"
proof -
  have len: "unat (word_of_nat (length (payload r)) :: u16) = length (payload r)"
    using assms by (intro unat_of_nat_u16) (simp add: wf_record_def MAX_RECORD_PAYLOAD_def)
  obtain l1 l2 where l: "u16_to_be_bytes (word_of_nat (length (payload r))) = [l1, l2]"
    by (simp add: u16_to_be_bytes_def)
  have n: "u16_from_be_bytes l1 l2 = word_of_nat (length (payload r))"
    using l u16_be_roundtrip [of "word_of_nat (length (payload r))"] by (simp add: u16_to_be_bytes_def)
  have "wire r @ rest = record_type_byte (record_type r)
      # word_of_nat (unat (legacy_version r) div 256) # word_of_nat (unat (legacy_version r) mod 256)
      # l1 # l2 # payload r @ rest"
    by (simp add: wire_def l) (simp add: u16_to_be_bytes_def)
  then show ?thesis
    using assms by (simp add: n len wf_record_def u16_be_roundtrip)
qed

lemma frame_head_append:
  "frame_head bs = Full r \<Longrightarrow> frame_head (bs @ rest) = Full r"
  "frame_head bs = Oversize n \<Longrightarrow> frame_head (bs @ rest) = Oversize n"
  by (cases bs rule: frame_head.cases; auto simp: Let_def split: if_splits)+

function parse_spec :: "bytes \<Rightarrow> Error + TlsRecord list \<times> usize" where
  "parse_spec bs =
     (case frame_head bs of
        Incomplete \<Rightarrow> Inr ([], 0)
      | Oversize n \<Rightarrow> Inl (oversize_error n)
      | Full r \<Rightarrow>
          map_sum id (\<lambda>(rs, c). (r # rs, record_len r + c)) (parse_spec (drop (record_len r) bs)))"
  by pat_completeness auto
termination
proof (relation "measure length")
  fix bs r
  assume "frame_head bs = Full r"
  then show "(drop (record_len r) bs, bs) \<in> measure length"
    using frame_head_Full(3) [of bs r] record_len_pos [of r]
    unfolding in_measure length_drop by linarith
qed simp

declare parse_spec.simps [simp del]

lemma parse_spec_unfold [simp]:
  "frame_head bs = Incomplete \<Longrightarrow> parse_spec bs = Inr ([], 0)"
  "frame_head bs = Oversize n \<Longrightarrow> parse_spec bs = Inl (oversize_error n)"
  by (subst parse_spec.simps, simp)+

section \<open>The loop refines the specification\<close>

definition shift_result ::
  "TlsRecord list \<Rightarrow> usize \<Rightarrow> Error + TlsRecord list \<times> usize \<Rightarrow> Error + TlsRecord list \<times> usize" where
  "shift_result rs c res = map_sum id (\<lambda>(rs', c'). (rs @ rs', c + c')) res"

lemma shift_result_simps [simp]:
  "shift_result rs c (Inl e) = Inl e"
  "shift_result rs c (Inr (rs', c')) = Inr (rs @ rs', c + c')"
  "shift_result [] 0 res = res"
  by (simp_all add: shift_result_def split: sum.splits) (cases res; auto)

lemma shift_shift:
  "shift_result rs c (shift_result rs' c' res) = shift_result (rs @ rs') (c + c') res"
  by (cases res) (auto simp: shift_result_def)

lemma parse_spec_Full:
  "frame_head bs = Full r \<Longrightarrow>
     parse_spec bs = shift_result [r] (record_len r) (parse_spec (drop (record_len r) bs))"
  by (subst parse_spec.simps) (simp add: shift_result_def)

lemma loop_step:
  assumes "cursor \<le> length buf"
  shows "parse_records_loop buf cursor records =
    (case frame_head (drop cursor buf) of
       Incomplete \<Rightarrow> Some (Inr (records, cursor))
     | Oversize n \<Rightarrow> Some (Inl (oversize_error n))
     | Full r \<Rightarrow> parse_records_loop buf (cursor + record_len r) (records @ [r]))"
proof (cases "length (drop cursor buf) < 5")
  case True
  then show ?thesis
    using assms by (subst parse_records_loop.simps) (simp add: RECORD_HEADER_LEN_def frame_head_short)
next
  case False
  then obtain t v1 v2 l1 l2 rest where bs: "drop cursor buf = t # v1 # v2 # l1 # l2 # rest"
    using frame_head_long by (metis not_less)
  have len: "length buf = cursor + 5 + length rest"
    using assms arg_cong [OF bs, of length] by simp
  have header: "slice buf cursor (cursor + 5) = Some [t, v1, v2, l1, l2]"
    using len by (simp add: bs eval_nat_numeral)
  have drop5: "drop (cursor + 5) buf = rest"
    using arg_cong [OF bs, of "drop 5"] by (simp add: add.commute eval_nat_numeral)
  show ?thesis
    by (subst parse_records_loop.simps)
       (simp add: header drop5 len bs RECORD_HEADER_LEN_def record_len_def Let_def add.assoc)
qed

lemma loop_refines_spec:
  "cursor \<le> length buf \<Longrightarrow>
     parse_records_loop buf cursor records =
       Some (shift_result records cursor (parse_spec (drop cursor buf)))"
proof (induction "length buf - cursor" arbitrary: cursor records rule: less_induct)
  case less
  show ?case
  proof (cases "frame_head (drop cursor buf)")
    case (Full r)
    let ?c = "cursor + record_len r"
    from frame_head_Full(3) [OF Full] have le: "?c \<le> length buf"
      using less.prems by simp
    have "length buf - ?c < length buf - cursor"
      using le record_len_pos [of r] by linarith
    then have "parse_records_loop buf ?c (records @ [r])
        = Some (shift_result (records @ [r]) ?c (parse_spec (drop ?c buf)))"
      using le by (rule less.hyps)
    with Full less.prems show ?thesis
      by (simp add: loop_step parse_spec_Full shift_shift add.commute [of "record_len r"])
  qed (use less.prems in \<open>simp_all add: loop_step\<close>)
qed

lemma parse_records_spec: "parse_records buf = Some (parse_spec buf)"
  by (simp add: parse_records_def loop_refines_spec)

text \<open>The contract of the decoder loops, for the records of a buffer.\<close>

definition records_of :: "TlsRecord list \<Rightarrow> bytes \<Rightarrow> (Error + TlsRecord list) exec" where
  "records_of out bs = map_option (map_sum id fst) (parse_records_loop bs 0 out)"

lemma records_of_spec: "records_of out bs = Some (map_sum id (\<lambda>p. out @ fst p) (parse_spec bs))"
  by (cases "parse_spec bs") (auto simp: records_of_def loop_refines_spec)

interpretation record_loop: full_entry_loop records_of wire wf_record "\<lambda>out. Some (Inr out)"
proof unfold_locales
  fix r out rest
  assume "wf_record r"
  then have "frame_head (wire r @ rest) = Full r" by (rule frame_head_wire)
  then show "records_of out (wire r @ rest) = records_of (out @ [r]) rest"
    by (cases "parse_spec rest") (auto simp: records_of_spec parse_spec_Full)
qed (simp add: records_of_spec frame_head_short)

section \<open>What a caller of the framing can rely on\<close>

lemma parse_spec_sound:
  "parse_spec bs = Inr (rs, n) \<Longrightarrow>
     n \<le> length bs \<and> take n bs = concat (map wire rs) \<and> list_all wf_record rs
     \<and> frame_head (drop n bs) = Incomplete"
proof (induction bs arbitrary: rs n rule: parse_spec.induct)
  case (1 bs)
  show ?case
  proof (cases "frame_head bs")
    case (Full r)
    let ?rest = "drop (record_len r) bs"
    from 1 (2) Full obtain rs' n' where
      rest: "parse_spec ?rest = Inr (rs', n')" and rs: "rs = r # rs'" and n: "n = record_len r + n'"
      by (cases "parse_spec ?rest") (auto simp: parse_spec_Full)
    have IH: "n' \<le> length ?rest" "take n' ?rest = concat (map wire rs')" "list_all wf_record rs'"
      "frame_head (drop n' ?rest) = Incomplete"
      using "1.IH" [OF Full rest] by simp_all
    have bs: "bs = wire r @ ?rest" by (rule frame_head_Full(2) [OF Full])
    have "take n bs = wire r @ take n' ?rest"
      by (subst bs) (simp add: n)
    with IH frame_head_Full [OF Full] show ?thesis
      by (simp add: rs n add.commute)
  qed (use 1 (2) in simp_all)
qed

lemma parse_spec_append:
  "parse_spec bs = Inr (rs, n) \<Longrightarrow>
     parse_spec (bs @ extra) = shift_result rs n (parse_spec (drop n bs @ extra))"
proof (induction bs arbitrary: rs n rule: parse_spec.induct)
  case (1 bs)
  show ?case
  proof (cases "frame_head bs")
    case (Full r)
    let ?rest = "drop (record_len r) bs"
    from 1 (2) Full obtain rs' n' where
      rest: "parse_spec ?rest = Inr (rs', n')" and rs: "rs = r # rs'" and n: "n = record_len r + n'"
      by (cases "parse_spec ?rest") (auto simp: parse_spec_Full)
    have "parse_spec (bs @ extra) = shift_result [r] (record_len r) (parse_spec (?rest @ extra))"
      using frame_head_Full(3) [OF Full] by (simp add: parse_spec_Full frame_head_append(1) [OF Full])
    also have "parse_spec (?rest @ extra) = shift_result rs' n' (parse_spec (drop n' ?rest @ extra))"
      by (rule "1.IH" [OF Full rest])
    finally show ?thesis by (simp add: shift_shift rs n add.commute)
  qed (use 1 (2) in simp_all)
qed

lemma parse_spec_error:
  "parse_spec bs = Inl e \<longleftrightarrow>
     (\<exists>rs tail n. bs = concat (map wire rs) @ tail \<and> list_all wf_record rs
        \<and> frame_head tail = Oversize n \<and> e = oversize_error n)"
  (is "?err bs \<longleftrightarrow> ?at bs")
proof
  show "?err bs \<Longrightarrow> ?at bs"
  proof (induction bs rule: parse_spec.induct)
    case (1 bs)
    show ?case
    proof (cases "frame_head bs")
      case (Oversize n)
      with 1 (2) show ?thesis
        by (intro exI [of _ "[]"] exI [of _ bs] exI [of _ n]) auto
    next
      case (Full r)
      let ?rest = "drop (record_len r) bs"
      from 1 (2) Full have "parse_spec ?rest = Inl e"
        by (cases "parse_spec ?rest") (auto simp: parse_spec_Full)
      then obtain rs tail n where "?rest = concat (map wire rs) @ tail" "list_all wf_record rs"
        "frame_head tail = Oversize n" "e = oversize_error n"
        using "1.IH" [OF Full] by blast
      with frame_head_Full(1,2) [OF Full] show ?thesis
        by (intro exI [of _ "r # rs"] exI [of _ tail] exI [of _ n]) auto
    qed (use 1 (2) in simp)
  qed
  assume "?at bs"
  then obtain rs tail n where bs: "bs = concat (map wire rs) @ tail" "list_all wf_record rs"
    "frame_head tail = Oversize n" "e = oversize_error n" by blast
  have "records_of [] bs = Some (Inl e)"
    using record_loop.walk_entries [OF bs(2), of "[]" tail] bs by (simp add: records_of_spec)
  then show "?err bs" by (cases "parse_spec bs") (auto simp: records_of_spec)
qed

lemma parse_spec_encoded:
  assumes "list_all wf_record rs" and "frame_head tail = Incomplete"
  shows "parse_spec (concat (map wire rs) @ tail) = Inr (rs, length (concat (map wire rs)))"
proof (cases "parse_spec (concat (map wire rs) @ tail)")
  case (Inl e)
  have "records_of [] (concat (map wire rs) @ tail) = Some (Inr rs)"
    using record_loop.walk_entries [OF assms(1), of "[]" tail] assms(2) by (simp add: records_of_spec)
  with Inl show ?thesis by (simp add: records_of_spec)
next
  case (Inr p)
  obtain rs' n where p: "p = (rs', n)" by force
  have "records_of [] (concat (map wire rs) @ tail) = Some (Inr rs)"
    using record_loop.walk_entries [OF assms(1), of "[]" tail] assms(2) by (simp add: records_of_spec)
  with Inr p have "rs' = rs" by (simp add: records_of_spec)
  moreover have "n = length (concat (map wire rs'))"
    using parse_spec_sound [OF Inr [unfolded p]] by (metis length_take min.absorb2)
  ultimately show ?thesis using Inr p by simp
qed

lemma incomplete_length: "frame_head bs = Incomplete \<Longrightarrow> length bs < RECORD_HEADER_LEN + MAX_RECORD_PAYLOAD"
  by (cases bs rule: frame_head.cases)
     (auto simp: RECORD_HEADER_LEN_def MAX_RECORD_PAYLOAD_def Let_def split: if_splits)

text \<open>
  C3. \<open>parse_records\<close> never panics, and on success it is exact: the bytes it consumed are
  the concatenated wire forms of the records it returned, every record is one the wire can
  carry (payload at most 16384 bytes), and what it leaves is one incomplete record, so it
  stopped no earlier than it had to and leaves fewer than 16389 bytes.
\<close>

theorem parse_records_exact:
  "parse_records buf \<noteq> None
   \<and> (\<forall>rs n. parse_records buf = Some (Inr (rs, n)) \<longrightarrow>
        n \<le> length buf \<and> take n buf = concat (map wire rs) \<and> list_all wf_record rs
        \<and> frame_head (drop n buf) = Incomplete \<and> length buf - n < 16389)"
proof -
  have "n \<le> length buf \<and> take n buf = concat (map wire rs) \<and> list_all wf_record rs
      \<and> frame_head (drop n buf) = Incomplete \<and> length buf - n < 16389"
    if "parse_spec buf = Inr (rs, n)" for rs n
    using parse_spec_sound [OF that] incomplete_length [of "drop n buf"]
    by (simp add: RECORD_HEADER_LEN_def MAX_RECORD_PAYLOAD_def)
  then show ?thesis by (simp add: parse_records_spec)
qed

theorem parse_records_exact_witness:
  "parse_records [23, 3, 3, 0, 2, 7, 9, 22] =
     Some (Inr ([\<lparr>record_type = TlsRecordType.ApplicationData, legacy_version = 0x0303,
                  payload = [7, 9]\<rparr>], 7))
   \<and> frame_head (drop 7 [23, 3, 3, 0, 2, 7, 9, 22]) = Incomplete"
proof -
  have run: "parse_records [23, 3, 3, 0, 2, 7, 9, 22] =
     Some (Inr ([\<lparr>record_type = TlsRecordType.ApplicationData, legacy_version = 0x0303,
                  payload = [7, 9]\<rparr>], 7))"
    by code_simp
  with parse_records_exact [of "[23, 3, 3, 0, 2, 7, 9, 22]"] show ?thesis by blast
qed

text \<open>
  Framing inverts concatenation: any list of records the wire can carry, written one
  after the other and followed by any incomplete record, is read back whole, and only the
  incomplete rest is left unconsumed.
\<close>

theorem parse_records_roundtrip:
  assumes "list_all wf_record rs" and "frame_head tail = Incomplete"
  shows "parse_records (concat (map wire rs) @ tail) = Some (Inr (rs, length (concat (map wire rs))))"
  using assms by (simp only: parse_records_spec parse_spec_encoded)

theorem parse_records_roundtrip_witness:
  "parse_records (concat (map wire [\<lparr>record_type = TlsRecordType.Alert, legacy_version = 0x0303,
       payload = [2, 40]\<rparr>]) @ [22, 3])
   = Some (Inr ([\<lparr>record_type = TlsRecordType.Alert, legacy_version = 0x0303,
       payload = [2, 40]\<rparr>], length (concat (map wire [\<lparr>record_type = TlsRecordType.Alert,
         legacy_version = 0x0303, payload = [2, 40]\<rparr>]))))"
  by (rule parse_records_roundtrip)
     (simp_all add: wf_record_def MAX_RECORD_PAYLOAD_def TlsRecordType_from_u8_def)

text \<open>
  Framing does not depend on how TCP cut the stream: when the first part of a stream
  parses, parsing the whole stream gives the records of the first part, then the result of
  parsing what the first part left over together with the second part.
\<close>

theorem parse_records_segmentation:
  assumes "parse_records seg1 = Some (Inr (rs, n))"
  shows "parse_records (seg1 @ seg2) =
     map_option (shift_result rs n) (parse_records (drop n seg1 @ seg2))"
  using assms by (simp add: parse_records_spec parse_spec_append)

theorem parse_records_segmentation_witness:
  "parse_records ([23, 3, 3, 0, 0, 22, 3] @ [3, 0, 1, 9]) =
     map_option (shift_result [\<lparr>record_type = TlsRecordType.ApplicationData,
         legacy_version = 0x0303, payload = []\<rparr>] 5)
       (parse_records (drop 5 [23, 3, 3, 0, 0, 22, 3] @ [3, 0, 1, 9]))"
  by (rule parse_records_segmentation) code_simp

text \<open>
  \<open>parse_records\<close> fails exactly when, after some whole well-formed records, the next
  header claims more than 16384 payload bytes, and the error is the parse error naming that
  length; truncation alone is never an error.
\<close>

theorem parse_records_error:
  "parse_records buf = Some (Inl e) \<longleftrightarrow>
     (\<exists>rs tail n. buf = concat (map wire rs) @ tail \<and> list_all wf_record rs
        \<and> frame_head tail = Oversize n \<and> e = oversize_error n)"
  by (simp add: parse_records_spec parse_spec_error)

end
