(* ===== verification/Extensions.thy ===== *)
theory Extensions
  imports Record_Model
begin

text \<open>
  \<open>src/src/parser/extensions.rs\<close>: the field-by-field decoders of TLS extension bodies. Each
  decoder returns \<open>Some None\<close> where the Rust returns \<open>None\<close> (malformed), and would return
  \<open>None\<close> where a slice or index operation panicked: the lemmas \<open>..._total\<close> show that it
  never does. The list decoders are interpretations of \<open>entry_loop\<close>, which gives their round
  trips.
\<close>

definition extension_name :: "u16 \<Rightarrow> string" where
  "extension_name ext =
     (if ext = 0 then ''server_name''
      else if ext = 1 then ''max_fragment_length''
      else if ext = 4 then ''trusted_ca_keys''
      else if ext = 5 then ''status_request''
      else if ext = 6 then ''user_mapping''
      else if ext = 7 then ''client_authz''
      else if ext = 8 then ''server_authz''
      else if ext = 9 then ''cert_type''
      else if ext = 10 then ''supported_groups''
      else if ext = 11 then ''ec_point_formats''
      else if ext = 13 then ''signature_algorithms''
      else if ext = 14 then ''use_srtp''
      else if ext = 15 then ''heartbeat''
      else if ext = 16 then ''application_layer_protocol_negotiation''
      else if ext = 17 then ''status_request_v2''
      else if ext = 18 then ''signed_certificate_timestamp''
      else if ext = 19 then ''client_certificate_type''
      else if ext = 20 then ''server_certificate_type''
      else if ext = 21 then ''padding''
      else if ext = 22 then ''encrypt_then_mac''
      else if ext = 23 then ''extended_master_secret''
      else if ext = 27 then ''compress_certificate''
      else if ext = 28 then ''record_size_limit''
      else if ext = 35 then ''session_ticket''
      else if ext = 41 then ''pre_shared_key''
      else if ext = 42 then ''early_data''
      else if ext = 43 then ''supported_versions''
      else if ext = 44 then ''cookie''
      else if ext = 45 then ''psk_key_exchange_modes''
      else if ext = 47 then ''certificate_authorities''
      else if ext = 48 then ''oid_filters''
      else if ext = 49 then ''post_handshake_auth''
      else if ext = 50 then ''signature_algorithms_cert''
      else if ext = 51 then ''key_share''
      else if ext = 57 then ''quic_transport_parameters''
      else if ext = 65281 then ''renegotiation_info''
      else ''unknown'')"

section \<open>The individual decoders\<close>

text \<open>\<open>u16::from_be_bytes([xs[i], xs[j]])\<close>\<close>

definition be16_at :: "bytes \<Rightarrow> usize \<Rightarrow> usize \<Rightarrow> u16 exec" where
  "be16_at xs i j = do { a \<leftarrow> index xs i; b \<leftarrow> index xs j; Some (u16_from_be_bytes a b) }"

function server_name_loop :: "ServerNameEntry list \<Rightarrow> bytes \<Rightarrow> ServerNameEntry list option exec" where
  "server_name_loop entries cursor =
     (if 3 \<le> length cursor then do {
        name_type \<leftarrow> index cursor 0;
        len \<leftarrow> be16_at cursor 1 2;
        let name_len = unat len;
        if length cursor < 3 + name_len then Some None
        else do {
          name \<leftarrow> slice cursor 3 (3 + name_len);
          rest \<leftarrow> slice_from cursor (3 + name_len);
          server_name_loop (entries @ [\<lparr>name_type = name_type, sn_name = name\<rparr>]) rest
        }
      }
      else Some (Some entries))"
  by pat_completeness auto
termination
  by (relation "measure (\<lambda>(entries, cursor). length cursor)") (auto simp: slice_from_Some)

definition decode_server_name :: "bytes \<Rightarrow> ServerNameEntry list option exec" where
  "decode_server_name bdy =
     (if length bdy < 2 then Some None
      else do {
        len \<leftarrow> be16_at bdy 0 1;
        let list_len = unat len;
        if length bdy < 2 + list_len then Some None
        else do {
          cursor \<leftarrow> slice bdy 2 (2 + list_len);
          server_name_loop [] cursor
        }
      })"

definition read_opaque_u16 :: "bytes \<Rightarrow> bytes option exec" where
  "read_opaque_u16 bdy =
     (if length bdy < 2 then Some None
      else do {
        len \<leftarrow> be16_at bdy 0 1;
        if length bdy \<noteq> 2 + unat len then Some None
        else do { rest \<leftarrow> slice_from bdy 2; Some (Some rest) }
      })"

definition decode_supported_groups :: "bytes \<Rightarrow> NamedGroup list option exec" where
  "decode_supported_groups bdy = ask_some (read_opaque_u16 bdy) (\<lambda>list.
     if length list mod 2 \<noteq> 0 then Some None
     else Some (Some (map NamedGroup_from_u16 (u16_chunks list))))"

definition decode_signature_algorithms :: "bytes \<Rightarrow> u16 list option exec" where
  "decode_signature_algorithms bdy = ask_some (read_opaque_u16 bdy) (\<lambda>list.
     if length list mod 2 \<noteq> 0 then Some None
     else Some (Some (u16_chunks list)))"

function alpn_loop :: "bytes list \<Rightarrow> bytes \<Rightarrow> bytes list option exec" where
  "alpn_loop out [] = Some (Some out)"
| "alpn_loop out (b # rest) = do {
     let len = unat b;
     if length rest < len then Some None
     else do {
       proto \<leftarrow> slice rest 0 len;
       rest' \<leftarrow> slice_from rest len;
       alpn_loop (out @ [proto]) rest'
     }
   }"
  by pat_completeness auto
termination
  by (relation "measure (\<lambda>(out, cursor). length cursor)") (auto simp: slice_from_Some)

definition decode_alpn :: "bytes \<Rightarrow> bytes list option exec" where
  "decode_alpn bdy = ask_some (read_opaque_u16 bdy) (\<lambda>list. alpn_loop [] list)"

definition decode_supported_versions :: "bytes \<Rightarrow> u16 list option exec" where
  "decode_supported_versions bdy =
     (if length bdy = 2 then do { v \<leftarrow> be16_at bdy 0 1; Some (Some [v]) }
      else if bdy = [] then Some None
      else do {
        b0 \<leftarrow> index bdy 0;
        let list_len = unat b0;
        if length bdy \<noteq> 1 + list_len \<or> list_len mod 2 \<noteq> 0 then Some None
        else do { rest \<leftarrow> slice_from bdy 1; Some (Some (u16_chunks rest)) }
      })"

definition decode_psk_key_exchange_modes :: "bytes \<Rightarrow> bytes option exec" where
  "decode_psk_key_exchange_modes bdy =
     (if bdy = [] then Some None
      else do {
        b0 \<leftarrow> index bdy 0;
        if length bdy \<noteq> 1 + unat b0 then Some None
        else do { rest \<leftarrow> slice_from bdy 1; Some (Some rest) }
      })"

function parse_key_share_entries :: "KeyShareEntry list \<Rightarrow> bytes \<Rightarrow> KeyShareEntry list option exec" where
  "parse_key_share_entries out cursor =
     (if 4 \<le> length cursor then do {
        code \<leftarrow> be16_at cursor 0 1;
        len \<leftarrow> be16_at cursor 2 3;
        let key_len = unat len;
        if length cursor < 4 + key_len then Some None
        else do {
          key \<leftarrow> slice cursor 4 (4 + key_len);
          rest \<leftarrow> slice_from cursor (4 + key_len);
          parse_key_share_entries
            (out @ [\<lparr>ks_group = NamedGroup_from_u16 code, group_code = code, key_exchange = key\<rparr>]) rest
        }
      }
      else if cursor = [] then Some (Some out)
      else Some None)"
  by pat_completeness auto
termination
  by (relation "measure (\<lambda>(out, cursor). length cursor)") (auto simp: slice_from_Some)

definition decode_key_share :: "bytes \<Rightarrow> KeyShareEntry list option exec" where
  "decode_key_share bdy =
     (if 4 \<le> length bdy then do {
        len \<leftarrow> be16_at bdy 0 1;
        if length bdy = 2 + unat len
        then do { rest \<leftarrow> slice_from bdy 2; parse_key_share_entries [] rest }
        else parse_key_share_entries [] bdy
      }
      else parse_key_share_entries [] bdy)"

function psk_identity_loop :: "PskIdentity list \<Rightarrow> bytes \<Rightarrow> PskIdentity list option exec" where
  "psk_identity_loop identities cursor =
     (if 2 \<le> length cursor then do {
        len \<leftarrow> be16_at cursor 0 1;
        let id_len = unat len;
        if length cursor < 2 + id_len + 4 then Some None
        else do {
          identity \<leftarrow> slice cursor 2 (2 + id_len);
          a0 \<leftarrow> index cursor (2 + id_len);
          a1 \<leftarrow> index cursor (3 + id_len);
          a2 \<leftarrow> index cursor (4 + id_len);
          a3 \<leftarrow> index cursor (5 + id_len);
          rest \<leftarrow> slice_from cursor (2 + id_len + 4);
          psk_identity_loop
            (identities @ [\<lparr>psk_identity = identity,
                            obfuscated_ticket_age = u32_from_be_bytes a0 a1 a2 a3\<rparr>]) rest
        }
      }
      else Some (Some identities))"
  by pat_completeness auto
termination
  by (relation "measure (\<lambda>(identities, cursor). length cursor)") (auto simp: slice_from_Some)

definition decode_pre_shared_key :: "bytes \<Rightarrow> ExtensionBody option exec" where
  "decode_pre_shared_key bdy =
     (if length bdy < 2 then Some None
      else do {
        len \<leftarrow> be16_at bdy 0 1;
        let identities_len = unat len;
        if length bdy < 2 + identities_len + 2 then Some None
        else do {
          cursor \<leftarrow> slice bdy 2 (2 + identities_len);
          ask_some (psk_identity_loop [] cursor) (\<lambda>identities. do {
            let binders_start = 2 + identities_len;
            blen \<leftarrow> be16_at bdy binders_start (binders_start + 1);
            Some (Some (PreSharedKey identities (unat blen)))
          })
        }
      })"

definition map_some :: "('a \<Rightarrow> 'b) \<Rightarrow> 'a option exec \<Rightarrow> 'b option exec" where
  "map_some f m = map_option (map_option f) m"

definition decode_body :: "u16 \<Rightarrow> bytes \<Rightarrow> ExtensionBody option exec" where
  "decode_body ext bdy =
     (if ext = 0 then map_some ServerName (decode_server_name bdy)
      else if ext = 10 then map_some SupportedGroups (decode_supported_groups bdy)
      else if ext = 13 \<or> ext = 50 then map_some SignatureAlgorithms (decode_signature_algorithms bdy)
      else if ext = 16 then map_some Alpn (decode_alpn bdy)
      else if ext = 41 then decode_pre_shared_key bdy
      else if ext = 42 then Some (Some EarlyData)
      else if ext = 43 then map_some SupportedVersions (decode_supported_versions bdy)
      else if ext = 44 then map_some Cookie (read_opaque_u16 bdy)
      else if ext = 45 then map_some PskKeyExchangeModes (decode_psk_key_exchange_modes bdy)
      else if ext = 51 then map_some KeyShare (decode_key_share bdy)
      else Some None)"

definition decode_extension :: "u16 \<Rightarrow> bytes \<Rightarrow> DecodedExtension exec" where
  "decode_extension ext bdy = do {
     decoded \<leftarrow> decode_body ext bdy;
     Some \<lparr>ext_type = ext, ext_name = extension_name ext, ext_raw = bdy,
           ext_body = (case decoded of None \<Rightarrow> Opaque | Some b \<Rightarrow> b)\<rparr>
   }"

declare server_name_loop.simps [simp del] alpn_loop.simps [simp del]
  parse_key_share_entries.simps [simp del] psk_identity_loop.simps [simp del]

section \<open>No decoder panics\<close>

lemma be16_at_ok [simp]:
  "i < length xs \<Longrightarrow> j < length xs \<Longrightarrow> be16_at xs i j = Some (u16_from_be_bytes (xs ! i) (xs ! j))"
  by (simp add: be16_at_def)

named_theorems decoder_total \<open>the decoders return on every input\<close>

lemma server_name_loop_total [decoder_total]: "\<exists>r. server_name_loop out cursor = Some r"
proof (induction cursor arbitrary: out rule: length_induct)
  case (1 cursor)
  then show ?case by (subst server_name_loop.simps) (simp add: Let_def del: length_greater_0_conv)
qed

lemma alpn_loop_total [decoder_total]: "\<exists>r. alpn_loop out cursor = Some r"
proof (induction cursor arbitrary: out rule: length_induct)
  case (1 cursor)
  then show ?case by (cases cursor) (simp_all add: alpn_loop.simps Let_def)
qed

lemma parse_key_share_entries_total [decoder_total]:
  "\<exists>r. parse_key_share_entries out cursor = Some r"
proof (induction cursor arbitrary: out rule: length_induct)
  case (1 cursor)
  then show ?case by (subst parse_key_share_entries.simps) (simp add: Let_def del: length_greater_0_conv)
qed

lemma psk_identity_loop_total [decoder_total]: "\<exists>r. psk_identity_loop out cursor = Some r"
proof (induction cursor arbitrary: out rule: length_induct)
  case (1 cursor)
  then show ?case by (subst psk_identity_loop.simps) (simp add: Let_def del: length_greater_0_conv)
qed

lemma read_opaque_u16_eq:
  "read_opaque_u16 bdy =
     Some (if 2 \<le> length bdy \<and> length bdy = 2 + unat (u16_from_be_bytes (bdy ! 0) (bdy ! 1))
           then Some (drop 2 bdy) else None)"
  by (simp add: read_opaque_u16_def del: length_greater_0_conv)

lemma ask_some_total:
  "\<exists>r. m = Some r \<Longrightarrow> (\<And>x. \<exists>r. k x = Some r) \<Longrightarrow> \<exists>r. ask_some m k = Some r"
  by (auto simp: ask_some_def split: option.splits)

lemma map_some_total: "\<exists>r. m = Some r \<Longrightarrow> \<exists>r. map_some f m = Some r"
  by (auto simp: map_some_def)

lemma decode_server_name_total [decoder_total]: "\<exists>r. decode_server_name bdy = Some r"
  by (simp add: decode_server_name_def Let_def server_name_loop_total del: length_greater_0_conv)

lemma read_opaque_u16_total [decoder_total]: "\<exists>r. read_opaque_u16 bdy = Some r"
  by (simp add: read_opaque_u16_eq)

lemma decode_supported_groups_total [decoder_total]: "\<exists>r. decode_supported_groups bdy = Some r"
  unfolding decode_supported_groups_def
  by (intro ask_some_total decoder_total) simp

lemma decode_signature_algorithms_total [decoder_total]:
  "\<exists>r. decode_signature_algorithms bdy = Some r"
  unfolding decode_signature_algorithms_def
  by (intro ask_some_total decoder_total) simp

lemma decode_alpn_total [decoder_total]: "\<exists>r. decode_alpn bdy = Some r"
  unfolding decode_alpn_def by (intro ask_some_total decoder_total)

lemma decode_supported_versions_total [decoder_total]:
  "\<exists>r. decode_supported_versions bdy = Some r"
  by (cases bdy) (simp_all add: decode_supported_versions_def Let_def)

lemma decode_psk_key_exchange_modes_total [decoder_total]:
  "\<exists>r. decode_psk_key_exchange_modes bdy = Some r"
  by (cases bdy) (simp_all add: decode_psk_key_exchange_modes_def)

lemma decode_key_share_total [decoder_total]: "\<exists>r. decode_key_share bdy = Some r"
  by (simp add: decode_key_share_def parse_key_share_entries_total del: length_greater_0_conv)

lemma decode_pre_shared_key_total [decoder_total]: "\<exists>r. decode_pre_shared_key bdy = Some r"
proof (cases "length bdy < 2")
  case False
  then show ?thesis
    by (simp add: decode_pre_shared_key_def Let_def ask_some_total decoder_total
        del: length_greater_0_conv)
qed (simp add: decode_pre_shared_key_def)

lemma decode_body_total [decoder_total]: "\<exists>r. decode_body ext bdy = Some r"
  by (simp add: decode_body_def decoder_total map_some_total)

lemma decode_extension_Some:
  obtains d where "decode_body ext bdy = Some d"
    and "decode_extension ext bdy =
      Some \<lparr>ext_type = ext, ext_name = extension_name ext, ext_raw = bdy,
            ext_body = (case d of None \<Rightarrow> Opaque | Some b \<Rightarrow> b)\<rparr>"
  using decode_body_total [of ext bdy] by (auto simp: decode_extension_def)

section \<open>The wire form of the list entries\<close>

definition enc_server_name :: "ServerNameEntry \<Rightarrow> bytes" where
  "enc_server_name e = name_type e # len16 (length (sn_name e)) @ sn_name e"

definition wf_server_name :: "ServerNameEntry \<Rightarrow> bool" where
  "wf_server_name e \<longleftrightarrow> length (sn_name e) < 65536"

definition enc_alpn :: "bytes \<Rightarrow> bytes" where
  "enc_alpn proto = word_of_nat (length proto) # proto"

definition wf_alpn :: "bytes \<Rightarrow> bool" where
  "wf_alpn proto \<longleftrightarrow> length proto < 256"

definition enc_key_share :: "KeyShareEntry \<Rightarrow> bytes" where
  "enc_key_share e = u16_to_be_bytes (group_code e) @ len16 (length (key_exchange e)) @ key_exchange e"

definition wf_key_share :: "KeyShareEntry \<Rightarrow> bool" where
  "wf_key_share e \<longleftrightarrow>
     length (key_exchange e) < 65536 \<and> ks_group e = NamedGroup_from_u16 (group_code e)"

definition enc_psk :: "PskIdentity \<Rightarrow> bytes" where
  "enc_psk i = len16 (length (psk_identity i)) @ psk_identity i
     @ u32_to_be_bytes (obfuscated_ticket_age i)"

definition wf_psk :: "PskIdentity \<Rightarrow> bool" where
  "wf_psk i \<longleftrightarrow> length (psk_identity i) < 65536"

lemma u16_bytes:
  obtains h l where "u16_to_be_bytes v = [h, l]" and "u16_from_be_bytes h l = v"
  by (metis u16_to_be_bytes_def u16_be_roundtrip)

lemma u32_bytes:
  obtains a b c d where "u32_to_be_bytes v = [a, b, c, d]" and "u32_from_be_bytes a b c d = v"
  by (metis u32_to_be_bytes_def u32_be_roundtrip)

lemma server_name_entry:
  assumes "wf_server_name e"
  shows "server_name_loop out (enc_server_name e @ rest) = server_name_loop (out @ [e]) rest"
proof -
  obtain h l where hl: "len16 (length (sn_name e)) = [h, l]"
    "unat (u16_from_be_bytes h l) = length (sn_name e)"
    using assms len16_bytes unfolding wf_server_name_def by blast
  show ?thesis
    using hl by (cases e, subst server_name_loop.simps)
       (simp add: enc_server_name_def Let_def eval_nat_numeral slice_from_def be16_at_def)
qed

lemma alpn_entry:
  assumes "wf_alpn proto"
  shows "alpn_loop out (enc_alpn proto @ rest) = alpn_loop (out @ [proto]) rest"
  using assms by (simp add: enc_alpn_def wf_alpn_def alpn_loop.simps unat_of_nat_u8 Let_def del: of_nat_eq_0_iff)

lemma key_share_entry:
  assumes "wf_key_share e"
  shows "parse_key_share_entries out (enc_key_share e @ rest) =
    parse_key_share_entries (out @ [e]) rest"
proof -
  obtain h l where hl: "len16 (length (key_exchange e)) = [h, l]"
    "unat (u16_from_be_bytes h l) = length (key_exchange e)"
    using assms len16_bytes unfolding wf_key_share_def by blast
  obtain a b where ab: "u16_to_be_bytes (group_code e) = [a, b]" "u16_from_be_bytes a b = group_code e"
    by (rule u16_bytes)
  have "ks_group e = NamedGroup_from_u16 (group_code e)"
    using assms by (simp add: wf_key_share_def)
  with hl ab show ?thesis
    by (cases e, subst parse_key_share_entries.simps)
       (simp add: enc_key_share_def Let_def eval_nat_numeral slice_from_def be16_at_def)
qed

lemma psk_entry:
  assumes "wf_psk i"
  shows "psk_identity_loop out (enc_psk i @ rest) = psk_identity_loop (out @ [i]) rest"
proof -
  obtain h l where hl: "len16 (length (psk_identity i)) = [h, l]"
    "unat (u16_from_be_bytes h l) = length (psk_identity i)"
    using assms len16_bytes unfolding wf_psk_def by blast
  obtain a b c d where age: "u32_to_be_bytes (obfuscated_ticket_age i) = [a, b, c, d]"
    "u32_from_be_bytes a b c d = obfuscated_ticket_age i"
    by (rule u32_bytes)
  show ?thesis
    using hl age by (cases i, subst psk_identity_loop.simps)
       (simp add: enc_psk_def Let_def eval_nat_numeral slice_from_def be16_at_def nth_append)
qed

interpretation server_names: full_entry_loop
  server_name_loop enc_server_name wf_server_name "\<lambda>out. Some (Some out)"
  by unfold_locales (simp_all add: server_name_entry server_name_loop.simps [of _ "[]"])

interpretation alpn_names: full_entry_loop alpn_loop enc_alpn wf_alpn "\<lambda>out. Some (Some out)"
  by unfold_locales (simp_all add: alpn_entry alpn_loop.simps)

interpretation key_shares: full_entry_loop
  parse_key_share_entries enc_key_share wf_key_share "\<lambda>out. Some (Some out)"
  by unfold_locales (simp_all add: key_share_entry parse_key_share_entries.simps [of _ "[]"])

interpretation psk_identities: full_entry_loop
  psk_identity_loop enc_psk wf_psk "\<lambda>out. Some (Some out)"
  by unfold_locales (simp_all add: psk_entry psk_identity_loop.simps [of _ "[]"])

section \<open>Whole extension bodies\<close>

definition prefix16 :: "bytes \<Rightarrow> bytes" where
  "prefix16 bs = len16 (length bs) @ bs"

definition prefix8 :: "bytes \<Rightarrow> bytes" where
  "prefix8 bs = word_of_nat (length bs) # bs"

fun encode_body :: "ExtensionBody \<Rightarrow> bytes" where
  "encode_body (ServerName es) = prefix16 (concat (map enc_server_name es))"
| "encode_body (SupportedGroups gs) = prefix16 (concat (map (u16_to_be_bytes \<circ> NamedGroup_to_u16) gs))"
| "encode_body (SignatureAlgorithms vs) = prefix16 (concat (map u16_to_be_bytes vs))"
| "encode_body (Alpn ps) = prefix16 (concat (map enc_alpn ps))"
| "encode_body (PreSharedKey ids blen) = prefix16 (concat (map enc_psk ids)) @ len16 blen"
| "encode_body EarlyData = []"
| "encode_body (SupportedVersions vs) = prefix8 (concat (map u16_to_be_bytes vs))"
| "encode_body (Cookie bs) = prefix16 bs"
| "encode_body (PskKeyExchangeModes ms) = prefix8 ms"
| "encode_body (KeyShare es) = prefix16 (concat (map enc_key_share es))"
| "encode_body Opaque = []"

text \<open>A body that the client's message can carry under the extension type \<open>ext\<close>.\<close>

fun wf_body :: "u16 \<Rightarrow> ExtensionBody \<Rightarrow> bool" where
  "wf_body ext (ServerName es) \<longleftrightarrow>
     ext = 0 \<and> list_all wf_server_name es \<and> length (concat (map enc_server_name es)) < 65536"
| "wf_body ext (SupportedGroups gs) \<longleftrightarrow>
     ext = 10 \<and> list_all (\<lambda>g. NamedGroup_from_u16 (NamedGroup_to_u16 g) = g) gs \<and> 2 * length gs < 65536"
| "wf_body ext (SignatureAlgorithms vs) \<longleftrightarrow> (ext = 13 \<or> ext = 50) \<and> 2 * length vs < 65536"
| "wf_body ext (Alpn ps) \<longleftrightarrow>
     ext = 16 \<and> list_all wf_alpn ps \<and> length (concat (map enc_alpn ps)) < 65536"
| "wf_body ext (PreSharedKey ids blen) \<longleftrightarrow>
     ext = 41 \<and> list_all wf_psk ids \<and> length (concat (map enc_psk ids)) < 65536 \<and> blen < 65536"
| "wf_body ext EarlyData \<longleftrightarrow> ext = 42"
| "wf_body ext (SupportedVersions vs) \<longleftrightarrow> ext = 43 \<and> 2 * length vs < 256"
| "wf_body ext (Cookie bs) \<longleftrightarrow> ext = 44 \<and> length bs < 65536"
| "wf_body ext (PskKeyExchangeModes ms) \<longleftrightarrow> ext = 45 \<and> length ms < 256"
| "wf_body ext (KeyShare es) \<longleftrightarrow>
     ext = 51 \<and> es \<noteq> [] \<and> list_all wf_key_share es \<and> length (concat (map enc_key_share es)) < 65536"
| "wf_body ext Opaque \<longleftrightarrow> False"

lemma prefix16_bytes:
  assumes "length bs < 65536"
  obtains h l where "prefix16 bs = h # l # bs" and "unat (u16_from_be_bytes h l) = length bs"
  using len16_bytes [OF assms] unfolding prefix16_def by (metis append_Cons append_Nil)

lemma read_opaque_prefix16: "length bs < 65536 \<Longrightarrow> read_opaque_u16 (prefix16 bs) = Some (Some bs)"
  by (rule prefix16_bytes [of bs]) (simp_all add: read_opaque_u16_eq)

lemma decode_server_name_encoded:
  assumes "list_all wf_server_name es" and "length (concat (map enc_server_name es)) < 65536"
  shows "decode_server_name (prefix16 (concat (map enc_server_name es))) = Some (Some es)"
  by (rule prefix16_bytes [OF assms(2)])
     (simp add: decode_server_name_def server_names.walk_encoded [OF assms(1)])

lemma decode_key_share_encoded:
  assumes "list_all wf_key_share es" and "es \<noteq> []" and "length (concat (map enc_key_share es)) < 65536"
  shows "decode_key_share (prefix16 (concat (map enc_key_share es))) = Some (Some es)"
proof -
  let ?c = "concat (map enc_key_share es)"
  have "4 \<le> length ?c"
    using assms(2) by (cases es) (simp_all add: enc_key_share_def)
  moreover obtain h l where "prefix16 ?c = h # l # ?c" "unat (u16_from_be_bytes h l) = length ?c"
    by (rule prefix16_bytes [OF assms(3)])
  ultimately show ?thesis
    by (simp add: decode_key_share_def key_shares.walk_encoded [OF assms(1)])
qed

lemma decode_pre_shared_key_encoded:
  assumes "list_all wf_psk ids" and "length (concat (map enc_psk ids)) < 65536" and "blen < 65536"
  shows "decode_pre_shared_key (prefix16 (concat (map enc_psk ids)) @ len16 blen)
    = Some (Some (PreSharedKey ids blen))"
proof -
  let ?c = "concat (map enc_psk ids)"
  obtain h l where c: "prefix16 ?c = h # l # ?c" "unat (u16_from_be_bytes h l) = length ?c"
    by (rule prefix16_bytes [OF assms(2)])
  obtain a b where ab: "len16 blen = [a, b]" "unat (u16_from_be_bytes a b) = blen"
    by (rule len16_bytes [OF assms(3)])
  have "be16_at (h # l # ?c @ [a, b]) (2 + length ?c) (2 + length ?c + 1)
      = Some (u16_from_be_bytes a b)"
    by (simp add: nth_append)
  then show ?thesis
    by (simp add: decode_pre_shared_key_def c ab psk_identities.walk_encoded [OF assms(1)])
qed

lemma decode_body_encoded: "wf_body ext b \<Longrightarrow> decode_body ext (encode_body b) = Some (Some b)"
proof (induction ext b rule: wf_body.induct)
  case (2 ext gs)
  have "map NamedGroup_from_u16 (map NamedGroup_to_u16 gs) = gs"
    using 2 by (simp add: list_all_iff comp_def map_idI)
  moreover have "u16_chunks (concat (map (u16_to_be_bytes \<circ> NamedGroup_to_u16) gs))
      = map NamedGroup_to_u16 gs"
    by (metis map_map u16_chunks_encode)
  moreover have "length (concat (map (u16_to_be_bytes \<circ> NamedGroup_to_u16) gs)) = 2 * length gs"
    by (induction gs) auto
  ultimately show ?case
    using 2 by (simp add: decode_body_def map_some_def decode_supported_groups_def read_opaque_prefix16)
next
  case (7 ext vs)
  have "unat (word_of_nat (2 * length vs) :: u8) = 2 * length vs"
    using 7 by (intro unat_of_nat_u8) simp
  then have "decode_supported_versions (prefix8 (concat (map u16_to_be_bytes vs))) = Some (Some vs)"
    by (simp add: decode_supported_versions_def prefix8_def u16_chunks_encode)
  then show ?case
    using 7 by (simp add: decode_body_def map_some_def)
next
  case (9 ext ms)
  then show ?case
    by (simp add: decode_body_def map_some_def decode_psk_key_exchange_modes_def prefix8_def unat_of_nat_u8)
qed (auto simp: decode_body_def map_some_def decode_server_name_encoded decode_key_share_encoded
      decode_pre_shared_key_encoded decode_signature_algorithms_def decode_alpn_def
      read_opaque_prefix16 u16_chunks_encode alpn_names.walk_encoded)

section \<open>Properties\<close>

text \<open>
  The extension decoder is total: for every type code and every body, hostile or
  truncated, it returns (no slice, index or subtraction panics and every loop ends), and what
  it returns keeps the code and the raw body bytes and names the code.
\<close>

theorem decode_extension_total:
  "\<exists>d. decode_extension ext bdy = Some d \<and> ext_type d = ext \<and> ext_raw d = bdy
     \<and> ext_name d = extension_name ext"
  by (rule decode_extension_Some [of ext bdy]) simp

text \<open>
  Decoding inverts the wire form of every extension body the program decodes: server
  names, groups, signature schemes, versions, ALPN names, cookies, PSK modes, PSK identities
  and the client's non-empty key shares all come back unchanged.
\<close>

theorem decode_extension_roundtrip:
  assumes "wf_body ext b"
  shows "decode_extension ext (encode_body b) =
    Some \<lparr>ext_type = ext, ext_name = extension_name ext, ext_raw = encode_body b, ext_body = b\<rparr>"
  by (simp add: decode_extension_def decode_body_encoded [OF assms])

theorem decode_extension_roundtrip_witness:
  "decode_extension 51 (encode_body (KeyShare [\<lparr>ks_group = X25519, group_code = 0x001d,
       key_exchange = [170, 187]\<rparr>])) =
    Some \<lparr>ext_type = 51, ext_name = extension_name 51,
      ext_raw = encode_body (KeyShare [\<lparr>ks_group = X25519, group_code = 0x001d,
        key_exchange = [170, 187]\<rparr>]),
      ext_body = KeyShare [\<lparr>ks_group = X25519, group_code = 0x001d,
        key_exchange = [170, 187]\<rparr>]\<rparr>"
  by (rule decode_extension_roundtrip)
     (simp add: wf_key_share_def NamedGroup_from_u16_def enc_key_share_def)

text \<open>
  The server's form of \<open>key_share\<close>, one bare entry, is read as that entry, unless the
  group code happens to equal the number of bytes after it (then it would be taken for the
  length prefix of the client's form).
\<close>

theorem key_share_server_form:
  assumes "wf_key_share e" and "unat (group_code e) \<noteq> 2 + length (key_exchange e)"
  shows "decode_key_share (enc_key_share e) = Some (Some [e])"
proof -
  have one: "parse_key_share_entries [] (enc_key_share e) = Some (Some [e])"
    using key_shares.walk_encoded [of "[e]"] assms(1) by simp
  obtain a b where ab: "u16_to_be_bytes (group_code e) = [a, b]" "u16_from_be_bytes a b = group_code e"
    by (rule u16_bytes)
  have "length (enc_key_share e) = 4 + length (key_exchange e)"
    by (simp add: enc_key_share_def)
  moreover have "be16_at (enc_key_share e) 0 1 = Some (group_code e)"
    by (simp add: enc_key_share_def ab be16_at_def)
  ultimately show ?thesis
    using assms(2) one by (simp add: decode_key_share_def)
qed

theorem key_share_server_form_witness:
  "decode_key_share (enc_key_share \<lparr>ks_group = X25519, group_code = 0x001d,
      key_exchange = replicate 32 187\<rparr>)
   = Some (Some [\<lparr>ks_group = X25519, group_code = 0x001d, key_exchange = replicate 32 187\<rparr>])"
  by (rule key_share_server_form) (simp_all add: wf_key_share_def NamedGroup_from_u16_def)

text \<open>
  A \<open>key_share\<close> body of two bytes is never decoded. These are the two legal short
  forms, the client's empty list (\<open>00 00\<close>) and the single group of a \<open>HelloRetryRequest\<close>,
  and both end as \<open>Opaque\<close>, whatever the bytes.
\<close>

theorem key_share_two_bytes_opaque:
  "decode_extension 51 [a, b] =
     Some \<lparr>ext_type = 51, ext_name = ''key_share'', ext_raw = [a, b], ext_body = Opaque\<rparr>"
  by (simp add: decode_extension_def decode_body_def decode_key_share_def map_some_def
      parse_key_share_entries.simps extension_name_def)

end
