(* ===== verification/Handshake_Parser.thy ===== *)
theory Handshake_Parser
  imports Extensions Error_Model
begin

text \<open>
  \<open>src/src/parser/handshake.rs\<close>: the full decoders of \<open>ClientHello\<close> and \<open>ServerHello\<close>, which
  walk the raw bytes with cursor readers, and the compact extractors, which take what the
  crate \<open>tls_parser\<close> decoded. That crate is not part of the repository: its two entry points
  are the fields of the record \<open>tls_parser\<close>, a parameter of every definition that calls them,
  and its types hold the parts the program reads, with one constructor for the rest.
\<close>

section \<open>The interface of the \<open>tls_parser\<close> crate\<close>

record TlsClientHelloContents =
  tch_ciphers :: "u16 list"
  tch_ext :: "bytes option"

record TlsServerHelloContents =
  tsh_version :: u16
  tsh_cipher :: u16
  tsh_ext :: "bytes option"

datatype TlsMessageHandshake =
    ClientHello TlsClientHelloContents
  | ServerHello TlsServerHelloContents
  | Certificate
  | ServerKeyExchange
  | ServerDone
  | ClientKeyExchange
  | OtherHandshake

datatype TlsMessage = Handshake TlsMessageHandshake | OtherMessage

datatype TlsExtension =
    SNI "(u8 \<times> bytes) list"
  | ALPN "bytes list"
  | EllipticCurves "u16 list"
  | KeyShare bytes
  | SupportedVersions "u16 list"
  | OtherExtension

record tls_parser =
  parse_tls_message_handshake :: "bytes \<Rightarrow> string + bytes \<times> TlsMessage"
  parse_tls_extension :: "bytes \<Rightarrow> string + bytes \<times> TlsExtension"

text \<open>
  What the loops of the program need of the crate: a successful parse consumes at least one
  byte (a handshake message has a four-byte header, an extension a four-byte header).
\<close>

definition consuming :: "tls_parser \<Rightarrow> bool" where
  "consuming tp \<longleftrightarrow>
     (\<forall>bs rest m. parse_tls_message_handshake tp bs = Inr (rest, m) \<longrightarrow> length rest < length bs)
     \<and> (\<forall>bs rest e. parse_tls_extension tp bs = Inr (rest, e) \<longrightarrow> length rest < length bs)"

section \<open>Extracted summaries\<close>

record ClientHelloInfo =
  chi_sni :: "string option"
  chi_alpn_offered :: "AlpnProtocol list"
  chi_cipher_suites :: "CipherSuite list"
  chi_groups_offered :: "NamedGroup list"
  chi_key_share_group :: "NamedGroup option"
  chi_max_version :: "TlsVersion option"

record ServerHelloInfo =
  shi_tls_version :: "TlsVersion option"
  shi_cipher_suite_selected :: "CipherSuite option"
  shi_key_share_group :: "NamedGroup option"
  shi_alpn_selected :: "AlpnProtocol option"

definition HELLO_RETRY_REQUEST_RANDOM :: bytes where
  "HELLO_RETRY_REQUEST_RANDOM =
     [0xCF, 0x21, 0xAD, 0x74, 0xE5, 0x9A, 0x61, 0x11, 0xBE, 0x1D, 0x8C, 0x02, 0x1E, 0x65, 0xB8, 0x91,
      0xC2, 0xA2, 0x11, 0x16, 0x7A, 0xBB, 0x8C, 0x5E, 0x07, 0x9E, 0x09, 0xE2, 0xC8, 0xA8, 0x33, 0x9C]"

definition is_hello_retry_request :: "DecodedServerHello \<Rightarrow> bool" where
  "is_hello_retry_request sh \<longleftrightarrow> sh_random sh = HELLO_RETRY_REQUEST_RANDOM"

fun preferred_version_rank :: "TlsVersion \<Rightarrow> nat" where
  "preferred_version_rank Tls13 = 5"
| "preferred_version_rank Tls12 = 4"
| "preferred_version_rank Tls11 = 3"
| "preferred_version_rank Tls10 = 2"
| "preferred_version_rank Ssl30 = 1"
| "preferred_version_rank (TlsVersion.Other _) = 0"

text \<open>\<open>Iterator::max_by_key\<close>: the last of the greatest elements.\<close>

fun max_by_key :: "('a \<Rightarrow> nat) \<Rightarrow> 'a list \<Rightarrow> 'a option" where
  "max_by_key k [] = None"
| "max_by_key k (x # xs) = Some (foldl (\<lambda>m y. if k y < k m then m else y) x xs)"

definition first_key_share_group :: "bytes \<Rightarrow> NamedGroup option exec" where
  "first_key_share_group bs =
     (if length bs < 4 then Some None
      else do {
        len \<leftarrow> be16_at bs 0 1;
        let list_len = unat len;
        if list_len + 2 = length bs \<and> 4 \<le> length bs
        then do { group \<leftarrow> be16_at bs 2 3; Some (Some (NamedGroup_from_u16 group)) }
        else do { group \<leftarrow> be16_at bs 0 1; Some (Some (NamedGroup_from_u16 group)) }
      })"

fun apply_client_extension :: "ClientHelloInfo \<Rightarrow> TlsExtension \<Rightarrow> ClientHelloInfo exec" where
  "apply_client_extension info (SNI entries) =
     (case entries of
        [] \<Rightarrow> Some info
      | (_, name) # _ \<Rightarrow> Some (info\<lparr>chi_sni := Some (str_of (from_utf8_lossy name))\<rparr>))"
| "apply_client_extension info (ALPN protocols) =
     Some (info\<lparr>chi_alpn_offered := map AlpnProtocol_from_bytes protocols\<rparr>)"
| "apply_client_extension info (EllipticCurves groups) =
     Some (info\<lparr>chi_groups_offered := map NamedGroup_from_u16 groups\<rparr>)"
| "apply_client_extension info (TlsExtension.KeyShare bs) = do {
     g \<leftarrow> first_key_share_group bs;
     Some (info\<lparr>chi_key_share_group := g\<rparr>)
   }"
| "apply_client_extension info (TlsExtension.SupportedVersions vs) =
     Some (info\<lparr>chi_max_version :=
        max_by_key preferred_version_rank (map TlsVersion_from_u16 vs)\<rparr>)"
| "apply_client_extension info OtherExtension = Some info"

fun apply_server_extension :: "ServerHelloInfo \<Rightarrow> TlsExtension \<Rightarrow> ServerHelloInfo exec" where
  "apply_server_extension info (TlsExtension.KeyShare bs) = do {
     g \<leftarrow> first_key_share_group bs;
     Some (info\<lparr>shi_key_share_group := g\<rparr>)
   }"
| "apply_server_extension info (TlsExtension.SupportedVersions vs) =
     (case vs of
        [] \<Rightarrow> Some info
      | v # _ \<Rightarrow> Some (info\<lparr>shi_tls_version := Some (TlsVersion_from_u16 v)\<rparr>))"
| "apply_server_extension info (ALPN protocols) =
     Some (info\<lparr>shi_alpn_selected :=
        (case protocols of [] \<Rightarrow> None | p # _ \<Rightarrow> Some (AlpnProtocol_from_bytes p))\<rparr>)"
| "apply_server_extension info (SNI entries) = Some info"
| "apply_server_extension info (EllipticCurves groups) = Some info"
| "apply_server_extension info OtherExtension = Some info"

text \<open>\<open>walk_extensions\<close> with the closure's captured variable threaded through: \<open>None\<close> when a
  visit panics or when the crate's parser never gets to the end.\<close>

partial_function (option) walk_extensions ::
  "tls_parser \<Rightarrow> ('s \<Rightarrow> TlsExtension \<Rightarrow> 's exec) \<Rightarrow> 's \<Rightarrow> bytes \<Rightarrow> 's exec" where
  "walk_extensions tp visit s remaining =
     (if remaining = [] then Some s
      else (case parse_tls_extension tp remaining of
          Inl _ \<Rightarrow> Some s
        | Inr (rest, ext) \<Rightarrow> do { s' \<leftarrow> visit s ext; walk_extensions tp visit s' rest }))"

definition extract_client_hello :: "tls_parser \<Rightarrow> TlsClientHelloContents \<Rightarrow> ClientHelloInfo exec" where
  "extract_client_hello tp ch =
     (let info = \<lparr>chi_sni = None, chi_alpn_offered = [],
                  chi_cipher_suites = map CipherSuite_from_u16 (tch_ciphers ch),
                  chi_groups_offered = [], chi_key_share_group = None, chi_max_version = None\<rparr>
      in (case tch_ext ch of
            None \<Rightarrow> Some info
          | Some ext_bytes \<Rightarrow> walk_extensions tp apply_client_extension info ext_bytes))"

definition extract_server_hello :: "tls_parser \<Rightarrow> TlsServerHelloContents \<Rightarrow> ServerHelloInfo exec" where
  "extract_server_hello tp sh =
     (let info = \<lparr>shi_tls_version = Some (TlsVersion_from_u16 (tsh_version sh)),
                  shi_cipher_suite_selected = Some (CipherSuite_from_u16 (tsh_cipher sh)),
                  shi_key_share_group = None, shi_alpn_selected = None\<rparr>
      in (case tsh_ext sh of
            None \<Rightarrow> Some info
          | Some ext_bytes \<Rightarrow> walk_extensions tp apply_server_extension info ext_bytes))"

definition parse_client_hello :: "tls_parser \<Rightarrow> bytes \<Rightarrow> (Error + ClientHelloInfo) exec" where
  "parse_client_hello tp bs =
     (case parse_tls_message_handshake tp bs of
        Inl e \<Rightarrow> Some (Inl (Parse (''client hello: '' @ e)))
      | Inr (_, msg) \<Rightarrow>
          (case msg of
             TlsMessage.Handshake (TlsMessageHandshake.ClientHello ch) \<Rightarrow>
               map_option Inr (extract_client_hello tp ch)
           | _ \<Rightarrow> Some (Inl (Parse ''expected ClientHello handshake message''))))"

definition parse_server_hello :: "tls_parser \<Rightarrow> bytes \<Rightarrow> (Error + ServerHelloInfo) exec" where
  "parse_server_hello tp bs =
     (case parse_tls_message_handshake tp bs of
        Inl e \<Rightarrow> Some (Inl (Parse (''server hello: '' @ e)))
      | Inr (_, msg) \<Rightarrow>
          (case msg of
             TlsMessage.Handshake (TlsMessageHandshake.ServerHello sh) \<Rightarrow>
               map_option Inr (extract_server_hello tp sh)
           | _ \<Rightarrow> Some (Inl (Parse ''expected ServerHello handshake message''))))"

section \<open>Cursor readers\<close>

definition strip_handshake_header :: "bytes \<Rightarrow> u8 \<Rightarrow> (Error + bytes) exec" where
  "strip_handshake_header bs expected_type =
     (if length bs < 4 then Some (Inl (Parse ''handshake header truncated''))
      else do {
        b0 \<leftarrow> index bs 0;
        if b0 \<noteq> expected_type
        then Some (Inl (Parse (''unexpected handshake type: 0x'' @ hex2 b0
                              @ '' (want 0x'' @ hex2 expected_type @ '')'')))
        else do {
          b1 \<leftarrow> index bs 1;
          b2 \<leftarrow> index bs 2;
          b3 \<leftarrow> index bs 3;
          let len = unat (u32_from_be_bytes 0 b1 b2 b3);
          if length bs < 4 + len then Some (Inl (Parse ''handshake body truncated''))
          else map_option Inr (slice bs 4 (4 + len))
        }
      })"

definition read_u8 :: "bytes \<Rightarrow> (Error + u8 \<times> bytes) exec" where
  "read_u8 cursor =
     (case cursor of
        [] \<Rightarrow> Some (Inl (Parse ''truncated u8''))
      | first # rest \<Rightarrow> Some (Inr (first, rest)))"

definition read_u16 :: "bytes \<Rightarrow> (Error + u16 \<times> bytes) exec" where
  "read_u16 cursor =
     (if length cursor < 2 then Some (Inl (Parse ''truncated u16''))
      else do {
        out \<leftarrow> be16_at cursor 0 1;
        rest \<leftarrow> slice_from cursor 2;
        Some (Inr (out, rest))
      })"

definition read_array32 :: "bytes \<Rightarrow> (Error + bytes \<times> bytes) exec" where
  "read_array32 cursor =
     (if length cursor < 32 then Some (Inl (Parse ''truncated [u8; 32]''))
      else do {
        out \<leftarrow> slice cursor 0 32;
        rest \<leftarrow> slice_from cursor 32;
        Some (Inr (out, rest))
      })"

definition read_bytes :: "usize \<Rightarrow> bytes \<Rightarrow> (Error + bytes \<times> bytes) exec" where
  "read_bytes n cursor =
     (if length cursor < n then Some (Inl (Parse (''truncated '' @ dec n @ ''-byte slice'')))
      else Some (Inr (take n cursor, drop n cursor)))"

section \<open>The full decoders\<close>

function walk_extension_bodies :: "DecodedExtension list \<Rightarrow> bytes \<Rightarrow> DecodedExtension list exec" where
  "walk_extension_bodies out cursor =
     (if 4 \<le> length cursor then do {
        ext \<leftarrow> be16_at cursor 0 1;
        len \<leftarrow> be16_at cursor 2 3;
        let body_len = unat len;
        if length cursor < 4 + body_len then Some out
        else do {
          bdy \<leftarrow> slice cursor 4 (4 + body_len);
          decoded \<leftarrow> decode_extension ext bdy;
          rest \<leftarrow> slice_from cursor (4 + body_len);
          walk_extension_bodies (out @ [decoded]) rest
        }
      }
      else Some out)"
  by pat_completeness auto
termination
  by (relation "measure (\<lambda>(out, cursor). length cursor)") (auto simp: slice_from_Some)

declare walk_extension_bodies.simps [simp del]

text \<open>The known form of a suite code: \<open>None\<close> for \<open>CipherSuite::Other\<close>.\<close>

definition known_suite :: "u16 \<Rightarrow> u16 \<times> CipherSuite option" where
  "known_suite code =
     (code, (case CipherSuite_from_u16 code of CipherSuite.Other _ \<Rightarrow> None | other \<Rightarrow> Some other))"

definition decode_client_hello :: "bytes \<Rightarrow> (Error + DecodedClientHello) exec" where
  "decode_client_hello bs =
     ask (strip_handshake_header bs 1) (\<lambda>cursor.
     ask (read_u16 cursor) (\<lambda>(legacy_version, cursor).
     ask (read_array32 cursor) (\<lambda>(random, cursor).
     ask (read_u8 cursor) (\<lambda>(session_id_len, cursor).
     ask (read_bytes (unat session_id_len) cursor) (\<lambda>(session_id, cursor).
     ask (read_u16 cursor) (\<lambda>(cipher_suites_len, cursor).
     if unat cipher_suites_len mod 2 \<noteq> 0
     then Some (Inl (Parse ''client hello: odd cipher suites length''))
     else
     ask (read_bytes (unat cipher_suites_len) cursor) (\<lambda>(cipher_bytes, cursor).
     ask (read_u8 cursor) (\<lambda>(compression_len, cursor).
     ask (read_bytes (unat compression_len) cursor) (\<lambda>(compression_methods, cursor).
     ask (if cursor = [] then Some (Inr [])
          else ask (read_u16 cursor) (\<lambda>(ext_len, cursor).
               ask (read_bytes (unat ext_len) cursor) (\<lambda>(ext_bytes, cursor).
               map_option Inr (walk_extension_bodies [] ext_bytes)))) (\<lambda>extensions.
     Some (Inr \<lparr>ch_legacy_version = legacy_version, ch_random = random, ch_session_id = session_id,
                ch_cipher_suites = map known_suite (u16_chunks cipher_bytes),
                ch_compression_methods = compression_methods, ch_extensions = extensions\<rparr>)))))))))))"

definition decode_server_hello :: "bytes \<Rightarrow> (Error + DecodedServerHello) exec" where
  "decode_server_hello bs =
     ask (strip_handshake_header bs 2) (\<lambda>cursor.
     ask (read_u16 cursor) (\<lambda>(legacy_version, cursor).
     ask (read_array32 cursor) (\<lambda>(random, cursor).
     ask (read_u8 cursor) (\<lambda>(session_id_len, cursor).
     ask (read_bytes (unat session_id_len) cursor) (\<lambda>(session_id_echo, cursor).
     ask (read_u16 cursor) (\<lambda>(cipher_code, cursor).
     ask (read_u8 cursor) (\<lambda>(compression_method, cursor).
     ask (if cursor = [] then Some (Inr [])
          else ask (read_u16 cursor) (\<lambda>(ext_len, cursor).
               ask (read_bytes (unat ext_len) cursor) (\<lambda>(ext_bytes, cursor).
               map_option Inr (walk_extension_bodies [] ext_bytes)))) (\<lambda>extensions.
     Some (Inr \<lparr>sh_legacy_version = legacy_version, sh_random = random,
                sh_session_id_echo = session_id_echo, sh_cipher_suite = known_suite cipher_code,
                sh_compression_method = compression_method, sh_extensions = extensions\<rparr>)))))))))"

section \<open>The contract of the cursor readers\<close>

text \<open>
  A reader takes one value off the front of the cursor: on success the cursor was the value's
  wire form followed by the new cursor, on a wire form it succeeds, and it never panics.
\<close>

locale cursor_reader =
  fixes read :: "bytes \<Rightarrow> (Error + 'a \<times> bytes) exec"
    and enc :: "'a \<Rightarrow> bytes"
    and wf :: "'a \<Rightarrow> bool"
  assumes read_enc: "wf v \<Longrightarrow> read (enc v @ rest) = Some (Inr (v, rest))"
    and read_sound: "read c = Some (Inr (v, rest)) \<Longrightarrow> wf v \<and> c = enc v @ rest"
    and read_total: "\<exists>r. read c = Some r"
begin

lemma read_iff: "read c = Some (Inr (v, rest)) \<longleftrightarrow> wf v \<and> c = enc v @ rest"
  using read_enc read_sound by blast

lemma read_cases:
  obtains v rest where "read c = Some (Inr (v, rest))" and "c = enc v @ rest"
  | e where "read c = Some (Inl e)"
proof -
  obtain r where "read c = Some r" using read_total by blast
  then show thesis
  proof (cases r)
    case (Inr p)
    then obtain v rest where "p = (v, rest)" by force
    with Inr \<open>read c = Some r\<close> read_sound [of c v rest] that(1) show ?thesis by simp
  qed (use that(2) in simp)
qed

lemma ask_total:
  assumes "\<And>v rest. c = enc v @ rest \<Longrightarrow> \<exists>r. k (v, rest) = Some r"
  shows "\<exists>r. ask (read c) k = Some r"
proof (rule read_cases [of c])
  fix v rest
  assume r: "read c = Some (Inr (v, rest))" and c: "c = enc v @ rest"
  from assms [OF c] show ?thesis unfolding r ask_simps .
next
  fix e
  assume r: "read c = Some (Inl e)"
  show ?thesis unfolding r ask_simps by blast
qed

lemma enc_prefix_free:
  assumes "wf v" and "wf w" and e: "enc v @ r = enc w @ s"
  shows "v = w \<and> r = s"
proof -
  have "Some (Inr (v, r)) = Some (Inr (w, s))"
    using read_enc [OF assms(1), of r] unfolding e read_enc [OF assms(2), of s] by simp
  then show ?thesis by simp
qed

end

interpretation u8_reader: cursor_reader read_u8 "\<lambda>v. [v]" "\<lambda>_. True"
  by unfold_locales (auto simp: read_u8_def split: list.splits)

lemma two_bytes: "\<not> length (c :: 'x list) < 2 \<Longrightarrow> \<exists>a b rest. c = a # b # rest"
  by (cases c rule: remdups_adj.cases) auto

interpretation u16_reader: cursor_reader read_u16 u16_to_be_bytes "\<lambda>_. True"
proof unfold_locales
  fix v rest
  show "read_u16 (u16_to_be_bytes v @ rest) = Some (Inr (v, rest))"
    by (simp add: read_u16_def u16_to_be_bytes_def u16_be_roundtrip)
next
  fix c v rest
  assume "read_u16 c = Some (Inr (v, rest))"
  moreover obtain a b t where "c = a # b # t"
    using calculation two_bytes [of c] by (auto simp: read_u16_def split: if_splits)
  ultimately show "True \<and> c = u16_to_be_bytes v @ rest"
    by (auto simp: read_u16_def u16_be_bytes_inverse)
next
  fix c
  show "\<exists>r. read_u16 c = Some r"
    by (simp add: read_u16_def del: length_greater_0_conv)
qed

interpretation array32_reader: cursor_reader read_array32 id "\<lambda>v. length v = 32"
  by unfold_locales (auto simp: read_array32_def split: if_splits)

interpretation bytes_reader: cursor_reader "read_bytes n" id "\<lambda>v. length v = n" for n
  by unfold_locales (auto simp: read_bytes_def split: if_splits)

section \<open>No decoder panics\<close>

lemma walk_extension_bodies_total: "\<exists>r. walk_extension_bodies out cursor = Some r"
proof (induction cursor arbitrary: out rule: length_induct)
  case (1 cursor)
  have IH: "\<exists>r. walk_extension_bodies out (drop (4 + n) cursor) = Some r" if "4 \<le> length cursor" for n out
    using 1 that by (metis add_gr_0 diff_less length_drop less_le_trans zero_less_numeral)
  have dec: "\<exists>d. decode_extension e b = Some d" for e b
    using decode_extension_total by blast
  show ?case
  proof (cases "4 \<le> length cursor \<and>
      4 + unat (u16_from_be_bytes (cursor ! 2) (cursor ! 3)) \<le> length cursor")
    case True
    let ?n = "unat (u16_from_be_bytes (cursor ! 2) (cursor ! 3))"
    obtain d where "decode_extension (u16_from_be_bytes (cursor ! 0) (cursor ! 1))
        (take ?n (drop 4 cursor)) = Some d"
      using dec by blast
    with True IH [of "out @ [d]" ?n] show ?thesis
      by (subst walk_extension_bodies.simps) (simp add: Let_def del: length_greater_0_conv)
  next
    case False
    then show ?thesis
      by (subst walk_extension_bodies.simps) (auto simp: Let_def simp del: length_greater_0_conv)
  qed
qed

lemma strip_handshake_header_total: "\<exists>r. strip_handshake_header bs t = Some r"
  by (simp add: strip_handshake_header_def Let_def del: length_greater_0_conv)

lemma ask_strip_total:
  "(\<And>c. \<exists>r. k c = Some r) \<Longrightarrow> \<exists>r. ask (strip_handshake_header bs t) k = Some r"
  using strip_handshake_header_total [of bs t] by (auto simp: ask_def split: sum.splits)

text \<open>The reader of the extension block that both decoders have inline.\<close>

definition extension_reader :: "bytes \<Rightarrow> (Error + DecodedExtension list) exec" where
  "extension_reader c =
     (if c = [] then Some (Inr [])
      else ask (read_u16 c) (\<lambda>(ext_len, c).
           ask (read_bytes (unat ext_len) c) (\<lambda>(ext_bytes, c).
           map_option Inr (walk_extension_bodies [] ext_bytes))))"

lemma extension_reader_total: "\<exists>r. extension_reader c = Some r"
  by (auto intro!: u16_reader.ask_total bytes_reader.ask_total
      simp: extension_reader_def walk_extension_bodies_total)

lemma ask_exts_total: "(\<And>x. \<exists>r. k x = Some r) \<Longrightarrow> \<exists>r. ask (extension_reader c) k = Some r"
  using extension_reader_total [of c] by (auto simp: ask_def split: sum.splits)

lemma decode_client_hello_total: "\<exists>r. decode_client_hello bs = Some r"
  unfolding decode_client_hello_def extension_reader_def [symmetric]
  by (auto intro!: ask_strip_total u16_reader.ask_total array32_reader.ask_total
      u8_reader.ask_total bytes_reader.ask_total ask_exts_total)

lemma decode_server_hello_total: "\<exists>r. decode_server_hello bs = Some r"
  unfolding decode_server_hello_def extension_reader_def [symmetric]
  by (auto intro!: ask_strip_total u16_reader.ask_total array32_reader.ask_total
      u8_reader.ask_total bytes_reader.ask_total ask_exts_total)

section \<open>The extractors return\<close>

lemma first_key_share_group_total: "\<exists>g. first_key_share_group bs = Some g"
  by (simp add: first_key_share_group_def Let_def del: length_greater_0_conv)

lemma apply_client_extension_total: "\<exists>i. apply_client_extension info e = Some i"
proof (cases e)
  case (KeyShare bs)
  then show ?thesis using first_key_share_group_total [of bs] by auto
qed (auto split: list.splits)

lemma apply_server_extension_total: "\<exists>i. apply_server_extension info e = Some i"
proof (cases e)
  case (KeyShare bs)
  then show ?thesis using first_key_share_group_total [of bs] by auto
qed (auto split: list.splits)

lemma walk_extensions_returns:
  assumes tp: "consuming tp" and visit: "\<And>s e. \<exists>s'. visit s e = Some s'"
  shows "\<exists>r. walk_extensions tp visit s bs = Some r"
proof (induction bs arbitrary: s rule: length_induct)
  case (1 bs)
  show ?case
  proof (cases "parse_tls_extension tp bs")
    case (Inr p)
    obtain rest e where p: "p = (rest, e)" by force
    have "length rest < length bs"
      using tp Inr unfolding p consuming_def by blast
    moreover obtain s' where "visit s e = Some s'"
      using visit by blast
    ultimately show ?thesis
      using 1 Inr by (subst walk_extensions.simps) (auto simp: p)
  qed (subst walk_extensions.simps, simp)
qed

lemma extract_client_hello_total: "consuming tp \<Longrightarrow> \<exists>i. extract_client_hello tp ch = Some i"
  by (auto simp: extract_client_hello_def Let_def split: option.splits
      intro: walk_extensions_returns apply_client_extension_total)

lemma extract_server_hello_total: "consuming tp \<Longrightarrow> \<exists>i. extract_server_hello tp sh = Some i"
  by (auto simp: extract_server_hello_def Let_def split: option.splits
      intro: walk_extensions_returns apply_server_extension_total)

section \<open>The wire form of the messages\<close>

definition enc_header :: "u8 \<Rightarrow> bytes \<Rightarrow> bytes" where
  "enc_header t bdy =
     t # word_of_nat (length bdy div 65536) # word_of_nat (length bdy div 256 mod 256)
       # word_of_nat (length bdy mod 256) # bdy"

definition enc_extension :: "DecodedExtension \<Rightarrow> bytes" where
  "enc_extension e = u16_to_be_bytes (ext_type e) @ prefix16 (ext_raw e)"

text \<open>An extension as the decoder can produce it.\<close>

definition wf_extension :: "DecodedExtension \<Rightarrow> bool" where
  "wf_extension e \<longleftrightarrow>
     length (ext_raw e) < 65536 \<and> decode_extension (ext_type e) (ext_raw e) = Some e"

definition enc_extensions :: "DecodedExtension list \<Rightarrow> bytes" where
  "enc_extensions es = (if es = [] then [] else prefix16 (concat (map enc_extension es)))"

definition wf_extensions :: "DecodedExtension list \<Rightarrow> bool" where
  "wf_extensions es \<longleftrightarrow> list_all wf_extension es \<and> length (concat (map enc_extension es)) < 65536"

definition client_hello_fields :: "DecodedClientHello \<Rightarrow> bytes" where
  "client_hello_fields ch =
     u16_to_be_bytes (ch_legacy_version ch) @ ch_random ch @ prefix8 (ch_session_id ch)
     @ prefix16 (concat (map (u16_to_be_bytes \<circ> fst) (ch_cipher_suites ch)))
     @ prefix8 (ch_compression_methods ch)"

definition wf_client_hello_fields :: "DecodedClientHello \<Rightarrow> bool" where
  "wf_client_hello_fields ch \<longleftrightarrow>
     length (ch_random ch) = 32 \<and> length (ch_session_id ch) < 256
     \<and> 2 * length (ch_cipher_suites ch) < 65536
     \<and> list_all (\<lambda>s. s = known_suite (fst s)) (ch_cipher_suites ch)
     \<and> length (ch_compression_methods ch) < 256"

definition encode_client_hello :: "DecodedClientHello \<Rightarrow> bytes" where
  "encode_client_hello ch =
     enc_header 1 (client_hello_fields ch @ enc_extensions (ch_extensions ch))"

definition server_hello_fields :: "DecodedServerHello \<Rightarrow> bytes" where
  "server_hello_fields sh =
     u16_to_be_bytes (sh_legacy_version sh) @ sh_random sh @ prefix8 (sh_session_id_echo sh)
     @ u16_to_be_bytes (fst (sh_cipher_suite sh)) @ [sh_compression_method sh]"

definition wf_server_hello_fields :: "DecodedServerHello \<Rightarrow> bool" where
  "wf_server_hello_fields sh \<longleftrightarrow>
     length (sh_random sh) = 32 \<and> length (sh_session_id_echo sh) < 256
     \<and> sh_cipher_suite sh = known_suite (fst (sh_cipher_suite sh))"

definition encode_server_hello :: "DecodedServerHello \<Rightarrow> bytes" where
  "encode_server_hello sh =
     enc_header 2 (server_hello_fields sh @ enc_extensions (sh_extensions sh))"

lemma strip_encoded:
  assumes "length bdy < 16777216"
  shows "strip_handshake_header (enc_header t bdy @ rest) t = Some (Inr bdy)"
proof -
  let ?n = "length bdy"
  have b: "unat (word_of_nat (?n div 65536) :: u8) = ?n div 65536"
    "unat (word_of_nat (?n div 256 mod 256) :: u8) = ?n div 256 mod 256"
    "unat (word_of_nat (?n mod 256) :: u8) = ?n mod 256"
    using assms by (auto intro!: unat_of_nat_u8)
  have "unat (u32_from_be_bytes 0 (word_of_nat (?n div 65536)) (word_of_nat (?n div 256 mod 256))
      (word_of_nat (?n mod 256))) = ?n"
    using nat_base_256 [of ?n] assms unfolding unat_u32_from_be_bytes b by simp
  then show ?thesis
    by (simp add: strip_handshake_header_def enc_header_def Let_def del: length_greater_0_conv)
qed

lemma base_256_digits:
  fixes b c d :: nat
  assumes "c < 256" and "d < 256"
  shows "(65536 * b + 256 * c + d) div 65536 = b"
    and "(65536 * b + 256 * c + d) div 256 mod 256 = c"
    and "(65536 * b + 256 * c + d) mod 256 = d"
proof -
  have q: "(65536 * b + 256 * c + d) div 256 = 256 * b + c"
    using assms(2) by simp
  show "(65536 * b + 256 * c + d) div 256 mod 256 = c"
    unfolding q using assms(1) by simp
  have "(65536 * b + 256 * c + d) div 65536 = (65536 * b + 256 * c + d) div 256 div 256"
    by (simp add: div_mult2_eq [symmetric])
  also have "\<dots> = b"
    unfolding q using assms(1) by simp
  finally show "(65536 * b + 256 * c + d) div 65536 = b" .
  have "65536 * b + 256 * c + d = d + 256 * (256 * b + c)"
    by simp
  then show "(65536 * b + 256 * c + d) mod 256 = d"
    using assms(2) by (metis mod_less mod_mult_self2)
qed

lemma strip_sound:
  assumes "strip_handshake_header bs t = Some (Inr bdy)"
  shows "\<exists>rest. bs = enc_header t bdy @ rest"
proof -
  obtain a b c d r where bs: "bs = a # b # c # d # r"
    using assms by (cases bs rule: u16_chunks.cases; cases "tl (tl bs)" rule: u16_chunks.cases)
      (auto simp: strip_handshake_header_def)
  let ?n = "unat (u32_from_be_bytes 0 b c d)"
  have n: "?n = 65536 * unat b + 256 * unat c + unat d"
    by (simp add: unat_u32_from_be_bytes)
  have a: "a = t" and bdy: "bdy = take ?n r" and le: "?n \<le> length r"
    using assms by (auto simp: bs strip_handshake_header_def Let_def split: if_splits)
  have "?n div 65536 = unat b" "?n div 256 mod 256 = unat c" "?n mod 256 = unat d"
    unfolding n using base_256_digits [OF unat_u8_less unat_u8_less] by blast+
  then have "bs = enc_header t bdy @ drop ?n r"
    using le by (simp add: bs a bdy enc_header_def)
  then show ?thesis ..
qed

lemma walk_extension_step:
  "walk_extension_bodies out (a # b # c # d # r) =
     (let n = unat (u16_from_be_bytes c d) in
      if length r < n then Some out
      else Option.bind (decode_extension (u16_from_be_bytes a b) (take n r))
             (\<lambda>e. walk_extension_bodies (out @ [e]) (drop n r)))"
proof -
  obtain e where "decode_extension (u16_from_be_bytes a b)
      (take (unat (u16_from_be_bytes c d)) r) = Some e"
    using decode_extension_total by blast
  moreover have "drop (4 + n) (a # b # c # d # r) = drop n r" for n
    by (simp add: eval_nat_numeral)
  ultimately show ?thesis
    by (subst walk_extension_bodies.simps) (simp add: be16_at_def Let_def slice_from_def)
qed

lemma walk_extension_short: "length cursor < 4 \<Longrightarrow> walk_extension_bodies out cursor = Some out"
  by (subst walk_extension_bodies.simps) simp

interpretation extension_bodies: full_entry_loop walk_extension_bodies enc_extension wf_extension Some
proof unfold_locales
  fix e out rest
  assume wf: "wf_extension e"
  obtain a b where ab: "u16_to_be_bytes (ext_type e) = [a, b]" "u16_from_be_bytes a b = ext_type e"
    by (rule u16_bytes)
  obtain h l where hl: "prefix16 (ext_raw e) = h # l # ext_raw e"
    "unat (u16_from_be_bytes h l) = length (ext_raw e)"
    using wf prefix16_bytes [of "ext_raw e"] unfolding wf_extension_def by blast
  show "walk_extension_bodies out (enc_extension e @ rest) = walk_extension_bodies (out @ [e]) rest"
    using wf by (simp add: enc_extension_def ab hl walk_extension_step wf_extension_def Let_def)
qed (simp add: walk_extension_short)

lemma four_bytes: "\<not> length (bs :: 'x list) < 4 \<Longrightarrow> \<exists>a b c d r. bs = a # b # c # d # r"
  by (cases bs rule: remdups_adj.cases; cases "tl (tl bs)" rule: remdups_adj.cases) auto

text \<open>A rest that does not begin with a whole extension, and the loop over the extensions as a
  relation: the whole extensions at the front, up to such a rest.\<close>

definition cut_short :: "bytes \<Rightarrow> bool" where
  "cut_short bs \<longleftrightarrow> (\<nexists>e rest. length (ext_raw e) < 65536 \<and> bs = enc_extension e @ rest)"

lemma cut_short_short: "length bs < 4 \<Longrightarrow> cut_short bs"
  by (auto simp: cut_short_def enc_extension_def prefix16_def)

lemma cut_short_Cons: "cut_short (a # b # c # d # r) \<longleftrightarrow> length r < unat (u16_from_be_bytes c d)"
proof -
  let ?n = "unat (u16_from_be_bytes c d)"
  have "length (ext_raw e) = ?n \<and> ?n \<le> length r"
    if "length (ext_raw e) < 65536" "a # b # c # d # r = enc_extension e @ rest" for e rest
  proof -
    note e = that
    obtain h l where "prefix16 (ext_raw e) = h # l # ext_raw e"
      "unat (u16_from_be_bytes h l) = length (ext_raw e)"
      using prefix16_bytes [OF e(1)] by blast
    with e(2) show ?thesis
      by (simp add: enc_extension_def u16_to_be_bytes_def)
  qed
  moreover have "\<exists>e rest. length (ext_raw e) < 65536 \<and> a # b # c # d # r = enc_extension e @ rest"
    if "?n \<le> length r"
  proof -
    let ?e = "\<lparr>ext_type = u16_from_be_bytes a b, ext_name = [], ext_raw = take ?n r, ext_body = Opaque\<rparr>"
    have len: "length (ext_raw ?e) = ?n" using that by simp
    have "prefix16 (ext_raw ?e) = c # d # ext_raw ?e"
      unfolding prefix16_def len16_def len by (simp add: u16_be_bytes_inverse)
    then have "a # b # c # d # r = enc_extension ?e @ drop ?n r"
      by (simp add: enc_extension_def u16_be_bytes_inverse)
    moreover have "length (ext_raw ?e) < 65536" unfolding len by (rule unat_u16_less)
    ultimately show ?thesis by blast
  qed
  ultimately show ?thesis unfolding cut_short_def by (metis not_le)
qed

lemma walk_cut_short: "cut_short bs \<Longrightarrow> walk_extension_bodies out bs = Some out"
proof (cases "length bs < 4")
  case False
  then obtain a b c d r where "bs = a # b # c # d # r" using four_bytes by blast
  moreover assume "cut_short bs"
  ultimately show ?thesis by (simp add: cut_short_Cons walk_extension_step)
qed (simp add: walk_extension_short)

lemma walk_extension_exact:
  "walk_extension_bodies out cursor = Some es \<longleftrightarrow>
     (\<exists>new tail. es = out @ new \<and> cursor = concat (map enc_extension new) @ tail
       \<and> list_all wf_extension new \<and> cut_short tail)" (is "?walk out cursor \<longleftrightarrow> ?spec out cursor")
proof
  assume "?spec out cursor"
  then show "?walk out cursor"
    using extension_bodies.walk_entries walk_cut_short by auto
next
  show "?walk out cursor \<Longrightarrow> ?spec out cursor"
  proof (induction cursor arbitrary: out rule: length_induct)
    case (1 cursor)
    show ?case
    proof (cases "cut_short cursor")
      case True
      with 1(2) walk_cut_short [OF True] show ?thesis
        by (intro exI [of _ "[]"] exI [of _ cursor]) simp
    next
      case False
      then obtain e rest where cur: "cursor = enc_extension e @ rest" and len: "length (ext_raw e) < 65536"
        unfolding cut_short_def by blast
      obtain e' where e': "decode_extension (ext_type e) (ext_raw e) = Some e'"
        "ext_type e' = ext_type e" "ext_raw e' = ext_raw e"
        using decode_extension_total by blast
      have wf: "wf_extension e'" using e' len by (simp add: wf_extension_def)
      have enc: "cursor = enc_extension e' @ rest" by (simp add: cur enc_extension_def e')
      have "walk_extension_bodies (out @ [e']) rest = Some es"
        using 1(2) extension_bodies.walk_entry [OF wf] by (simp add: enc)
      moreover have "length rest < length cursor" by (simp add: cur enc_extension_def)
      ultimately obtain new tail where "es = (out @ [e']) @ new" "rest = concat (map enc_extension new) @ tail"
        "list_all wf_extension new" "cut_short tail" using 1(1) by blast
      with enc wf show ?thesis by (intro exI [of _ "e' # new"] exI [of _ tail]) simp
    qed
  qed
qed

section \<open>Reading a message back\<close>

lemma ask_Inr_iff: "ask m k = Some (Inr y) \<longleftrightarrow> (\<exists>x. m = Some (Inr x) \<and> k x = Some (Inr y))"
  by (auto simp: ask_def split: option.splits sum.splits)

lemma read_u8_Cons: "read_u8 (b # c) = Some (Inr (b, c))"
  by (simp add: read_u8_def)

lemma read_u16_enc: "read_u16 (u16_to_be_bytes v @ c) = Some (Inr (v, c))"
  by (rule u16_reader.read_enc) simp

lemma read_u16_prefix: "read_u16 (prefix16 v @ c) = Some (Inr (word_of_nat (length v), v @ c))"
  unfolding prefix16_def len16_def append_assoc by (rule read_u16_enc)

lemma read_u8_prefix: "read_u8 (prefix8 v @ c) = Some (Inr (word_of_nat (length v), v @ c))"
  by (simp add: prefix8_def read_u8_def)

lemma read_array32_enc: "length v = 32 \<Longrightarrow> read_array32 (v @ c) = Some (Inr (v, c))"
  using array32_reader.read_enc by simp

lemma read_bytes_enc: "length v = n \<Longrightarrow> read_bytes n (v @ c) = Some (Inr (v, c))"
  using bytes_reader.read_enc by simp

lemmas read_back = read_u8_Cons read_u16_enc read_u16_prefix read_u8_prefix read_array32_enc
  read_bytes_enc unat_of_nat_u8 unat_of_nat_u16

lemma suites_of_bytes:
  assumes "list_all (\<lambda>s. s = known_suite (fst s)) ss"
  shows "map known_suite (u16_chunks (concat (map (u16_to_be_bytes \<circ> fst) ss))) = ss"
proof -
  have "u16_chunks (concat (map (u16_to_be_bytes \<circ> fst) ss)) = map fst ss"
    using u16_chunks_encode [of "map fst ss"] by simp
  with assms show ?thesis
    by (simp add: list_all_iff comp_def map_idI)
qed

lemma length_suite_bytes: "length (concat (map (u16_to_be_bytes \<circ> fst) ss)) = 2 * length ss"
  by (induction ss) auto

lemma length_enc_extensions: "wf_extensions es \<Longrightarrow> length (enc_extensions es) < 65538"
  by (simp add: wf_extensions_def enc_extensions_def prefix16_def)

lemma length_client_hello_fields:
  "wf_client_hello_fields ch \<Longrightarrow> length (client_hello_fields ch) < 70000"
  by (simp add: wf_client_hello_fields_def client_hello_fields_def prefix16_def prefix8_def
      length_suite_bytes)

lemma length_server_hello_fields:
  "wf_server_hello_fields sh \<Longrightarrow> length (server_hello_fields sh) < 300"
  by (simp add: wf_server_hello_fields_def server_hello_fields_def prefix8_def)

lemma prefix8_of: "length v = unat b \<Longrightarrow> prefix8 v = b # v"
  by (simp add: prefix8_def)

lemma prefix16_of: "length v = unat w \<Longrightarrow> prefix16 v = u16_to_be_bytes w @ v"
  by (simp add: prefix16_def len16_def)

lemma bytes_of_suites:
  assumes "unat (w :: u16) mod 2 = 0" and "length cb = unat w"
  shows "prefix16 (concat (map (u16_to_be_bytes \<circ> fst) (map known_suite (u16_chunks cb))))
      = u16_to_be_bytes w @ cb"
    and "2 * length (u16_chunks cb) < 65536"
    and "list_all (\<lambda>s. s = known_suite (fst s)) (map known_suite (u16_chunks cb))"
proof -
  have e: "even (length cb)" using assms by presburger
  have c: "(u16_to_be_bytes \<circ> fst) \<circ> known_suite = u16_to_be_bytes"
    by (simp add: fun_eq_iff known_suite_def)
  have "concat (map (u16_to_be_bytes \<circ> fst) (map known_suite (u16_chunks cb))) = cb"
    unfolding map_map c by (rule encode_u16_chunks [OF e])
  with prefix16_of [OF assms(2)] show "prefix16 (concat (map (u16_to_be_bytes \<circ> fst)
      (map known_suite (u16_chunks cb)))) = u16_to_be_bytes w @ cb" by (simp only:)
  show "2 * length (u16_chunks cb) < 65536"
    using unat_u16_less [of w] unfolding length_u16_chunks assms(2) by linarith
  show "list_all (\<lambda>s. s = known_suite (fst s)) (map known_suite (u16_chunks cb))"
    by (simp add: list_all_iff known_suite_def)
qed

text \<open>The extension block after the fixed fields: absent, or a length prefix and whole
  extensions, then a rest that does not begin with a whole one, then what the length prefix
  leaves out.\<close>

definition extension_block :: "bytes \<Rightarrow> DecodedExtension list \<Rightarrow> bool" where
  "extension_block bs es \<longleftrightarrow>
     list_all wf_extension es
     \<and> (bs = [] \<and> es = []
        \<or> (\<exists>part pad. bs = prefix16 (concat (map enc_extension es) @ part) @ pad \<and> cut_short part
             \<and> length (concat (map enc_extension es) @ part) < 65536))"

lemma read_extensions_iff: "extension_reader c = Some (Inr es) \<longleftrightarrow> extension_block c es"
proof (cases "c = []")
  case True
  then show ?thesis
    by (auto simp: extension_block_def extension_reader_def prefix16_def len16_def u16_to_be_bytes_def)
next
  case False
  then have "extension_reader c = Some (Inr es) \<longleftrightarrow>
      (\<exists>w eb pad. c = u16_to_be_bytes w @ eb @ pad \<and> length eb = unat w
         \<and> walk_extension_bodies [] eb = Some es)"
    by (auto simp: extension_reader_def ask_Inr_iff u16_reader.read_iff bytes_reader.read_iff)
  also have "\<dots> \<longleftrightarrow> (\<exists>eb pad. c = prefix16 eb @ pad \<and> length eb < 65536
         \<and> walk_extension_bodies [] eb = Some es)"
  proof (intro iffI; elim exE conjE)
    fix w eb pad
    assume "c = u16_to_be_bytes w @ eb @ pad" and len: "length eb = unat w"
      and "walk_extension_bodies [] eb = Some es"
    then show "\<exists>eb pad. c = prefix16 eb @ pad \<and> length eb < 65536 \<and> walk_extension_bodies [] eb = Some es"
      using prefix16_of [OF len] unat_u16_less [of w] by (intro exI [of _ eb] exI [of _ pad]) simp
  next
    fix eb pad
    assume "c = prefix16 eb @ pad" and "length eb < 65536" and "walk_extension_bodies [] eb = Some es"
    then show "\<exists>w eb pad. c = u16_to_be_bytes w @ eb @ pad \<and> length eb = unat w
        \<and> walk_extension_bodies [] eb = Some es"
      by (intro exI [of _ "word_of_nat (length eb)"] exI [of _ eb] exI [of _ pad])
         (simp add: prefix16_def len16_def unat_of_nat_u16)
  qed
  finally show ?thesis
    using False unfolding extension_block_def walk_extension_exact by auto
qed

lemma strip_iff:
  "strip_handshake_header bs t = Some (Inr bdy) \<longleftrightarrow>
     length bdy < 16777216 \<and> (\<exists>rest. bs = enc_header t bdy @ rest)"
proof
  assume run: "strip_handshake_header bs t = Some (Inr bdy)"
  have "unat (u32_from_be_bytes 0 b c d) < 16777216" for b c d
    using unat_u8_less [of b] unat_u8_less [of c] unat_u8_less [of d]
    unfolding unat_u32_from_be_bytes unsigned_0 by linarith
  then have "length bdy < 16777216"
    using run by (auto simp: strip_handshake_header_def Let_def slice_def bind_eq_Some_conv split: if_splits)
  with strip_sound [OF run] show "length bdy < 16777216 \<and> (\<exists>rest. bs = enc_header t bdy @ rest)" by simp
qed (use strip_encoded in blast)

lemma block_of_encoded: "wf_extensions es \<Longrightarrow> extension_block (enc_extensions es) es"
  using cut_short_short [of "[]"]
  by (auto simp: wf_extensions_def enc_extensions_def extension_block_def intro!: exI [of _ "[]"])

lemma decode_laid_out:
  assumes wf: "wf_client_hello_fields ch" and ext: "extension_block exts (ch_extensions ch)"
    and len: "length (client_hello_fields ch @ exts) < 16777216"
  shows "decode_client_hello (enc_header 1 (client_hello_fields ch @ exts) @ rest) = Some (Inr ch)"
proof -
  have "strip_handshake_header (enc_header 1 (client_hello_fields ch @ exts) @ rest) 1
      = Some (Inr (client_hello_fields ch @ exts))"
    using len by (rule strip_encoded)
  moreover define sb where "sb = concat (map (u16_to_be_bytes \<circ> fst) (ch_cipher_suites ch))"
  moreover have "length sb < 65536" "length sb mod 2 = 0"
      "map known_suite (u16_chunks sb) = ch_cipher_suites ch"
    using wf unfolding sb_def length_suite_bytes
    by (simp_all add: wf_client_hello_fields_def suites_of_bytes)
  moreover have "extension_reader exts = Some (Inr (ch_extensions ch))"
    using ext by (simp add: read_extensions_iff)
  ultimately show ?thesis
    using wf by (simp add: decode_client_hello_def extension_reader_def [symmetric] client_hello_fields_def
        wf_client_hello_fields_def read_back del: length_concat)
qed

lemma decode_encoded_client_hello:
  assumes "wf_client_hello_fields ch" and "wf_extensions (ch_extensions ch)"
  shows "decode_client_hello (encode_client_hello ch @ rest) = Some (Inr ch)"
  unfolding encode_client_hello_def
  using decode_laid_out [OF assms(1) block_of_encoded [OF assms(2)]] length_client_hello_fields [OF assms(1)]
    length_enc_extensions [OF assms(2)] by simp

lemma decode_encoded_server_hello:
  assumes "wf_server_hello_fields sh" and "wf_extensions (sh_extensions sh)"
  shows "decode_server_hello (encode_server_hello sh @ rest) = Some (Inr sh)"
proof -
  let ?bdy = "server_hello_fields sh @ enc_extensions (sh_extensions sh)"
  have "strip_handshake_header (encode_server_hello sh @ rest) 2 = Some (Inr ?bdy)"
    unfolding encode_server_hello_def
    using length_server_hello_fields [OF assms(1)] length_enc_extensions [OF assms(2)]
    by (intro strip_encoded) simp
  with assms(1) show ?thesis
    by (simp add: decode_server_hello_def extension_reader_def [symmetric] server_hello_fields_def wf_server_hello_fields_def
        read_back read_extensions_iff [THEN iffD2, OF block_of_encoded [OF assms(2)]])
qed

section \<open>Version choice and key share heads\<close>

lemma foldl_max:
  "foldl (\<lambda>m y. if k y < k m then m else y) x xs \<in> set (x # xs)
   \<and> (\<forall>y\<in>set (x # xs). k y \<le> (k (foldl (\<lambda>m y. if k y < k m then m else y) x xs) :: nat))"
proof (induction xs arbitrary: x)
  case (Cons y ys)
  let ?m = "if k y < k x then x else y"
  have "k x \<le> k ?m" "k y \<le> k ?m" "?m \<in> {x, y}" by auto
  with Cons [of ?m] show ?case by auto
qed simp

lemma max_by_key_Some:
  assumes "max_by_key k xs = Some m"
  shows "m \<in> set xs" and "x \<in> set xs \<Longrightarrow> k x \<le> k m"
  using assms foldl_max [of k] by (cases xs; auto)+

lemma max_by_key_None [simp]: "max_by_key k xs = None \<longleftrightarrow> xs = []"
  by (cases xs) simp_all

lemma parse_key_share_step:
  "parse_key_share_entries out (a # b # c # d # r) =
     (let n = unat (u16_from_be_bytes c d) in
      if length r < n then Some None
      else parse_key_share_entries (out @ [\<lparr>ks_group = NamedGroup_from_u16 (u16_from_be_bytes a b),
             group_code = u16_from_be_bytes a b, key_exchange = take n r\<rparr>]) (drop n r))"
proof -
  have "drop (4 + n) (a # b # c # d # r) = drop n r" for n
    by (simp add: eval_nat_numeral)
  then show ?thesis
    by (subst parse_key_share_entries.simps) (simp add: be16_at_def Let_def slice_from_def)
qed

lemma parse_key_share_sound:
  "parse_key_share_entries out cursor = Some (Some es) \<Longrightarrow>
     \<exists>new. es = out @ new \<and> cursor = concat (map enc_key_share new) \<and> list_all wf_key_share new"
proof (induction cursor arbitrary: out rule: length_induct)
  case (1 cursor)
  show ?case
  proof (cases "length cursor < 4")
    case True
    with 1(2) show ?thesis
      by (intro exI [of _ "[]"]) (simp add: parse_key_share_entries.simps split: if_splits)
  next
    case False
    then obtain a b c d r where cur: "cursor = a # b # c # d # r"
      using four_bytes by blast
    let ?n = "unat (u16_from_be_bytes c d)" and ?g = "u16_from_be_bytes a b"
    let ?e = "\<lparr>ks_group = NamedGroup_from_u16 ?g, group_code = ?g, key_exchange = take ?n r\<rparr>"
    have le: "?n \<le> length r" and rec: "parse_key_share_entries (out @ [?e]) (drop ?n r) = Some (Some es)"
      using 1(2) by (simp_all add: cur parse_key_share_step Let_def split: if_splits)
    have "length (drop ?n r) < length cursor" by (simp add: cur)
    from 1(1) [rule_format, OF this rec]
    obtain new where IH: "es = (out @ [?e]) @ new" "drop ?n r = concat (map enc_key_share new)"
      "list_all wf_key_share new" by blast
    have len: "length (key_exchange ?e) = ?n" using le by simp
    have wf: "wf_key_share ?e" using le by (simp add: wf_key_share_def)
    have "enc_key_share ?e = a # b # c # d # take ?n r"
      unfolding enc_key_share_def len16_def len by (simp add: u16_be_bytes_inverse)
    then have "cursor = enc_key_share ?e @ drop ?n r" by (simp add: cur)
    with IH wf show ?thesis by (intro exI [of _ "?e # new"]) simp
  qed
qed

lemma be16_at_key_share:
  "wf_key_share e \<Longrightarrow> be16_at (enc_key_share e @ r) 0 1 = Some (group_code e)"
  by (rule u16_bytes [of "group_code e"]) (simp add: enc_key_share_def be16_at_def)

lemma key_share_heads_agree:
  assumes "decode_key_share bs = Some (Some (e # es))"
  shows "first_key_share_group bs = Some (Some (ks_group e))"
proof -
  have head: "c = enc_key_share e @ concat (map enc_key_share es) \<and> wf_key_share e"
    if "parse_key_share_entries [] c = Some (Some (e # es))" for c
    using parse_key_share_sound [OF that] by auto
  have long: "4 \<le> length (enc_key_share e @ r)" for r
    by (simp add: enc_key_share_def)
  show ?thesis
  proof (cases "4 \<le> length bs \<and> (\<exists>len. be16_at bs 0 1 = Some len \<and> length bs = 2 + unat len)")
    case True
    then obtain len where len: "be16_at bs 0 1 = Some len" and n: "length bs = 2 + unat len"
      by blast
    obtain h l r where bs: "bs = h # l # r"
      using True two_bytes [of bs] by auto
    with assms True have r: "parse_key_share_entries [] r = Some (Some (e # es))"
      by (simp add: decode_key_share_def)
    note rr = head [OF r, THEN conjunct1] and wf = head [OF r, THEN conjunct2]
    have g: "be16_at r 0 1 = Some (group_code e)"
      by (subst rr) (rule be16_at_key_share [OF wf])
    have "be16_at bs 2 3 = be16_at r 0 1"
      by (simp add: bs be16_at_def index_def)
    moreover have "\<not> length bs < 4" "unat len + 2 = length bs \<and> 4 \<le> length bs"
      using True n by simp_all
    ultimately show ?thesis
      using wf unfolding first_key_share_group_def
      by (simp only: if_False if_True len g bind.bind_lunit Let_def wf_key_share_def simp_thms)
  next
    case False
    then have c: "parse_key_share_entries [] bs = Some (Some (e # es))"
      using assms by (cases "be16_at bs 0 1") (auto simp: decode_key_share_def split: if_splits)
    note bb = head [OF c, THEN conjunct1] and wf = head [OF c, THEN conjunct2]
    have g: "be16_at bs 0 1 = Some (group_code e)"
      by (subst bb) (rule be16_at_key_share [OF wf])
    have "4 \<le> length bs"
      by (subst bb) (rule long)
    with wf g False show ?thesis
      by (auto simp: first_key_share_group_def wf_key_share_def)
  qed
qed

section \<open>An instance of the crate's interface\<close>

text \<open>
  A parser that meets \<open>consuming\<close>: it splits off whole messages and extensions by their length
  prefix and reads them with the program's own decoders. It shows that the hypotheses on the
  crate can hold; nothing else depends on it.
\<close>

definition sample_extension :: "bytes \<Rightarrow> string + bytes \<times> TlsExtension" where
  "sample_extension bs =
     (if length bs < 4 then Inl ''Incomplete''
      else let n = unat (u16_from_be_bytes (bs ! 2) (bs ! 3)); bdy = take n (drop 4 bs) in
        if length bs < 4 + n then Inl ''Incomplete''
        else Inr (drop (4 + n) bs,
          (case decode_extension (u16_from_be_bytes (bs ! 0) (bs ! 1)) bdy of
             Some e \<Rightarrow> (case ext_body e of
                 ServerName ns \<Rightarrow> SNI (map (\<lambda>n. (name_type n, sn_name n)) ns)
               | Alpn ps \<Rightarrow> ALPN ps
               | SupportedGroups gs \<Rightarrow> EllipticCurves (map NamedGroup_to_u16 gs)
               | ExtensionBody.SupportedVersions vs \<Rightarrow> TlsExtension.SupportedVersions vs
               | ExtensionBody.KeyShare _ \<Rightarrow> TlsExtension.KeyShare bdy
               | _ \<Rightarrow> OtherExtension)
           | None \<Rightarrow> OtherExtension)))"

definition sample_message :: "bytes \<Rightarrow> TlsMessageHandshake" where
  "sample_message bs =
     (if bs ! 0 = 11 then TlsMessageHandshake.Certificate
      else if bs ! 0 = 12 then TlsMessageHandshake.ServerKeyExchange
      else if bs ! 0 = 14 then ServerDone
      else if bs ! 0 = 16 then TlsMessageHandshake.ClientKeyExchange
      else (case (decode_client_hello bs, decode_server_hello bs) of
          (Some (Inr ch), _) \<Rightarrow> TlsMessageHandshake.ClientHello
            \<lparr>tch_ciphers = map fst (ch_cipher_suites ch),
             tch_ext = Some (concat (map enc_extension (ch_extensions ch)))\<rparr>
        | (_, Some (Inr sh)) \<Rightarrow> TlsMessageHandshake.ServerHello
            \<lparr>tsh_version = sh_legacy_version sh, tsh_cipher = fst (sh_cipher_suite sh),
             tsh_ext = Some (concat (map enc_extension (sh_extensions sh)))\<rparr>
        | _ \<Rightarrow> OtherHandshake))"

definition sample_handshake :: "bytes \<Rightarrow> string + bytes \<times> TlsMessage" where
  "sample_handshake bs =
     (if length bs < 4 then Inl ''Incomplete''
      else let n = unat (u32_from_be_bytes 0 (bs ! 1) (bs ! 2) (bs ! 3)) in
        if length bs < 4 + n then Inl ''Incomplete''
        else Inr (drop (4 + n) bs, TlsMessage.Handshake (sample_message (take (4 + n) bs))))"

definition sample_parser :: tls_parser where
  "sample_parser = \<lparr>parse_tls_message_handshake = sample_handshake,
                    parse_tls_extension = sample_extension\<rparr>"

lemma consuming_sample_parser: "consuming sample_parser"
  unfolding consuming_def sample_parser_def
  by (auto simp: sample_handshake_def sample_extension_def Let_def simp del: length_greater_0_conv
      split: if_splits)

section \<open>Properties\<close>

text \<open>
  Neither of the two decoders can panic, on any bytes.
\<close>

theorem hello_decoders_total:
  "(\<exists>r. decode_client_hello bs = Some r) \<and> (\<exists>r. decode_server_hello bs = Some r)"
  by (simp add: decode_client_hello_total decode_server_hello_total)

text \<open>
  C4. A \<open>ClientHello\<close> is read back whole: for every message whose fields fit their length
  prefixes, decoding its wire form, whatever follows it in the record, gives every field back,
  the cipher suites and the extensions in order included.
\<close>

theorem client_hello_roundtrip:
  assumes "wf_client_hello_fields ch" and "wf_extensions (ch_extensions ch)"
  shows "decode_client_hello (encode_client_hello ch @ rest) = Some (Inr ch)"
  using assms by (rule decode_encoded_client_hello)

text \<open>
  C23. A \<open>ServerHello\<close> is read back whole in the same way.
\<close>

theorem server_hello_roundtrip:
  assumes "wf_server_hello_fields sh" and "wf_extensions (sh_extensions sh)"
  shows "decode_server_hello (encode_server_hello sh @ rest) = Some (Inr sh)"
  using assms by (rule decode_encoded_server_hello)

lemma decoded_client_hello:
  assumes run: "decode_client_hello bs = Some (Inr ch)"
  shows "wf_client_hello_fields ch
    \<and> (\<exists>exts rest. bs = enc_header 1 (client_hello_fields ch @ exts) @ rest
         \<and> length (client_hello_fields ch @ exts) < 16777216
         \<and> extension_block exts (ch_extensions ch))"
proof -
  from run obtain bdy where strip: "strip_handshake_header bs 1 = Some (Inr bdy)"
    unfolding decode_client_hello_def ask_Inr_iff by blast
  then obtain rest where bs: "bs = enc_header 1 bdy @ rest" "length bdy < 16777216"
    unfolding strip_iff by blast
  obtain v c1 rnd c2 sl c3 sid c4 w c5 cb c6 cl c7 cm exts es where
    reads: "read_u16 bdy = Some (Inr (v, c1))" "read_array32 c1 = Some (Inr (rnd, c2))"
      "read_u8 c2 = Some (Inr (sl, c3))" "read_bytes (unat sl) c3 = Some (Inr (sid, c4))"
      "read_u16 c4 = Some (Inr (w, c5))" "read_bytes (unat w) c5 = Some (Inr (cb, c6))"
      "read_u8 c6 = Some (Inr (cl, c7))" "read_bytes (unat cl) c7 = Some (Inr (cm, exts))"
    and even: "unat w mod 2 = 0" and es: "extension_reader exts = Some (Inr es)"
    and ch: "ch = \<lparr>ch_legacy_version = v, ch_random = rnd, ch_session_id = sid,
      ch_cipher_suites = map known_suite (u16_chunks cb), ch_compression_methods = cm,
      ch_extensions = es\<rparr>"
    using run
    unfolding decode_client_hello_def strip extension_reader_def [symmetric] ask_simps ask_Inr_iff
      split_paired_Ex prod.case
    by (elim exE conjE, split if_split_asm, simp)
       (unfold not_not ask_Inr_iff split_paired_Ex prod.case option.inject sum.inject,
        elim exE conjE, rule that; (assumption | rule sym, assumption))
  have bdy: "bdy = u16_to_be_bytes v @ rnd @ [sl] @ sid @ u16_to_be_bytes w @ cb @ [cl] @ cm @ exts"
    and len: "length rnd = 32" "length sid = unat sl" "length cb = unat w" "length cm = unat cl"
    using reads unfolding u16_reader.read_iff u8_reader.read_iff array32_reader.read_iff
      bytes_reader.read_iff by simp_all
  have wf: "wf_client_hello_fields ch"
    using len bytes_of_suites [OF even len(3)] by (simp add: wf_client_hello_fields_def ch)
  have split: "bdy = client_hello_fields ch @ exts"
    unfolding client_hello_fields_def ch bdy
    using prefix8_of [OF len(2)] prefix8_of [OF len(4)] bytes_of_suites(1) [OF even len(3)] by simp
  have "extension_block exts (ch_extensions ch)" using es by (simp add: ch read_extensions_iff)
  with bs wf show ?thesis unfolding split by blast
qed

text \<open>
  C5. Decoding a \<open>ClientHello\<close> is inverse to its layout, in both directions: the decoder
  succeeds with \<open>ch\<close> exactly when the input is the four-byte header of type 1 with the exact
  length of a body (which fits its 24 bits), this body starts with the wire form of the fixed
  fields of \<open>ch\<close>, and the rest of the body is absent or a length prefix and, within it, all the
  whole extensions there are: the wire forms of exactly the extensions of \<open>ch\<close>, in order and each
  the decoding of its own bytes, and then nothing that begins with a whole extension.
\<close>

theorem client_hello_exact:
  "decode_client_hello bs = Some (Inr ch) \<longleftrightarrow>
     wf_client_hello_fields ch
     \<and> (\<exists>exts rest. bs = enc_header 1 (client_hello_fields ch @ exts) @ rest
          \<and> length (client_hello_fields ch @ exts) < 16777216
          \<and> extension_block exts (ch_extensions ch))"
  using decoded_client_hello decode_laid_out by blast

theorem client_hello_roundtrip_witness:
  "decode_client_hello (encode_client_hello
     \<lparr>ch_legacy_version = 0x0303, ch_random = replicate 32 7, ch_session_id = [9],
      ch_cipher_suites = [known_suite 0x1301, known_suite 0xfafa], ch_compression_methods = [0],
      ch_extensions = []\<rparr> @ [1, 2, 3])
   = Some (Inr \<lparr>ch_legacy_version = 0x0303, ch_random = replicate 32 7, ch_session_id = [9],
      ch_cipher_suites = [known_suite 0x1301, known_suite 0xfafa], ch_compression_methods = [0],
      ch_extensions = []\<rparr>)"
  by (rule client_hello_roundtrip)
     (simp_all add: wf_client_hello_fields_def wf_extensions_def known_suite_def)

theorem server_hello_roundtrip_witness:
  "decode_server_hello (encode_server_hello
     \<lparr>sh_legacy_version = 0x0303, sh_random = HELLO_RETRY_REQUEST_RANDOM, sh_session_id_echo = [],
      sh_cipher_suite = known_suite 0x1302, sh_compression_method = 0,
      sh_extensions = [\<lparr>ext_type = 43, ext_name = ''supported_versions'', ext_raw = [3, 4],
        ext_body = ExtensionBody.SupportedVersions [0x0304]\<rparr>]\<rparr> @ [])
   = Some (Inr \<lparr>sh_legacy_version = 0x0303, sh_random = HELLO_RETRY_REQUEST_RANDOM,
      sh_session_id_echo = [], sh_cipher_suite = known_suite 0x1302, sh_compression_method = 0,
      sh_extensions = [\<lparr>ext_type = 43, ext_name = ''supported_versions'', ext_raw = [3, 4],
        ext_body = ExtensionBody.SupportedVersions [0x0304]\<rparr>]\<rparr>)"
proof (rule server_hello_roundtrip)
  have "decode_extension 43 [3, 4] = Some \<lparr>ext_type = 43, ext_name = ''supported_versions'',
      ext_raw = [3, 4], ext_body = ExtensionBody.SupportedVersions [0x0304]\<rparr>"
    by code_simp
  then show "wf_extensions (sh_extensions \<lparr>sh_legacy_version = 0x0303,
      sh_random = HELLO_RETRY_REQUEST_RANDOM,
      sh_session_id_echo = [], sh_cipher_suite = known_suite 0x1302, sh_compression_method = 0,
      sh_extensions = [\<lparr>ext_type = 43, ext_name = ''supported_versions'', ext_raw = [3, 4],
        ext_body = ExtensionBody.SupportedVersions [0x0304]\<rparr>]\<rparr>)"
    by (simp add: wf_extensions_def wf_extension_def enc_extension_def prefix16_def)
qed (simp add: wf_server_hello_fields_def HELLO_RETRY_REQUEST_RANDOM_def known_suite_def)

text \<open>
  With a \<open>tls_parser\<close> that consumes input, the two compact parsers always return: neither
  extension walk loops forever and no slice in them panics.
\<close>

theorem hello_parsers_return:
  assumes "consuming tp"
  shows "(\<exists>r. parse_client_hello tp bs = Some r) \<and> (\<exists>r. parse_server_hello tp bs = Some r)"
proof -
  have "\<exists>r. parse_client_hello tp bs = Some r"
    using extract_client_hello_total [OF assms]
    by (auto simp: parse_client_hello_def split: sum.splits TlsMessage.splits TlsMessageHandshake.splits)
  moreover have "\<exists>r. parse_server_hello tp bs = Some r"
    using extract_server_hello_total [OF assms]
    by (auto simp: parse_server_hello_def split: sum.splits TlsMessage.splits TlsMessageHandshake.splits)
  ultimately show ?thesis ..
qed

theorem hello_parsers_return_witness:
  "\<exists>r. parse_server_hello sample_parser [2, 0, 0, 0] = Some r"
  using hello_parsers_return [OF consuming_sample_parser] by blast

text \<open>
  The two readers of \<open>key_share\<close> agree: whenever the detail decoder reads a non-empty list
  of shares, from the client's or the server's form, the group the summary shows is the group
  of its first share.
\<close>

theorem key_share_readers_agree:
  assumes "decode_key_share bs = Some (Some es)" and "es \<noteq> []"
  shows "first_key_share_group bs = Some (Some (ks_group (hd es)))"
  using assms key_share_heads_agree by (cases es) simp_all

theorem key_share_readers_agree_witness:
  "first_key_share_group (prefix16 (concat (map enc_key_share
     [\<lparr>ks_group = X25519, group_code = 29, key_exchange = [1, 2]\<rparr>]))) = Some (Some X25519)"
proof -
  have "decode_key_share (prefix16 (concat (map enc_key_share
      [\<lparr>ks_group = X25519, group_code = 29, key_exchange = [1, 2]\<rparr>])))
    = Some (Some [\<lparr>ks_group = X25519, group_code = 29, key_exchange = [1, 2]\<rparr>])"
    by (rule decode_key_share_encoded)
       (simp_all add: wf_key_share_def NamedGroup_from_u16_def enc_key_share_def)
  from key_share_readers_agree [OF this] show ?thesis by simp
qed

text \<open>
  The version shown for a \<open>ClientHello\<close> with \<open>supported_versions\<close> is one of those offered
  and none offered ranks above it; a GREASE or unknown code is shown only when no known
  version is offered, and an empty list clears the field.
\<close>

theorem client_max_version:
  "\<exists>i. apply_client_extension info (TlsExtension.SupportedVersions vs) = Some i
     \<and> (chi_max_version i = None \<longleftrightarrow> vs = [])
     \<and> (\<forall>m. chi_max_version i = Some m \<longrightarrow> m \<in> TlsVersion_from_u16 ` set vs
          \<and> (\<forall>v\<in>set vs. preferred_version_rank (TlsVersion_from_u16 v) \<le> preferred_version_rank m)
          \<and> ((\<exists>c. m = TlsVersion.Other c) \<longrightarrow>
               (\<forall>v\<in>set vs. \<exists>c. TlsVersion_from_u16 v = TlsVersion.Other c)))"
proof -
  have rank0: "preferred_version_rank x = 0 \<longleftrightarrow> (\<exists>c. x = TlsVersion.Other c)" for x
    by (cases x) auto
  let ?m = "max_by_key preferred_version_rank (map TlsVersion_from_u16 vs)"
  have "m \<in> TlsVersion_from_u16 ` set vs
      \<and> (\<forall>v\<in>set vs. preferred_version_rank (TlsVersion_from_u16 v) \<le> preferred_version_rank m)
      \<and> (preferred_version_rank m = 0 \<longrightarrow>
           (\<forall>v\<in>set vs. preferred_version_rank (TlsVersion_from_u16 v) = 0))"
    if "?m = Some m" for m
    using max_by_key_Some [OF that] by fastforce
  then show ?thesis unfolding rank0 by simp
qed

theorem client_max_version_witness:
  "\<exists>i. apply_client_extension
       \<lparr>chi_sni = None, chi_alpn_offered = [], chi_cipher_suites = [], chi_groups_offered = [],
        chi_key_share_group = None, chi_max_version = None\<rparr>
       (TlsExtension.SupportedVersions [0x0a0a, 0x0304, 0x0303]) = Some i
     \<and> chi_max_version i \<noteq> None"
  using client_max_version [of _ "[0x0a0a, 0x0304, 0x0303]"] by (metis list.distinct(1))

end
