(* ===== verification/Tracker.thy ===== *)
theory Tracker
  imports Connection_State Hash_Map Record_Parser Handshake_Parser
begin

text \<open>
  \<open>src/src/tracker/reassembly.rs\<close>: per-connection reassembly, the handshake state machine,
  the capped record log and stale eviction. The crate \<open>tls_parser\<close> is the parameter \<open>tp\<close>
  and the resolver the parameters \<open>resolve\<close> and its state. The counters are \<open>u32\<close> words:
  \<open>+= 1\<close> wraps, as in a release build.
\<close>

definition DEFAULT_STALE_TIMEOUT_MS :: u64 where
  "DEFAULT_STALE_TIMEOUT_MS = 5 * 60 * 1000"

definition MAX_REASSEMBLY_BYTES :: usize where
  "MAX_REASSEMBLY_BYTES = 128 * 1024"

definition CIPHERTEXT_PREVIEW_LEN :: usize where
  "CIPHERTEXT_PREVIEW_LEN = 64"

record TrackedConnection =
  tc_state :: ConnectionState
  client_to_server_buf :: bytes
  server_to_client_buf :: bytes
  encrypted_records_from_server :: u32
  encrypted_records_from_client :: u32
  saw_client_finished_marker :: bool
  client_ccs_seen :: bool
  server_ccs_seen :: bool
  post_ccs_records_from_client :: u32
  post_ccs_records_from_server :: u32
  seq_counter :: u32
  stop_logging :: bool

record 'r ConnectionTracker =
  connections :: "(ConnectionKey, TrackedConnection) hmap"
  stale_timeout_ms :: u64
  resolver :: 'r

record OwnedRecord =
  or_record_type :: TlsRecordType
  or_legacy_version :: u16
  or_payload :: bytes

definition with_stale_timeout :: "'r \<Rightarrow> u64 \<Rightarrow> 'r ConnectionTracker" where
  "with_stale_timeout default_resolver timeout =
     \<lparr>connections = hm_empty, stale_timeout_ms = timeout, resolver = default_resolver\<rparr>"

definition tracker_new :: "'r \<Rightarrow> 'r ConnectionTracker" where
  "tracker_new default_resolver = with_stale_timeout default_resolver DEFAULT_STALE_TIMEOUT_MS"

definition with_resolver :: "'r \<Rightarrow> 'r ConnectionTracker" where
  "with_resolver r =
     \<lparr>connections = hm_empty, stale_timeout_ms = DEFAULT_STALE_TIMEOUT_MS, resolver = r\<rparr>"

section \<open>The handshake state machine\<close>

definition or_else :: "'a option \<Rightarrow> 'a option \<Rightarrow> 'a option" where
  "or_else a b = (case a of Some x \<Rightarrow> Some x | None \<Rightarrow> b)"

definition merge_client_hello :: "HandshakeInfo \<Rightarrow> ClientHelloInfo \<Rightarrow> HandshakeInfo" where
  "merge_client_hello dst src =
     dst\<lparr>stage := HandshakeStage.ClientHello,
         sni := or_else (chi_sni src) (sni dst),
         alpn_offered := (if chi_alpn_offered src \<noteq> [] then chi_alpn_offered src else alpn_offered dst),
         cipher_suites_offered :=
           (if chi_cipher_suites src \<noteq> [] then chi_cipher_suites src else cipher_suites_offered dst),
         groups_offered :=
           (if chi_groups_offered src \<noteq> [] then chi_groups_offered src else groups_offered dst),
         key_share_group := or_else (chi_key_share_group src) (key_share_group dst),
         tls_version :=
           (case chi_max_version src of None \<Rightarrow> tls_version dst
            | Some v \<Rightarrow> or_else (tls_version dst) (Some v))\<rparr>"

definition merge_server_hello :: "HandshakeInfo \<Rightarrow> ServerHelloInfo \<Rightarrow> HandshakeInfo" where
  "merge_server_hello dst src =
     dst\<lparr>stage := HandshakeStage.ServerHello,
         tls_version := or_else (shi_tls_version src) (tls_version dst),
         cipher_suite_selected := or_else (shi_cipher_suite_selected src) (cipher_suite_selected dst),
         key_share_group := or_else (shi_key_share_group src) (key_share_group dst),
         alpn_selected := or_else (shi_alpn_selected src) (alpn_selected dst)\<rparr>"

fun apply_message ::
  "tls_parser \<Rightarrow> HandshakeInfo \<Rightarrow> Direction \<Rightarrow> TlsMessageHandshake \<Rightarrow> HandshakeInfo exec" where
  "apply_message tp hs Direction.ClientToServer (TlsMessageHandshake.ClientHello ch) =
     map_option (merge_client_hello hs) (extract_client_hello tp ch)"
| "apply_message tp hs Direction.ServerToClient (TlsMessageHandshake.ServerHello sh) =
     map_option (merge_server_hello hs) (extract_server_hello tp sh)"
| "apply_message tp hs Direction.ServerToClient TlsMessageHandshake.Certificate =
     Some (case tls_version hs of
        None \<Rightarrow> hs\<lparr>stage := HandshakeStage.ServerCertificate\<rparr>
      | Some v \<Rightarrow> if v \<in> {Ssl30, Tls10, Tls11, Tls12}
                 then hs\<lparr>stage := HandshakeStage.ServerCertificate\<rparr> else hs)"
| "apply_message tp hs _ TlsMessageHandshake.ServerKeyExchange =
     Some (hs\<lparr>stage := HandshakeStage.ServerKeyExchange\<rparr>)"
| "apply_message tp hs _ TlsMessageHandshake.ServerDone =
     Some (hs\<lparr>stage := HandshakeStage.ServerHelloDone\<rparr>)"
| "apply_message tp hs Direction.ClientToServer TlsMessageHandshake.ClientKeyExchange =
     Some (hs\<lparr>stage := HandshakeStage.ClientKeyExchange\<rparr>)"
| "apply_message tp hs _ _ = Some hs"

partial_function (option) apply_handshake_record ::
  "tls_parser \<Rightarrow> HandshakeInfo \<Rightarrow> bytes \<Rightarrow> Direction \<Rightarrow> HandshakeInfo exec" where
  "apply_handshake_record tp hs remaining dir =
     (if remaining = [] then Some hs
      else (case parse_tls_message_handshake tp remaining of
          Inl _ \<Rightarrow> Some hs
        | Inr (rest, msg) \<Rightarrow> do {
            hs' \<leftarrow> (case msg of
                TlsMessage.Handshake m \<Rightarrow> apply_message tp hs dir m
              | OtherMessage \<Rightarrow> Some hs);
            apply_handshake_record tp hs' rest dir
          }))"

fun apply_ccs :: "HandshakeInfo \<Rightarrow> Direction \<Rightarrow> HandshakeInfo" where
  "apply_ccs hs Direction.ClientToServer =
     (if stage hs = HandshakeStage.ClientKeyExchange
      then hs\<lparr>stage := HandshakeStage.ClientFinished\<rparr> else hs)"
| "apply_ccs hs Direction.ServerToClient =
     (if stage hs = HandshakeStage.ClientFinished
      then hs\<lparr>stage := HandshakeStage.ServerFinished\<rparr> else hs)"

definition is_tls12 :: "HandshakeInfo \<Rightarrow> bool" where
  "is_tls12 hs \<longleftrightarrow> tls_version hs \<in> {Some Ssl30, Some Tls10, Some Tls11, Some Tls12}"

text \<open>The handshake, the two counters and the marker, as the function's \<open>&mut\<close> arguments.\<close>

definition apply_encrypted_record ::
  "HandshakeInfo \<Rightarrow> u32 \<Rightarrow> u32 \<Rightarrow> bool \<Rightarrow> Direction \<Rightarrow> HandshakeInfo \<times> u32 \<times> u32 \<times> bool" where
  "apply_encrypted_record hs from_server from_client marker dir =
     (if is_tls12 hs
      then (hs\<lparr>stage := HandshakeStage.ApplicationData\<rparr>, from_server, from_client, marker)
      else if dir = Direction.ServerToClient
      then (let from_server = from_server + 1;
                hs = hs\<lparr>stage :=
                  (if marker then HandshakeStage.ApplicationData
                   else if 1 \<le> from_server \<and> from_server \<le> 3 then HandshakeStage.Certificate
                   else HandshakeStage.ServerFinished)\<rparr>;
                hs = (if certificate_subject hs = None
                      then hs\<lparr>certificate_subject := Some ''encrypted (TLS 1.3)'',
                              certificate_issuer := Some ''encrypted (TLS 1.3)''\<rparr>
                      else hs)
            in (hs, from_server, from_client, marker))
      else if 0 < from_server
      then (let from_client = from_client + 1
            in if \<not> marker
               then (hs\<lparr>stage := HandshakeStage.ClientFinished\<rparr>, from_server, from_client, True)
               else (hs\<lparr>stage := HandshakeStage.ApplicationData\<rparr>, from_server, from_client, marker))
      else (hs, from_server, from_client, marker))"

section \<open>The record log\<close>

fun to_record_direction :: "Direction \<Rightarrow> RecordDirection" where
  "to_record_direction Direction.ClientToServer = RecordDirection.ClientToServer"
| "to_record_direction Direction.ServerToClient = RecordDirection.ServerToClient"

fun post_ccs :: "TrackedConnection \<Rightarrow> Direction \<Rightarrow> bool" where
  "post_ccs conn Direction.ClientToServer = client_ccs_seen conn"
| "post_ccs conn Direction.ServerToClient = server_ccs_seen conn"

fun post_ccs_handshake_label :: "Direction \<Rightarrow> TrackedConnection \<Rightarrow> string" where
  "post_ccs_handshake_label Direction.ClientToServer conn =
     (if post_ccs_records_from_client conn = 0 then ''encrypted Finished (client)''
      else ''encrypted handshake (post-CCS)'')"
| "post_ccs_handshake_label Direction.ServerToClient conn =
     (if post_ccs_records_from_server conn = 0
      then ''encrypted NewSessionTicket or Finished (server)''
      else if post_ccs_records_from_server conn = 1 then ''encrypted Finished (server)''
      else ''encrypted handshake (post-CCS)'')"

definition encrypted_flight_label :: "Direction \<Rightarrow> TrackedConnection \<Rightarrow> usize \<Rightarrow> string" where
  "encrypted_flight_label dir conn payload_len =
     (if is_tls12 (handshake (tc_state conn)) then ''application data''
      else (case dir of
        Direction.ServerToClient \<Rightarrow>
          (let n = encrypted_records_from_server conn in
           if n = 1 \<and> payload_len < 200
           then ''likely EncryptedExtensions (server fragmented flight)''
           else if n = 1 \<and> payload_len < 800
           then ''likely EncryptedExtensions + Finished (resumed session, no Certificate)''
           else if n = 1
           then ''likely EncryptedExtensions + Certificate + CertificateVerify + Finished''
           else if n = 2 \<and> payload_len < 120 then ''likely Finished only''
           else if n = 2 then ''likely Certificate + CertificateVerify + Finished (continued)''
           else ''likely NewSessionTicket (post-handshake)'')
      | Direction.ClientToServer \<Rightarrow>
          if encrypted_records_from_server conn = 0
          then ''likely 0-RTT early data (PSK session resumption)''
          else (let n = encrypted_records_from_client conn in
           if n = 1 \<and> payload_len < 120
           then ''likely Finished only (~53B = 32B verify_data + AEAD tag)''
           else if n = 1
           then ''likely Certificate + CertificateVerify + Finished (client auth / mTLS)''
           else ''encrypted application data'')))"

definition decode_handshake_body :: "bytes \<Rightarrow> DecodedHandshake exec" where
  "decode_handshake_body bs =
     (case bs of
        [] \<Rightarrow> Some (DecodedHandshake.Unknown 0 [])
      | msg_type # _ \<Rightarrow>
          if msg_type = 1
          then map_option (\<lambda>r. case r of
                   Inr ch \<Rightarrow> DecodedHandshake.ClientHello ch
                 | Inl _ \<Rightarrow> DecodedHandshake.Unknown msg_type bs) (decode_client_hello bs)
          else if msg_type = 2
          then map_option (\<lambda>r. case r of
                   Inr sh \<Rightarrow> (if is_hello_retry_request sh then DecodedHandshake.HelloRetryRequest sh
                             else DecodedHandshake.ServerHello sh)
                 | Inl _ \<Rightarrow> DecodedHandshake.Unknown msg_type bs) (decode_server_hello bs)
          else Some (DecodedHandshake.Unknown msg_type bs))"

definition build_body :: "OwnedRecord \<Rightarrow> Direction \<Rightarrow> TrackedConnection \<Rightarrow> RecordBody exec" where
  "build_body rec dir conn =
     (let preview = slice (or_payload rec) 0 (min (length (or_payload rec)) CIPHERTEXT_PREVIEW_LEN)
      in (case or_record_type rec of
        TlsRecordType.Handshake \<Rightarrow>
          if post_ccs conn dir
          then map_option (RecordBody.EncryptedHandshake (post_ccs_handshake_label dir conn)) preview
          else map_option RecordBody.Handshake (decode_handshake_body (or_payload rec))
      | TlsRecordType.ApplicationData \<Rightarrow>
          map_option (RecordBody.EncryptedHandshake
            (encrypted_flight_label dir conn (length (or_payload rec)))) preview
      | TlsRecordType.ChangeCipherSpec \<Rightarrow> Some RecordBody.ChangeCipherSpec
      | _ \<Rightarrow> Some (RecordBody.EncryptedHandshake ''unknown record type'' [])))"

definition u32_saturating_add :: "u32 \<Rightarrow> u32 \<Rightarrow> u32" where
  "u32_saturating_add a b =
     (if unat a + unat b < 4294967296 then a + b else 0xFFFFFFFF)"

text \<open>\<open>u16::try_from(n).unwrap_or(u16::MAX)\<close>\<close>

definition u16_try_from :: "usize \<Rightarrow> u16" where
  "u16_try_from n = (if n < 65536 then word_of_nat n else 0xFFFF)"

definition push_record_event ::
  "TrackedConnection \<Rightarrow> OwnedRecord \<Rightarrow> Direction \<Rightarrow> u64 \<Rightarrow> TrackedConnection exec" where
  "push_record_event conn rec dir now_ms =
     (if stop_logging conn \<or> RECORD_LOG_CAP \<le> length (records (tc_state conn)) then Some conn
      else do {
        let conn = conn\<lparr>seq_counter := u32_saturating_add (seq_counter conn) 1\<rparr>;
        b \<leftarrow> build_body rec dir conn;
        let len = u16_try_from (length (or_payload rec));
        let event = \<lparr>direction = to_record_direction dir, timestamp_ms = now_ms,
            sequence = seq_counter conn, outer_type = or_record_type rec, outer_length = len,
            raw = record_type_byte (or_record_type rec) # u16_to_be_bytes (or_legacy_version rec)
                  @ u16_to_be_bytes len @ or_payload rec,
            body = b\<rparr>;
        Some (conn\<lparr>tc_state := (tc_state conn)\<lparr>records := records (tc_state conn) @ [event]\<rparr>\<rparr>)
      })"

section \<open>Ingesting a segment\<close>

definition own :: "TlsRecord \<Rightarrow> OwnedRecord" where
  "own r = \<lparr>or_record_type = record_type r, or_legacy_version = legacy_version r,
            or_payload = payload r\<rparr>"

definition both_ccs :: "TrackedConnection \<Rightarrow> bool" where
  "both_ccs conn \<longleftrightarrow> client_ccs_seen conn \<and> server_ccs_seen conn"

fun count_post_ccs :: "TrackedConnection \<Rightarrow> Direction \<Rightarrow> TrackedConnection" where
  "count_post_ccs conn Direction.ClientToServer =
     conn\<lparr>post_ccs_records_from_client := post_ccs_records_from_client conn + 1\<rparr>"
| "count_post_ccs conn Direction.ServerToClient =
     conn\<lparr>post_ccs_records_from_server := post_ccs_records_from_server conn + 1\<rparr>"

fun mark_ccs :: "TrackedConnection \<Rightarrow> Direction \<Rightarrow> TrackedConnection" where
  "mark_ccs conn Direction.ClientToServer = conn\<lparr>client_ccs_seen := True\<rparr>"
| "mark_ccs conn Direction.ServerToClient = conn\<lparr>server_ccs_seen := True\<rparr>"

definition set_handshake :: "TrackedConnection \<Rightarrow> HandshakeInfo \<Rightarrow> TrackedConnection" where
  "set_handshake conn hs = conn\<lparr>tc_state := (tc_state conn)\<lparr>handshake := hs\<rparr>\<rparr>"

text \<open>One turn of the record loop of \<open>ingest\<close>.\<close>

definition ingest_handshake ::
  "tls_parser \<Rightarrow> Direction \<Rightarrow> u64 \<Rightarrow> TrackedConnection \<Rightarrow> OwnedRecord \<Rightarrow> TrackedConnection exec" where
  "ingest_handshake tp dir now_ms conn rec = do {
     let post = post_ccs conn dir;
     conn \<leftarrow> (if \<not> post
       then map_option (set_handshake conn)
              (apply_handshake_record tp (handshake (tc_state conn)) (or_payload rec) dir)
       else Some conn);
     conn \<leftarrow> push_record_event conn rec dir now_ms;
     if post
     then let conn = count_post_ccs conn dir
          in Some (if both_ccs conn then conn\<lparr>stop_logging := True\<rparr> else conn)
     else Some conn
   }"

definition ingest_application_data ::
  "Direction \<Rightarrow> u64 \<Rightarrow> TrackedConnection \<Rightarrow> OwnedRecord \<Rightarrow> TrackedConnection exec" where
  "ingest_application_data dir now_ms conn rec =
     (let (hs, from_server, from_client, marker) =
            apply_encrypted_record (handshake (tc_state conn)) (encrypted_records_from_server conn)
              (encrypted_records_from_client conn) (saw_client_finished_marker conn) dir;
          conn = (set_handshake conn hs)
            \<lparr>encrypted_records_from_server := from_server,
             encrypted_records_from_client := from_client,
             saw_client_finished_marker := marker\<rparr>;
          conn = (if 2 \<le> encrypted_records_from_client conn then conn\<lparr>stop_logging := True\<rparr> else conn);
          conn = (if both_ccs conn then conn\<lparr>stop_logging := True\<rparr> else conn)
      in push_record_event conn rec dir now_ms)"

definition ingest_ccs ::
  "Direction \<Rightarrow> u64 \<Rightarrow> TrackedConnection \<Rightarrow> OwnedRecord \<Rightarrow> TrackedConnection exec" where
  "ingest_ccs dir now_ms conn rec =
     push_record_event
       (mark_ccs (set_handshake conn (apply_ccs (handshake (tc_state conn)) dir)) dir) rec dir now_ms"

definition ingest_record ::
  "tls_parser \<Rightarrow> Direction \<Rightarrow> u64 \<Rightarrow> TrackedConnection \<Rightarrow> OwnedRecord \<Rightarrow> TrackedConnection exec" where
  "ingest_record tp dir now_ms conn rec =
     (case or_record_type rec of
        TlsRecordType.Handshake \<Rightarrow> ingest_handshake tp dir now_ms conn rec
      | TlsRecordType.ApplicationData \<Rightarrow> ingest_application_data dir now_ms conn rec
      | TlsRecordType.ChangeCipherSpec \<Rightarrow> ingest_ccs dir now_ms conn rec
      | TlsRecordType.Alert \<Rightarrow> Some conn
      | TlsRecordType.Other _ \<Rightarrow> Some conn)"

definition ingest_records ::
  "tls_parser \<Rightarrow> Direction \<Rightarrow> u64 \<Rightarrow> TrackedConnection \<Rightarrow> OwnedRecord list \<Rightarrow> TrackedConnection exec" where
  "ingest_records tp dir now_ms = fold_exec (ingest_record tp dir now_ms)"

definition new_connection :: "ConnectionKey \<Rightarrow> u64 \<Rightarrow> TrackedConnection" where
  "new_connection key now_ms =
     \<lparr>tc_state = \<lparr>cs_key = key, first_seen_ms = now_ms, last_seen_ms = now_ms,
                  handshake = HandshakeInfo_new, records = []\<rparr>,
      client_to_server_buf = [], server_to_client_buf = [],
      encrypted_records_from_server = 0, encrypted_records_from_client = 0,
      saw_client_finished_marker = False, client_ccs_seen = False, server_ccs_seen = False,
      post_ccs_records_from_client = 0, post_ccs_records_from_server = 0,
      seq_counter = 0, stop_logging = False\<rparr>"

fun dir_buf :: "Direction \<Rightarrow> TrackedConnection \<Rightarrow> bytes" where
  "dir_buf Direction.ClientToServer conn = client_to_server_buf conn"
| "dir_buf Direction.ServerToClient conn = server_to_client_buf conn"

fun set_buf :: "Direction \<Rightarrow> bytes \<Rightarrow> TrackedConnection \<Rightarrow> TrackedConnection" where
  "set_buf Direction.ClientToServer buf conn = conn\<lparr>client_to_server_buf := buf\<rparr>"
| "set_buf Direction.ServerToClient buf conn = conn\<lparr>server_to_client_buf := buf\<rparr>"

definition mark_errored :: "string \<Rightarrow> TrackedConnection \<Rightarrow> TrackedConnection" where
  "mark_errored msg conn =
     set_handshake conn
       ((handshake (tc_state conn))\<lparr>stage := HandshakeStage.Errored, hs_error := Some msg\<rparr>)"

text \<open>The part of \<open>ingest\<close> that works on the connection it found or made.\<close>

definition ingest_segment ::
  "tls_parser \<Rightarrow> Direction \<Rightarrow> bytes \<Rightarrow> u64 \<Rightarrow> TrackedConnection \<Rightarrow> TrackedConnection exec" where
  "ingest_segment tp dir seg now_ms conn =
     (if MAX_REASSEMBLY_BYTES < length (dir_buf dir conn) + length seg
      then Some (mark_errored
             (''reassembly buffer would exceed '' @ dec MAX_REASSEMBLY_BYTES @ '' bytes'') conn)
      else do {
        let buf = dir_buf dir conn @ seg;
        res \<leftarrow> parse_records buf;
        case res of
          Inl err \<Rightarrow> Some (set_buf dir [] (mark_errored (Error_to_string err) conn))
        | Inr (recs, consumed) \<Rightarrow> do {
            rest \<leftarrow> slice_from buf consumed;
            ingest_records tp dir now_ms (set_buf dir rest conn) (map own recs)
          }
      })"

text \<open>The entry of the key: the one it has, or a new one attributed by the resolver.\<close>

definition ingest_entry ::
  "'r OriginResolver \<Rightarrow> ConnectionKey \<Rightarrow> SocketAddr \<Rightarrow> SocketAddr \<Rightarrow> u64
     \<Rightarrow> 'r ConnectionTracker \<Rightarrow> (TrackedConnection \<times> 'r) exec" where
  "ingest_entry resolve key endpoint_a endpoint_b now_ms t =
     (case hm_get (connections t) key of
        Some conn \<Rightarrow> Some (conn, resolver t)
      | None \<Rightarrow> do {
          let conn = new_connection key now_ms;
          (o', r') \<leftarrow> resolve (resolver t) endpoint_a endpoint_b;
          Some (set_handshake conn ((handshake (tc_state conn))\<lparr>origin := Some o'\<rparr>), r')
        })"

definition touch :: "u64 \<Rightarrow> TrackedConnection \<Rightarrow> TrackedConnection" where
  "touch now_ms conn = conn\<lparr>tc_state := (tc_state conn)\<lparr>last_seen_ms := now_ms\<rparr>\<rparr>"

definition ingest ::
  "tls_parser \<Rightarrow> 'r OriginResolver \<Rightarrow> ConnectionKey \<Rightarrow> Direction \<Rightarrow> SocketAddr \<Rightarrow> SocketAddr
     \<Rightarrow> bytes \<Rightarrow> u64 \<Rightarrow> 'r ConnectionTracker
     \<Rightarrow> ((Error + ConnectionState option) \<times> 'r ConnectionTracker) exec" where
  "ingest tp resolve key dir endpoint_a endpoint_b seg now_ms t =
     (if seg = [] then Some (Inr None, t)
      else do {
        (conn, r') \<leftarrow> ingest_entry resolve key endpoint_a endpoint_b now_ms t;
        conn \<leftarrow> ingest_segment tp dir seg now_ms (touch now_ms conn);
        Some (Inr (Some (tc_state conn)),
              t\<lparr>connections := hm_insert key conn (connections t), resolver := r'\<rparr>)
      })"

section \<open>Iteration and eviction\<close>

definition tracker_iter :: "'r ConnectionTracker \<Rightarrow> ConnectionState list" where
  "tracker_iter t = map tc_state (hm_values (connections t))"

definition evict_stale :: "u64 \<Rightarrow> 'r ConnectionTracker \<Rightarrow> usize \<times> 'r ConnectionTracker" where
  "evict_stale now_ms t =
     (let cutoff = u64_saturating_sub now_ms (stale_timeout_ms t);
          kept = hm_retain (\<lambda>_ c. cutoff \<le> last_seen_ms (tc_state c)) (connections t)
      in (hm_len (connections t) - hm_len kept, t\<lparr>connections := kept\<rparr>))"

text \<open>The clock reading is what \<open>duration_since\<close> gave: \<open>None\<close> before the epoch, else milliseconds.\<close>

definition unix_now_ms :: "nat option \<Rightarrow> u64" where
  "unix_now_ms since_epoch =
     (case since_epoch of None \<Rightarrow> 0
      | Some ms \<Rightarrow> if ms < 2 ^ 64 then word_of_nat ms else - 1)"

section \<open>Every step returns\<close>

lemma apply_message_total: "consuming tp \<Longrightarrow> \<exists>hs'. apply_message tp hs dir m = Some hs'"
  using extract_client_hello_total [of tp] extract_server_hello_total [of tp]
  by (cases m; cases dir) auto

lemma apply_handshake_record_returns:
  assumes tp: "consuming tp"
  shows "\<exists>hs'. apply_handshake_record tp hs bs dir = Some hs'"
proof (induction bs arbitrary: hs rule: length_induct)
  case (1 bs)
  show ?case
  proof (cases "parse_tls_message_handshake tp bs")
    case (Inr p)
    obtain rest msg where p: "p = (rest, msg)" by force
    have "length rest < length bs"
      using tp Inr unfolding p consuming_def by blast
    moreover obtain hs' where "(case msg of TlsMessage.Handshake m \<Rightarrow> apply_message tp hs dir m
        | OtherMessage \<Rightarrow> Some hs) = Some hs'"
      using apply_message_total [OF tp] by (cases msg; simp; blast)
    ultimately show ?thesis
      using 1 Inr by (subst apply_handshake_record.simps) (auto simp: p)
  qed (subst apply_handshake_record.simps, simp)
qed

lemma decode_handshake_body_total: "\<exists>b. decode_handshake_body bs = Some b"
  using decode_client_hello_total [of bs] decode_server_hello_total [of bs]
  by (auto simp: decode_handshake_body_def split: list.splits)

lemma build_body_total: "\<exists>b. build_body rec dir conn = Some b"
  using decode_handshake_body_total [of "or_payload rec"]
  by (auto simp: build_body_def Let_def split: TlsRecordType.splits)

lemma push_record_event_total: "\<exists>c. push_record_event conn rec dir now_ms = Some c"
proof -
  obtain b where "build_body rec dir (conn\<lparr>seq_counter := u32_saturating_add (seq_counter conn) 1\<rparr>) = Some b"
    using build_body_total by blast
  then show ?thesis by (simp add: push_record_event_def Let_def)
qed

lemma ingest_record_total:
  assumes "consuming tp"
  shows "\<exists>c. ingest_record tp dir now_ms conn rec = Some c"
proof -
  have "\<exists>c. ingest_handshake tp dir now_ms conn rec = Some c"
  proof -
    obtain c where "(if \<not> post_ccs conn dir
       then map_option (set_handshake conn)
              (apply_handshake_record tp (handshake (tc_state conn)) (or_payload rec) dir)
       else Some conn) = Some c"
      using apply_handshake_record_returns [OF assms, of "handshake (tc_state conn)" "or_payload rec" dir]
      by (cases "post_ccs conn dir") auto
    moreover obtain c' where "push_record_event c rec dir now_ms = Some c'"
      using push_record_event_total by blast
    ultimately show ?thesis by (simp add: ingest_handshake_def Let_def)
  qed
  moreover have "\<exists>c. ingest_application_data dir now_ms conn rec = Some c"
    unfolding ingest_application_data_def Let_def by (simp add: split_def push_record_event_total)
  moreover have "\<exists>c. ingest_ccs dir now_ms conn rec = Some c"
    by (simp add: ingest_ccs_def push_record_event_total)
  ultimately show ?thesis
    by (simp add: ingest_record_def split: TlsRecordType.splits)
qed

lemma ingest_records_total:
  "consuming tp \<Longrightarrow> \<exists>c. ingest_records tp dir now_ms conn recs = Some c"
  unfolding ingest_records_def by (rule fold_exec_total) (rule ingest_record_total)

lemma ingest_segment_eq:
  "ingest_segment tp dir seg now_ms conn =
     (if MAX_REASSEMBLY_BYTES < length (dir_buf dir conn) + length seg
      then Some (mark_errored
             (''reassembly buffer would exceed '' @ dec MAX_REASSEMBLY_BYTES @ '' bytes'') conn)
      else (case parse_spec (dir_buf dir conn @ seg) of
          Inl err \<Rightarrow> Some (set_buf dir [] (mark_errored (Error_to_string err) conn))
        | Inr (recs, consumed) \<Rightarrow>
            ingest_records tp dir now_ms
              (set_buf dir (drop consumed (dir_buf dir conn @ seg)) conn) (map own recs)))"
  using parse_spec_sound [of "dir_buf dir conn @ seg"]
  by (auto simp: ingest_segment_def parse_records_spec Let_def split: sum.splits)

lemma ingest_segment_total: "consuming tp \<Longrightarrow> \<exists>c. ingest_segment tp dir seg now_ms conn = Some c"
  by (auto simp: ingest_segment_eq ingest_records_total split: sum.splits)

lemma entry_total:
  assumes "returning resolve good" and "good (resolver t)"
  shows "\<exists>conn r'. ingest_entry resolve key a b now_ms t = Some (conn, r') \<and> good r'"
proof -
  obtain o' r' where "resolve (resolver t) a b = Some (o', r')" "good r'"
    using assms unfolding returning_def by blast
  with assms(2) show ?thesis by (simp add: ingest_entry_def Let_def split: option.split)
qed

lemma ingest_total:
  assumes "consuming tp" and "returning resolve good" and "good (resolver t)"
  shows "\<exists>out t'. ingest tp resolve key dir a b seg now_ms t = Some (Inr out, t')
     \<and> (out = None \<longleftrightarrow> seg = []) \<and> good (resolver t')"
proof (cases "seg = []")
  case False
  obtain conn r' where e: "ingest_entry resolve key a b now_ms t = Some (conn, r')" "good r'"
    using entry_total [OF assms(2,3)] by blast
  obtain c where "ingest_segment tp dir seg now_ms (touch now_ms conn) = Some c"
    using ingest_segment_total [OF assms(1)] by blast
  with False e show ?thesis by (simp add: ingest_def)
qed (use assms(3) in \<open>simp add: ingest_def\<close>)

text \<open>The entry of a segment that was ingested, and the connection it became.\<close>

lemma ingest_insert:
  assumes "ingest tp resolve key dir a b seg now_ms t = Some (out, t')" and "seg \<noteq> []"
  obtains conn r' c where "ingest_entry resolve key a b now_ms t = Some (conn, r')"
    and "ingest_segment tp dir seg now_ms (touch now_ms conn) = Some c"
    and "out = Inr (Some (tc_state c))"
    and "t' = t\<lparr>connections := hm_insert key c (connections t), resolver := r'\<rparr>"
  using assms that by (auto simp: ingest_def bind_eq_Some_conv)

text \<open>
  C13. With a \<open>tls_parser\<close> that consumes its input, the only way for \<open>ingest\<close> not to return
  is the origin resolver: it fails to return exactly when the segment is the first payload of a
  flow that is not tracked and the resolver, asked for its two endpoints, panics. In every other
  case, whatever the bytes and the state, it neither panics nor loops and its answer is \<open>Ok\<close>, as
  its documentation says, with \<open>None\<close> exactly for an empty segment.
\<close>

theorem ingest_returns:
  assumes "consuming tp"
  shows "(ingest tp resolve key dir a b seg now_ms t = None \<longleftrightarrow>
        seg \<noteq> [] \<and> hm_get (connections t) key = None \<and> resolve (resolver t) a b = None)
    \<and> (ingest tp resolve key dir a b seg now_ms t \<noteq> None \<longrightarrow>
        (\<exists>out t'. ingest tp resolve key dir a b seg now_ms t = Some (Inr out, t') \<and> (out = None \<longleftrightarrow> seg = [])))"
proof (cases "seg = []")
  case False
  have entry: "ingest_entry resolve key a b now_ms t = None \<longleftrightarrow>
      hm_get (connections t) key = None \<and> resolve (resolver t) a b = None"
    by (cases "resolve (resolver t) a b") (auto simp: ingest_entry_def Let_def split: option.split)
  show ?thesis
  proof (cases "ingest_entry resolve key a b now_ms t")
    case None
    with False entry show ?thesis by (simp add: ingest_def)
  next
    case (Some p)
    obtain conn r' where p: "p = (conn, r')" by force
    obtain c where "ingest_segment tp dir seg now_ms (touch now_ms conn) = Some c"
      using ingest_segment_total [OF assms] by blast
    with False Some p entry show ?thesis by (auto simp: ingest_def)
  qed
qed (simp add: ingest_def)

theorem ingest_returns_witness:
  "ingest sample_parser (\<lambda>_ _ _. None) (canonical (V4 1) 50000 (V4 2) 443)
      Direction.ClientToServer (V4 1, 50000) (V4 2, 443) [22, 3, 1, 0, 2, 1] 7 (with_resolver ()) = None"
  using ingest_returns [OF consuming_sample_parser, where t = "with_resolver ()"
      and resolve = "\<lambda>_ _ _. None" and key = "canonical (V4 1) 50000 (V4 2) 443"
      and dir = Direction.ClientToServer and a = "(V4 1, 50000)" and b = "(V4 2, 443)"
      and seg = "[22, 3, 1, 0, 2, 1]" and now_ms = 7]
  by (simp add: with_resolver_def hm.get_empty)

section \<open>The TLS 1.3 stage as a closed form\<close>

text \<open>
  \<open>apply_encrypted_record\<close> over a whole sequence of encrypted records. Client records before
  the first server record are early data and change nothing; then comes the server's flight,
  then everything from the client's first record on.
\<close>

definition run_encrypted ::
  "HandshakeInfo \<Rightarrow> Direction list \<Rightarrow> HandshakeInfo \<times> u32 \<times> u32 \<times> bool" where
  "run_encrypted hs dirs =
     foldl (\<lambda>(hs, s, c, m) d. apply_encrypted_record hs s c m d) (hs, 0, 0, False) dirs"

definition flight_rest :: "Direction list \<Rightarrow> Direction list" where
  "flight_rest dirs = dropWhile (\<lambda>d. d = Direction.ClientToServer) dirs"

definition flight_after :: "Direction list \<Rightarrow> Direction list" where
  "flight_after dirs = dropWhile (\<lambda>d. d = Direction.ServerToClient) (flight_rest dirs)"

definition flight_stage :: "HandshakeStage \<Rightarrow> Direction list \<Rightarrow> HandshakeStage" where
  "flight_stage st dirs =
     (if flight_rest dirs = [] then st
      else if flight_after dirs = []
      then (if length (flight_rest dirs) \<le> 3 then HandshakeStage.Certificate
            else HandshakeStage.ServerFinished)
      else if length (flight_after dirs) = 1 then HandshakeStage.ClientFinished
      else HandshakeStage.ApplicationData)"

lemma dropWhile_snoc:
  "dropWhile P (xs @ [x]) =
     (if dropWhile P xs = [] then (if P x then [] else [x]) else dropWhile P xs @ [x])"
  by (auto simp: dropWhile_append dropWhile_eq_Nil_conv)

lemma flight_rest_snoc:
  "flight_rest (dirs @ [d]) =
     (if flight_rest dirs = [] then (if d = Direction.ClientToServer then [] else [d])
      else flight_rest dirs @ [d])"
  by (simp add: flight_rest_def dropWhile_snoc)

lemma flight_after_snoc:
  "flight_after (dirs @ [d]) =
     (if flight_rest dirs = [] \<or> flight_after dirs = [] \<and> d = Direction.ServerToClient then []
      else flight_after dirs @ [d])"
  by (cases d) (auto simp: flight_after_def flight_rest_snoc dropWhile_snoc)

lemma u32_inc: "unat s + 1 < 4294967296 \<Longrightarrow> unat (s + 1 :: u32) = unat s + 1"
  by (simp add: unat_plus_if')

lemma u32_pos: "0 < (s :: u32) \<longleftrightarrow> unat s \<noteq> 0"
  by (simp add: word_less_nat_alt)

lemma u32_le_3: "(s :: u32) \<le> 3 \<longleftrightarrow> unat s \<le> 3"
  by (simp add: word_le_nat_alt)

lemma u32_ge_1: "1 \<le> (s :: u32) \<longleftrightarrow> 1 \<le> unat s"
  by (simp add: word_le_nat_alt)

lemma is_tls12_stage [simp]:
  "is_tls12 (hs\<lparr>stage := st\<rparr>) = is_tls12 hs"
  "is_tls12 (hs\<lparr>certificate_subject := cs, certificate_issuer := ci\<rparr>) = is_tls12 hs"
  by (simp_all add: is_tls12_def)

lemma run_encrypted_inv:
  assumes "\<not> is_tls12 hs" and "length dirs < 4294967295"
  shows "\<exists>hs' s c. run_encrypted hs dirs = (hs', s, c, flight_after dirs \<noteq> [])
     \<and> \<not> is_tls12 hs' \<and> stage hs' = flight_stage (stage hs) dirs
     \<and> unat s \<le> length dirs
     \<and> (unat s = 0 \<longleftrightarrow> flight_rest dirs = [])
     \<and> (flight_after dirs = [] \<longrightarrow> unat s = length (flight_rest dirs))"
  using assms(2)
proof (induction dirs rule: rev_induct)
  case Nil
  then show ?case
    using assms(1) by (simp add: run_encrypted_def flight_rest_def flight_after_def flight_stage_def)
next
  case (snoc d dirs)
  then obtain hs' s c where run: "run_encrypted hs dirs = (hs', s, c, flight_after dirs \<noteq> [])"
    and tls: "\<not> is_tls12 hs'" and st: "stage hs' = flight_stage (stage hs) dirs"
    and le: "unat s \<le> length dirs" and s0: "unat s = 0 \<longleftrightarrow> flight_rest dirs = []"
    and len: "flight_after dirs = [] \<longrightarrow> unat s = length (flight_rest dirs)"
    by auto
  have step: "run_encrypted hs (dirs @ [d])
      = apply_encrypted_record hs' s c (flight_after dirs \<noteq> []) d"
    using run by (simp add: run_encrypted_def)
  have after_rest: "flight_rest dirs = [] \<Longrightarrow> flight_after dirs = []"
    by (simp add: flight_after_def)
  have inc: "unat (s + 1) = unat s + 1"
    using le snoc.prems by (intro u32_inc) simp
  show ?case
  proof (cases d)
    case ClientToServer
    then show ?thesis
      using tls st le s0 len after_rest unfolding step
      by (cases "flight_rest dirs = []"; cases "flight_after dirs = []")
         (simp_all add: apply_encrypted_record_def u32_pos flight_rest_snoc flight_after_snoc
           flight_stage_def Let_def)
  next
    case ServerToClient
    then show ?thesis
      using tls st le s0 len after_rest inc unfolding step
      by (cases "flight_rest dirs = []"; cases "flight_after dirs = []")
         (simp_all add: apply_encrypted_record_def u32_le_3 u32_ge_1 flight_rest_snoc
           flight_after_snoc flight_stage_def Let_def)
  qed
qed

text \<open>
  C14. The TLS 1.3 heuristic in closed form: after any sequence of encrypted records (fewer than
  \<open>2 ^ 32 - 1\<close>) on a connection not known to be TLS 1.2 or older, the stage is unchanged as long
  as only the client sent (early data); \<open>Certificate\<close> for the first three records of the
  server's flight and \<open>ServerFinished\<close> from the fourth; \<open>ClientFinished\<close> after the client's
  first record; and \<open>ApplicationData\<close> after any further record of either side.
\<close>

theorem tls13_stage_closed_form:
  assumes "\<not> is_tls12 hs" and "length dirs < 4294967295"
  shows "stage (fst (run_encrypted hs dirs)) = flight_stage (stage hs) dirs"
  using run_encrypted_inv [OF assms] by auto

theorem tls13_stage_closed_form_witness:
  "stage (fst (run_encrypted HandshakeInfo_new
     [Direction.ServerToClient, Direction.ServerToClient, Direction.ClientToServer]))
   = HandshakeStage.ClientFinished"
  using tls13_stage_closed_form [of HandshakeInfo_new
    "[Direction.ServerToClient, Direction.ServerToClient, Direction.ClientToServer]"]
  by (simp add: is_tls12_def HandshakeInfo_new_def flight_stage_def flight_rest_def flight_after_def)

section \<open>What the timeline shows of a handshake message\<close>

text \<open>
  A decodable \<open>ServerHello\<close> is shown as \<open>HelloRetryRequest\<close> exactly when its random is the
  value RFC 8446 reserves for it, and as \<open>ServerHello\<close> otherwise, with every field it carried.
\<close>

theorem hello_retry_recognised:
  assumes "wf_server_hello_fields sh" and "wf_extensions (sh_extensions sh)"
  shows "decode_handshake_body (encode_server_hello sh @ rest) =
    Some (if sh_random sh = HELLO_RETRY_REQUEST_RANDOM then DecodedHandshake.HelloRetryRequest sh
          else DecodedHandshake.ServerHello sh)"
proof -
  obtain tail where "encode_server_hello sh @ rest = 2 # tail"
    by (simp add: encode_server_hello_def enc_header_def)
  then show ?thesis
    using decode_encoded_server_hello [OF assms, of rest]
    by (simp add: decode_handshake_body_def is_hello_retry_request_def)
qed

theorem hello_retry_recognised_witness:
  "decode_handshake_body (encode_server_hello
     \<lparr>sh_legacy_version = 0x0303, sh_random = HELLO_RETRY_REQUEST_RANDOM, sh_session_id_echo = [],
      sh_cipher_suite = known_suite 0x1301, sh_compression_method = 0, sh_extensions = []\<rparr> @ [])
   = Some (DecodedHandshake.HelloRetryRequest
     \<lparr>sh_legacy_version = 0x0303, sh_random = HELLO_RETRY_REQUEST_RANDOM, sh_session_id_echo = [],
      sh_cipher_suite = known_suite 0x1301, sh_compression_method = 0, sh_extensions = []\<rparr>)"
  using hello_retry_recognised [of "\<lparr>sh_legacy_version = 0x0303,
      sh_random = HELLO_RETRY_REQUEST_RANDOM, sh_session_id_echo = [],
      sh_cipher_suite = known_suite 0x1301, sh_compression_method = 0, sh_extensions = []\<rparr>" "[]"]
  by (simp add: wf_server_hello_fields_def wf_extensions_def known_suite_def
      HELLO_RETRY_REQUEST_RANDOM_def)

text \<open>
  A handshake message the timeline cannot decode is kept whole: \<open>raw\<close> is the entire record
  payload, its four-byte header included, and \<open>msg_type\<close> its first byte (0 for no bytes).
\<close>

theorem undecoded_body_whole:
  assumes "decode_handshake_body bs = Some (DecodedHandshake.Unknown t r)"
  shows "r = bs \<and> (case bs of [] \<Rightarrow> t = 0 | b # _ \<Rightarrow> t = b)"
proof (cases bs)
  case (Cons b tail)
  obtain rc rs where "decode_client_hello bs = Some rc" "decode_server_hello bs = Some rs"
    using decode_client_hello_total decode_server_hello_total by blast
  with assms show ?thesis
    by (cases rc; cases rs) (auto simp: Cons decode_handshake_body_def split: if_splits)
qed (use assms in \<open>simp add: decode_handshake_body_def\<close>)

theorem undecoded_body_whole_witness:
  "decode_handshake_body [11, 0, 0, 1, 0] = Some (DecodedHandshake.Unknown 11 [11, 0, 0, 1, 0])
   \<and> [11, 0, 0, 1, 0] \<noteq> drop 4 [11, 0, 0, 1, 0 :: u8]"
proof -
  have run: "decode_handshake_body [11, 0, 0, 1, 0] = Some (DecodedHandshake.Unknown 11 [11, 0, 0, 1, 0])"
    by (simp add: decode_handshake_body_def)
  from undecoded_body_whole [OF this] show ?thesis using run by simp
qed

section \<open>The negotiated version\<close>

lemma walk_extensions_keeps:
  assumes "walk_extensions tp visit s bs = Some s'" and "P s"
    and "\<And>s e s'. P s \<Longrightarrow> visit s e = Some s' \<Longrightarrow> P s'"
  shows "P s'"
proof -
  have "(\<forall>s e s'. P s \<longrightarrow> visit s e = Some s' \<longrightarrow> P s') \<longrightarrow> P s \<longrightarrow> P s'"
    using assms(1)
  proof (rule walk_extensions.raw_induct [rotated])
    fix walk :: "tls_parser \<Rightarrow> ('a \<Rightarrow> TlsExtension \<Rightarrow> 'a exec) \<Rightarrow> 'a \<Rightarrow> bytes \<Rightarrow> 'a exec"
      and tp visit s remaining s'
    assume IH: "\<And>tp visit s bs y. walk tp visit s bs = Some y \<Longrightarrow>
        (\<forall>s e s'. P s \<longrightarrow> visit s e = Some s' \<longrightarrow> P s') \<longrightarrow> P s \<longrightarrow> P y"
      and run: "(if remaining = [] then Some s
        else case parse_tls_extension tp remaining of Inl _ \<Rightarrow> Some s
        | Inr (rest, ext) \<Rightarrow> Option.bind (visit s ext) (\<lambda>s'. walk tp visit s' rest)) = Some s'"
    show "(\<forall>s e s'. P s \<longrightarrow> visit s e = Some s' \<longrightarrow> P s') \<longrightarrow> P s \<longrightarrow> P s'"
    proof (intro impI)
      assume keep: "\<forall>s e s'. P s \<longrightarrow> visit s e = Some s' \<longrightarrow> P s'" and s: "P s"
      show "P s'"
      proof (cases "s' = s")
        case False
        then obtain rest ext s1 where "visit s ext = Some s1" and "walk tp visit s1 rest = Some s'"
          using run by (auto split: if_splits sum.splits simp: bind_eq_Some_conv)
        with IH keep s show ?thesis by blast
      qed (use s in simp)
    qed
  qed
  with assms(2,3) show ?thesis by blast
qed

lemma extract_server_hello_version:
  assumes "extract_server_hello tp sh = Some i"
  shows "shi_tls_version i \<noteq> None"
proof (cases "tsh_ext sh")
  case (Some bs)
  have keep: "shi_tls_version i' \<noteq> None"
    if "shi_tls_version s \<noteq> None" "apply_server_extension s e = Some i'" for s e i'
    using that by (cases "(s, e)" rule: apply_server_extension.cases)
      (auto simp: bind_eq_Some_conv split: list.splits)
  have run: "walk_extensions tp apply_server_extension
      \<lparr>shi_tls_version = Some (TlsVersion_from_u16 (tsh_version sh)),
       shi_cipher_suite_selected = Some (CipherSuite_from_u16 (tsh_cipher sh)),
       shi_key_share_group = None, shi_alpn_selected = None\<rparr> bs = Some i"
    using assms Some by (simp add: extract_server_hello_def)
  show ?thesis
    by (rule walk_extensions_keeps [OF run]) (simp, rule keep)
qed (use assms in \<open>auto simp: extract_server_hello_def\<close>)

text \<open>
  The version a \<open>ServerHello\<close> negotiates is kept: applying one sets the version (the
  \<open>supported_versions\<close> value when it has one) and the stage, and a \<open>ClientHello\<close> applied later
  cannot replace that version.
\<close>

theorem negotiated_version_kept:
  assumes "apply_message tp hs Direction.ServerToClient (TlsMessageHandshake.ServerHello sh) = Some hs1"
  shows "stage hs1 = HandshakeStage.ServerHello \<and> tls_version hs1 \<noteq> None
    \<and> (\<forall>ch hs2. apply_message tp hs1 Direction.ClientToServer (TlsMessageHandshake.ClientHello ch)
          = Some hs2 \<longrightarrow> tls_version hs2 = tls_version hs1)"
proof -
  obtain i where i: "extract_server_hello tp sh = Some i" and hs1: "hs1 = merge_server_hello hs i"
    using assms by auto
  obtain v where "shi_tls_version i = Some v"
    using extract_server_hello_version [OF i] by blast
  then have v: "tls_version hs1 = Some v" "stage hs1 = HandshakeStage.ServerHello"
    by (simp_all add: hs1 merge_server_hello_def or_else_def)
  have "tls_version (merge_client_hello hs1 ci) = Some v" for ci
    using v by (simp add: merge_client_hello_def or_else_def split: option.split)
  with v show ?thesis by auto
qed

theorem negotiated_version_kept_witness:
  "\<exists>hs1. apply_message sample_parser HandshakeInfo_new Direction.ServerToClient
      (TlsMessageHandshake.ServerHello \<lparr>tsh_version = 0x0303, tsh_cipher = 0x1301, tsh_ext = None\<rparr>)
    = Some hs1 \<and> tls_version hs1 \<noteq> None"
proof -
  obtain hs1 where run: "apply_message sample_parser HandshakeInfo_new Direction.ServerToClient
      (TlsMessageHandshake.ServerHello \<lparr>tsh_version = 0x0303, tsh_cipher = 0x1301, tsh_ext = None\<rparr>)
    = Some hs1"
    by (simp add: extract_server_hello_def)
  from negotiated_version_kept [OF run] run show ?thesis by blast
qed

text \<open>
  Retransmitted hellos are harmless: merging the same \<open>ClientHello\<close> or \<open>ServerHello\<close> twice
  gives what merging it once gives, and a field a second \<open>ClientHello\<close> leaves out keeps its
  earlier value.
\<close>

theorem hello_merge_idempotent:
  "merge_client_hello (merge_client_hello hs ci) ci = merge_client_hello hs ci
   \<and> merge_server_hello (merge_server_hello hs si) si = merge_server_hello hs si
   \<and> (chi_sni ci = None \<longrightarrow> sni (merge_client_hello hs ci) = sni hs)
   \<and> (chi_alpn_offered ci = [] \<longrightarrow> alpn_offered (merge_client_hello hs ci) = alpn_offered hs)
   \<and> (tls_version hs \<noteq> None \<longrightarrow> tls_version (merge_client_hello hs ci) = tls_version hs)"
  by (auto simp: merge_client_hello_def merge_server_hello_def or_else_def split: option.splits)

theorem hello_merge_idempotent_witness:
  "sni (merge_client_hello (HandshakeInfo_new\<lparr>sni := Some ''a.example''\<rparr>)
      \<lparr>chi_sni = None, chi_alpn_offered = [], chi_cipher_suites = [], chi_groups_offered = [],
       chi_key_share_group = None, chi_max_version = None\<rparr>) = Some ''a.example''"
  using hello_merge_idempotent [of "HandshakeInfo_new\<lparr>sni := Some ''a.example''\<rparr>"
    "\<lparr>chi_sni = None, chi_alpn_offered = [], chi_cipher_suites = [], chi_groups_offered = [],
       chi_key_share_group = None, chi_max_version = None\<rparr>"] by simp

section \<open>ChangeCipherSpec\<close>

lemma push_record_event_stopped:
  "stop_logging conn \<Longrightarrow> push_record_event conn rec dir now_ms = Some conn"
  by (simp add: push_record_event_def)

lemma push_record_event_logs:
  assumes "\<not> stop_logging conn" and "length (records (tc_state conn)) < RECORD_LOG_CAP"
    and "build_body rec dir (conn\<lparr>seq_counter := u32_saturating_add (seq_counter conn) 1\<rparr>) = Some b"
  shows "\<exists>e. push_record_event conn rec dir now_ms =
      Some (conn\<lparr>seq_counter := u32_saturating_add (seq_counter conn) 1,
        tc_state := (tc_state conn)\<lparr>records := records (tc_state conn) @ [e]\<rparr>\<rparr>)
    \<and> body e = b \<and> direction e = to_record_direction dir \<and> timestamp_ms e = now_ms"
  using assms by (auto simp: push_record_event_def Let_def)

text \<open>
  C21. Once a \<open>ChangeCipherSpec\<close> was seen in each direction, the first \<open>application_data\<close> record
  stops the log for good, and neither it nor any later record of any type and direction is
  logged. The TLS version plays no part in this: a TLS 1.3 connection in middlebox
  compatibility mode, whose Finished messages are such records, never has them logged.
\<close>

theorem both_ccs_stop_log:
  assumes "both_ccs conn" and "or_record_type rec = TlsRecordType.ApplicationData"
    and "ingest_record tp dir now_ms conn rec = Some conn1"
    and "ingest_record tp dir' now_ms' conn1 rec' = Some conn2"
  shows "records (tc_state conn1) = records (tc_state conn) \<and> stop_logging conn1
    \<and> records (tc_state conn2) = records (tc_state conn) \<and> stop_logging conn2"
proof -
  have 1: "records (tc_state conn1) = records (tc_state conn) \<and> stop_logging conn1"
    using assms(1-3)
    by (auto simp: ingest_record_def ingest_application_data_def Let_def split_def both_ccs_def
        set_handshake_def push_record_event_stopped)
  then have "records (tc_state conn2) = records (tc_state conn1) \<and> stop_logging conn2"
    using assms(4)
    by (cases dir')
       (auto simp: ingest_record_def ingest_application_data_def ingest_handshake_def ingest_ccs_def
        Let_def split_def both_ccs_def set_handshake_def push_record_event_stopped bind_eq_Some_conv
        split: TlsRecordType.splits if_splits)
  with 1 show ?thesis by simp
qed

theorem both_ccs_stop_log_witness:
  "\<exists>c1 c2. ingest_record sample_parser Direction.ClientToServer 5
       ((new_connection (canonical (V4 1) 50000 (V4 2) 443) 0)
          \<lparr>client_ccs_seen := True, server_ccs_seen := True\<rparr>)
       \<lparr>or_record_type = TlsRecordType.ApplicationData, or_legacy_version = 0x0303,
        or_payload = [1, 2]\<rparr> = Some c1
     \<and> ingest_record sample_parser Direction.ServerToClient 6 c1
       \<lparr>or_record_type = TlsRecordType.Handshake, or_legacy_version = 0x0303,
        or_payload = [2]\<rparr> = Some c2
     \<and> records (tc_state c2) = [] \<and> stop_logging c2"
proof -
  let ?c = "(new_connection (canonical (V4 1) 50000 (V4 2) 443) 0)
      \<lparr>client_ccs_seen := True, server_ccs_seen := True\<rparr>"
  let ?r1 = "\<lparr>or_record_type = TlsRecordType.ApplicationData, or_legacy_version = 0x0303,
      or_payload = [1, 2]\<rparr>"
  let ?r2 = "\<lparr>or_record_type = TlsRecordType.Handshake, or_legacy_version = 0x0303, or_payload = [2]\<rparr>"
  obtain c1 where 1: "ingest_record sample_parser Direction.ClientToServer 5 ?c ?r1 = Some c1"
    using ingest_record_total [OF consuming_sample_parser] by blast
  obtain c2 where 2: "ingest_record sample_parser Direction.ServerToClient 6 c1 ?r2 = Some c2"
    using ingest_record_total [OF consuming_sample_parser] by blast
  have "both_ccs ?c" "records (tc_state ?c) = []"
    by (simp_all add: both_ccs_def new_connection_def)
  with both_ccs_stop_log [OF _ _ 1 2] 1 2 show ?thesis by auto
qed

text \<open>
  C22. After a \<open>ChangeCipherSpec\<close> from one side, no handshake record of that side changes what
  is known of the handshake, and each is logged, if logged at all, as encrypted. So in TLS 1.3
  the second \<open>ClientHello\<close> and the real \<open>ServerHello\<close> after a \<open>HelloRetryRequest\<close> with
  compatibility records are never read.
\<close>

theorem post_ccs_handshake_ignored:
  assumes "post_ccs conn dir" and "or_record_type rec = TlsRecordType.Handshake"
    and "ingest_record tp dir now_ms conn rec = Some conn'"
  shows "handshake (tc_state conn') = handshake (tc_state conn)
    \<and> (\<forall>e \<in> set (drop (length (records (tc_state conn))) (records (tc_state conn'))).
         body e = RecordBody.EncryptedHandshake (post_ccs_handshake_label dir conn)
                    (take CIPHERTEXT_PREVIEW_LEN (or_payload rec)))"
proof -
  obtain c1 where push: "push_record_event conn rec dir now_ms = Some c1"
    and conn': "tc_state conn' = tc_state c1"
    using assms
    by (cases dir) (auto simp: ingest_record_def ingest_handshake_def Let_def bind_eq_Some_conv)
  show ?thesis
  proof (cases "stop_logging conn \<or> RECORD_LOG_CAP \<le> length (records (tc_state conn))")
    case True
    with push conn' show ?thesis by (auto simp: push_record_event_def)
  next
    case False
    let ?c = "conn\<lparr>seq_counter := u32_saturating_add (seq_counter conn) 1\<rparr>"
    have "build_body rec dir ?c = Some (RecordBody.EncryptedHandshake (post_ccs_handshake_label dir conn)
        (take CIPHERTEXT_PREVIEW_LEN (or_payload rec)))"
      using assms(1,2) by (cases dir) (simp_all add: build_body_def Let_def min_def)
    with push_record_event_logs [of conn rec dir _ now_ms] False push conn' show ?thesis
      by auto
  qed
qed

theorem post_ccs_handshake_ignored_witness:
  "\<exists>c1. ingest_record sample_parser Direction.ClientToServer 5
       ((new_connection (canonical (V4 1) 50000 (V4 2) 443) 0)\<lparr>client_ccs_seen := True\<rparr>)
       \<lparr>or_record_type = TlsRecordType.Handshake, or_legacy_version = 0x0303,
        or_payload = [1, 0, 0, 0]\<rparr> = Some c1
     \<and> handshake (tc_state c1) = HandshakeInfo_new"
proof -
  let ?c = "(new_connection (canonical (V4 1) 50000 (V4 2) 443) 0)\<lparr>client_ccs_seen := True\<rparr>"
  let ?r = "\<lparr>or_record_type = TlsRecordType.Handshake, or_legacy_version = 0x0303,
      or_payload = [1, 0, 0, 0]\<rparr>"
  obtain c1 where 1: "ingest_record sample_parser Direction.ClientToServer 5 ?c ?r = Some c1"
    using ingest_record_total [OF consuming_sample_parser] by blast
  have "post_ccs ?c Direction.ClientToServer" "handshake (tc_state ?c) = HandshakeInfo_new"
    by (simp_all add: new_connection_def)
  with post_ccs_handshake_ignored [OF _ _ 1] 1 show ?thesis by auto
qed

section \<open>The end of a TLS 1.2 handshake\<close>

definition ingest_flight ::
  "tls_parser \<Rightarrow> u64 \<Rightarrow> TrackedConnection \<Rightarrow> (Direction \<times> OwnedRecord) list \<Rightarrow> TrackedConnection exec" where
  "ingest_flight tp now_ms = fold_exec (\<lambda>conn (dir, rec). ingest_record tp dir now_ms conn rec)"

definition ccs_record :: OwnedRecord where
  "ccs_record = \<lparr>or_record_type = TlsRecordType.ChangeCipherSpec, or_legacy_version = 0x0303,
                 or_payload = [1]\<rparr>"

definition encrypted_handshake_record :: "bytes \<Rightarrow> OwnedRecord" where
  "encrypted_handshake_record bs = \<lparr>or_record_type = TlsRecordType.Handshake,
     or_legacy_version = 0x0303, or_payload = bs\<rparr>"

text \<open>What the log and the labels read of a connection.\<close>

lemma ccs_step:
  assumes "\<not> stop_logging conn" and "length (records (tc_state conn)) < RECORD_LOG_CAP"
  shows "\<exists>conn'. ingest_record tp dir now_ms conn ccs_record = Some conn'
    \<and> handshake (tc_state conn') = apply_ccs (handshake (tc_state conn)) dir
    \<and> \<not> stop_logging conn'
    \<and> client_ccs_seen conn' = (client_ccs_seen conn \<or> dir = Direction.ClientToServer)
    \<and> server_ccs_seen conn' = (server_ccs_seen conn \<or> dir = Direction.ServerToClient)
    \<and> post_ccs_records_from_client conn' = post_ccs_records_from_client conn
    \<and> post_ccs_records_from_server conn' = post_ccs_records_from_server conn
    \<and> map body (records (tc_state conn')) =
        map body (records (tc_state conn)) @ [RecordBody.ChangeCipherSpec]"
  using assms
  by (cases dir) (simp_all add: ingest_record_def ccs_record_def ingest_ccs_def push_record_event_def
      set_handshake_def build_body_def Let_def)

lemma finished_step:
  assumes "\<not> stop_logging conn" and "length (records (tc_state conn)) < RECORD_LOG_CAP"
    and "post_ccs conn dir"
  shows "\<exists>conn'. ingest_record tp dir now_ms conn (encrypted_handshake_record bs) = Some conn'
    \<and> handshake (tc_state conn') = handshake (tc_state conn)
    \<and> stop_logging conn' = both_ccs conn
    \<and> client_ccs_seen conn' = client_ccs_seen conn
    \<and> server_ccs_seen conn' = server_ccs_seen conn
    \<and> post_ccs_records_from_client conn' = post_ccs_records_from_client conn
         + (if dir = Direction.ClientToServer then 1 else 0)
    \<and> post_ccs_records_from_server conn' = post_ccs_records_from_server conn
         + (if dir = Direction.ServerToClient then 1 else 0)
    \<and> map body (records (tc_state conn')) = map body (records (tc_state conn)) @
        [RecordBody.EncryptedHandshake (post_ccs_handshake_label dir conn)
           (take CIPHERTEXT_PREVIEW_LEN bs)]"
  using assms
  by (cases dir) (simp_all add: ingest_record_def encrypted_handshake_record_def ingest_handshake_def
      push_record_event_def build_body_def Let_def both_ccs_def min_def)

text \<open>
  C15. The end of a full TLS 1.2 handshake: from the client's key exchange on, with room in the
  log, the two \<open>ChangeCipherSpec\<close> records and the two encrypted Finished records advance the
  stage to \<open>ServerFinished\<close>, are logged as exactly these four events with these labels and the
  first 64 ciphertext bytes, and logging then stops.
\<close>

theorem tls12_completion:
  assumes "stage (handshake (tc_state conn)) = HandshakeStage.ClientKeyExchange"
    and "\<not> client_ccs_seen conn" and "\<not> server_ccs_seen conn" and "\<not> stop_logging conn"
    and "post_ccs_records_from_client conn = 0" and "post_ccs_records_from_server conn = 0"
    and "length (records (tc_state conn)) + 4 \<le> RECORD_LOG_CAP"
  shows "\<exists>conn'. ingest_flight tp now_ms conn
      [(Direction.ClientToServer, ccs_record), (Direction.ClientToServer, encrypted_handshake_record p),
       (Direction.ServerToClient, ccs_record), (Direction.ServerToClient, encrypted_handshake_record q)]
      = Some conn'
    \<and> stage (handshake (tc_state conn')) = HandshakeStage.ServerFinished \<and> stop_logging conn'
    \<and> map body (records (tc_state conn')) = map body (records (tc_state conn)) @
        [RecordBody.ChangeCipherSpec,
         RecordBody.EncryptedHandshake ''encrypted Finished (client)'' (take 64 p),
         RecordBody.ChangeCipherSpec,
         RecordBody.EncryptedHandshake ''encrypted NewSessionTicket or Finished (server)'' (take 64 q)]"
proof -
  have room: "length (records (tc_state c)) < RECORD_LOG_CAP"
    if "map body (records (tc_state c)) = map body (records (tc_state conn)) @ bs" "length bs < 4"
    for c bs
    using arg_cong [OF that(1), of length] that(2) assms(7) by simp
  obtain c1 where 1: "ingest_record tp Direction.ClientToServer now_ms conn ccs_record = Some c1"
    "stage (handshake (tc_state c1)) = HandshakeStage.ClientFinished" "\<not> stop_logging c1"
    "client_ccs_seen c1" "\<not> server_ccs_seen c1" "post_ccs_records_from_client c1 = 0"
    "post_ccs_records_from_server c1 = 0"
    "map body (records (tc_state c1)) = map body (records (tc_state conn)) @ [RecordBody.ChangeCipherSpec]"
    using ccs_step [OF assms(4), of tp Direction.ClientToServer now_ms] assms by auto
  obtain c2 where 2: "ingest_record tp Direction.ClientToServer now_ms c1
      (encrypted_handshake_record p) = Some c2"
    "stage (handshake (tc_state c2)) = HandshakeStage.ClientFinished" "\<not> stop_logging c2"
    "client_ccs_seen c2" "\<not> server_ccs_seen c2" "post_ccs_records_from_server c2 = 0"
    "map body (records (tc_state c2)) = map body (records (tc_state conn)) @
       [RecordBody.ChangeCipherSpec,
        RecordBody.EncryptedHandshake ''encrypted Finished (client)'' (take 64 p)]"
    using finished_step [OF 1(3) room [OF 1(8)], of Direction.ClientToServer tp now_ms p] 1
    by (auto simp: both_ccs_def CIPHERTEXT_PREVIEW_LEN_def)
  obtain c3 where 3: "ingest_record tp Direction.ServerToClient now_ms c2 ccs_record = Some c3"
    "stage (handshake (tc_state c3)) = HandshakeStage.ServerFinished" "\<not> stop_logging c3"
    "client_ccs_seen c3" "server_ccs_seen c3" "post_ccs_records_from_server c3 = 0"
    "map body (records (tc_state c3)) = map body (records (tc_state conn)) @
       [RecordBody.ChangeCipherSpec,
        RecordBody.EncryptedHandshake ''encrypted Finished (client)'' (take 64 p),
        RecordBody.ChangeCipherSpec]"
    using ccs_step [OF 2(3) room [OF 2(7)], of tp Direction.ServerToClient now_ms] 2 by auto
  obtain c4 where "ingest_record tp Direction.ServerToClient now_ms c3
      (encrypted_handshake_record q) = Some c4"
    "stage (handshake (tc_state c4)) = HandshakeStage.ServerFinished" "stop_logging c4"
    "map body (records (tc_state c4)) = map body (records (tc_state conn)) @
       [RecordBody.ChangeCipherSpec,
        RecordBody.EncryptedHandshake ''encrypted Finished (client)'' (take 64 p),
        RecordBody.ChangeCipherSpec,
        RecordBody.EncryptedHandshake ''encrypted NewSessionTicket or Finished (server)'' (take 64 q)]"
    using finished_step [OF 3(3) room [OF 3(7)], of Direction.ServerToClient tp now_ms q] 3
    by (auto simp: both_ccs_def CIPHERTEXT_PREVIEW_LEN_def)
  with 1(1) 2(1) 3(1) show ?thesis
    by (simp add: ingest_flight_def)
qed

theorem tls12_completion_witness:
  "\<exists>conn'. ingest_flight sample_parser 9
      (set_handshake (new_connection (canonical (V4 1) 50000 (V4 2) 443) 0)
         (HandshakeInfo_new\<lparr>stage := HandshakeStage.ClientKeyExchange, tls_version := Some Tls12\<rparr>))
      [(Direction.ClientToServer, ccs_record),
       (Direction.ClientToServer, encrypted_handshake_record [7]),
       (Direction.ServerToClient, ccs_record),
       (Direction.ServerToClient, encrypted_handshake_record [8])] = Some conn'
    \<and> stage (handshake (tc_state conn')) = HandshakeStage.ServerFinished \<and> stop_logging conn'"
  using tls12_completion [of "set_handshake (new_connection (canonical (V4 1) 50000 (V4 2) 443) 0)
      (HandshakeInfo_new\<lparr>stage := HandshakeStage.ClientKeyExchange, tls_version := Some Tls12\<rparr>)"
      sample_parser 9 "[7]" "[8]"]
  by (auto simp: set_handshake_def new_connection_def RECORD_LOG_CAP_def)

end
