(* ===== verification/Tracker_Invariant.thy ===== *)
theory Tracker_Invariant
  imports Tracker
begin

text \<open>
  What holds of a tracker at every moment, and what one call changes: the invariant of a
  tracked connection and its preservation, the record log as a faithful copy of the wire,
  independence of TCP segmentation, the frame of \<open>ingest\<close>, origin attribution and eviction.
\<close>

section \<open>How a connection evolves\<close>

text \<open>
  A logged event carries a record the wire can carry, byte for byte, of one of the three types
  that are logged.
\<close>

definition logged_record :: "RecordEvent \<Rightarrow> TlsRecord \<Rightarrow> bool" where
  "logged_record e r \<longleftrightarrow> wf_record r \<and> raw e = wire r \<and> outer_type e = record_type r
     \<and> unat (outer_length e) = length (payload r)
     \<and> record_type r \<in> {TlsRecordType.Handshake, TlsRecordType.ApplicationData,
                        TlsRecordType.ChangeCipherSpec}"

definition log_ok :: "TrackedConnection \<Rightarrow> bool" where
  "log_ok conn \<longleftrightarrow>
     length (records (tc_state conn)) \<le> RECORD_LOG_CAP
     \<and> seq_counter conn = word_of_nat (length (records (tc_state conn)))
     \<and> map (unat \<circ> sequence) (records (tc_state conn)) = [1..<Suc (length (records (tc_state conn)))]
     \<and> (\<forall>e\<in>set (records (tc_state conn)). \<exists>r. logged_record e r)"

text \<open>
  \<open>evolves conn conn'\<close>: identity and buffers are kept, the log only grows at its end and not at
  all once it was stopped, the flags are never reset, and the log stays well formed.
\<close>

definition evolves :: "TrackedConnection \<Rightarrow> TrackedConnection \<Rightarrow> bool" where
  "evolves conn conn' \<longleftrightarrow>
     cs_key (tc_state conn') = cs_key (tc_state conn)
     \<and> first_seen_ms (tc_state conn') = first_seen_ms (tc_state conn)
     \<and> last_seen_ms (tc_state conn') = last_seen_ms (tc_state conn)
     \<and> client_to_server_buf conn' = client_to_server_buf conn
     \<and> server_to_client_buf conn' = server_to_client_buf conn
     \<and> (\<exists>new. records (tc_state conn') = records (tc_state conn) @ new
          \<and> (stop_logging conn \<longrightarrow> new = []))
     \<and> (stop_logging conn \<longrightarrow> stop_logging conn')
     \<and> (client_ccs_seen conn \<longrightarrow> client_ccs_seen conn')
     \<and> (server_ccs_seen conn \<longrightarrow> server_ccs_seen conn')
     \<and> (log_ok conn \<longrightarrow> log_ok conn')"

lemma evolves_refl [intro, simp]: "evolves conn conn"
  by (simp add: evolves_def)

lemma evolves_trans: "evolves a b \<Longrightarrow> evolves b c \<Longrightarrow> evolves a c"
  unfolding evolves_def by (elim conjE exE, intro conjI) auto

lemma log_ok_cong:
  "records (tc_state conn') = records (tc_state conn) \<Longrightarrow> seq_counter conn' = seq_counter conn
     \<Longrightarrow> log_ok conn' = log_ok conn"
  by (simp add: log_ok_def)

lemma evolves_handshake: "evolves conn (set_handshake conn hs)"
  by (simp add: evolves_def set_handshake_def log_ok_def)

lemma evolves_mark: "evolves conn (mark_ccs conn dir)"
  by (cases dir) (simp_all add: evolves_def log_ok_def)

lemma evolves_count: "evolves conn (count_post_ccs conn dir)"
  by (cases dir) (simp_all add: evolves_def log_ok_def)

lemma evolves_stop: "evolves conn (conn\<lparr>stop_logging := True\<rparr>)"
  by (simp add: evolves_def log_ok_def)

lemma evolves_counters:
  "evolves conn (conn\<lparr>encrypted_records_from_server := a, encrypted_records_from_client := b,
     saw_client_finished_marker := m\<rparr>)"
  by (simp add: evolves_def log_ok_def)

lemma saturating_next:
  "n < 64 \<Longrightarrow> u32_saturating_add (word_of_nat n) 1 = word_of_nat (Suc n)"
  by (simp add: u32_saturating_add_def unat_of_nat_u32 add.commute)

lemma evolves_push:
  assumes push: "push_record_event conn (own r) dir now_ms = Some conn'"
    and wf: "wf_record r"
    and ty: "record_type r \<in> {TlsRecordType.Handshake, TlsRecordType.ApplicationData,
      TlsRecordType.ChangeCipherSpec}"
  shows "evolves conn conn'"
proof (cases "stop_logging conn \<or> RECORD_LOG_CAP \<le> length (records (tc_state conn))")
  case True
  with push show ?thesis by (auto simp: push_record_event_def)
next
  case False
  let ?n = "length (records (tc_state conn))"
  let ?seq = "u32_saturating_add (seq_counter conn) 1"
  let ?len = "word_of_nat (length (payload r)) :: u16"
  from wf have len: "length (payload r) < 65536"
    by (simp add: wf_record_def MAX_RECORD_PAYLOAD_def)
  obtain b where conn': "conn' = conn\<lparr>seq_counter := ?seq,
      tc_state := (tc_state conn)\<lparr>records := records (tc_state conn) @
        [\<lparr>direction = to_record_direction dir, timestamp_ms = now_ms, sequence = ?seq,
          outer_type = record_type r, outer_length = ?len, raw = wire r, body = b\<rparr>]\<rparr>\<rparr>"
    using push False len
    by (auto simp: push_record_event_def Let_def own_def u16_try_from_def wire_def bind_eq_Some_conv)
  have "log_ok conn'" if ok: "log_ok conn"
  proof -
    have n: "?n < 64" using False by (simp add: RECORD_LOG_CAP_def)
    then have seq: "?seq = word_of_nat (Suc ?n)" and "unat (word_of_nat (Suc ?n) :: u32) = Suc ?n"
      using ok saturating_next [OF n] by (simp_all only: log_ok_def, intro unat_of_nat_u32, simp)
    moreover have "logged_record \<lparr>direction = to_record_direction dir, timestamp_ms = now_ms,
        sequence = ?seq, outer_type = record_type r, outer_length = ?len, raw = wire r, body = b\<rparr> r"
      using wf ty len by (simp add: logged_record_def unat_of_nat_u16)
    ultimately show ?thesis
      using ok n unfolding log_ok_def conn' by (auto simp: RECORD_LOG_CAP_def)
  qed
  then show ?thesis
    using False unfolding evolves_def conn' by auto
qed

section \<open>The contract of a record handler\<close>

text \<open>
  What the record loop of \<open>ingest\<close> relies on: a handler moves a connection along a preorder
  \<open>R\<close>. The loop over the records of a segment then does, too.
\<close>

locale record_handler =
  fixes handle :: "TrackedConnection \<Rightarrow> OwnedRecord \<Rightarrow> TrackedConnection exec"
    and R :: "TrackedConnection \<Rightarrow> TrackedConnection \<Rightarrow> bool"
  assumes R_refl: "R conn conn"
    and R_trans: "R a b \<Longrightarrow> R b c \<Longrightarrow> R a c"
    and handle_R: "wf_record r \<Longrightarrow> handle conn (own r) = Some conn' \<Longrightarrow> R conn conn'"
begin

lemma loop_R:
  assumes "list_all wf_record rs" and "fold_exec handle conn (map own rs) = Some conn'"
  shows "R conn conn'"
proof (rule fold_exec_rel [OF assms(2), where P = "\<lambda>rec. \<exists>r. rec = own r \<and> wf_record r"])
  show "list_all (\<lambda>rec. \<exists>r. rec = own r \<and> wf_record r) (map own rs)"
    using assms(1) by (auto simp: list_all_iff)
qed (use handle_R R_refl R_trans in blast)+

end

lemma ingest_handshake_evolves:
  assumes "wf_record r" and ty: "record_type r = TlsRecordType.Handshake"
    and run: "ingest_handshake tp dir now_ms conn (own r) = Some conn'"
  shows "evolves conn conn'"
proof -
  obtain c1 c2 where c1: "c1 = conn \<or> (\<exists>hs. c1 = set_handshake conn hs)"
    and c2: "push_record_event c1 (own r) dir now_ms = Some c2"
    and c3: "conn' = c2 \<or> conn' = count_post_ccs c2 dir
      \<or> conn' = (count_post_ccs c2 dir)\<lparr>stop_logging := True\<rparr>"
    using run by (auto simp: ingest_handshake_def Let_def bind_eq_Some_conv split: if_splits)
  have "evolves conn c1"
    using c1 evolves_handshake by auto
  moreover have "evolves c1 c2"
    using evolves_push [OF c2] assms by simp
  moreover have "evolves c2 conn'"
    using c3 evolves_count evolves_stop evolves_trans by blast
  ultimately show ?thesis using evolves_trans by blast
qed

lemma ingest_application_data_evolves:
  assumes "wf_record r" and ty: "record_type r = TlsRecordType.ApplicationData"
    and run: "ingest_application_data dir now_ms conn (own r) = Some conn'"
  shows "evolves conn conn'"
proof -
  obtain hs a b m where upd: "apply_encrypted_record (handshake (tc_state conn))
      (encrypted_records_from_server conn) (encrypted_records_from_client conn)
      (saw_client_finished_marker conn) dir = (hs, a, b, m)"
    by (metis prod_cases4)
  let ?c0 = "(set_handshake conn hs)\<lparr>encrypted_records_from_server := a,
      encrypted_records_from_client := b, saw_client_finished_marker := m\<rparr>"
  let ?c1 = "if 2 \<le> encrypted_records_from_client ?c0 then ?c0\<lparr>stop_logging := True\<rparr> else ?c0"
  let ?c2 = "if both_ccs ?c1 then ?c1\<lparr>stop_logging := True\<rparr> else ?c1"
  have push: "push_record_event ?c2 (own r) dir now_ms = Some conn'"
    using run by (simp add: ingest_application_data_def upd Let_def)
  have "evolves conn ?c0"
    by (rule evolves_trans [OF evolves_handshake evolves_counters])
  moreover have "evolves ?c0 ?c1" "evolves ?c1 ?c2"
    using evolves_stop by simp_all
  moreover have "evolves ?c2 conn'"
    using evolves_push [OF push] assms by simp
  ultimately show ?thesis using evolves_trans by blast
qed

lemma ingest_ccs_evolves:
  assumes "wf_record r" and ty: "record_type r = TlsRecordType.ChangeCipherSpec"
    and run: "ingest_ccs dir now_ms conn (own r) = Some conn'"
  shows "evolves conn conn'"
  using evolves_push [OF run [unfolded ingest_ccs_def]] assms
    evolves_trans [OF evolves_handshake evolves_mark] evolves_trans
  by (metis insertCI)

interpretation tracked_records: record_handler "ingest_record tp dir now_ms" evolves for tp dir now_ms
proof unfold_locales
  fix a b c
  assume "evolves a b" and "evolves b c"
  then show "evolves a c" by (rule evolves_trans)
next
  fix r conn conn'
  assume wf: "wf_record r" and run: "ingest_record tp dir now_ms conn (own r) = Some conn'"
  have ty: "or_record_type (own r) = record_type r" by (simp add: own_def)
  show "evolves conn conn'"
    using run wf ingest_handshake_evolves ingest_application_data_evolves ingest_ccs_evolves
    unfolding ingest_record_def ty by (cases "record_type r") auto
qed simp

section \<open>The invariant\<close>

definition conn_ok :: "ConnectionKey \<Rightarrow> TrackedConnection \<Rightarrow> bool" where
  "conn_ok key conn \<longleftrightarrow> cs_key (tc_state conn) = key \<and> log_ok conn
     \<and> frame_head (client_to_server_buf conn) = Incomplete
     \<and> frame_head (server_to_client_buf conn) = Incomplete"

definition tracker_ok :: "'r ConnectionTracker \<Rightarrow> bool" where
  "tracker_ok t \<longleftrightarrow> hm_ok (connections t)
     \<and> (\<forall>key conn. hm_get (connections t) key = Some conn \<longrightarrow> conn_ok key conn)"

lemma conn_ok_new: "conn_ok key (new_connection key now_ms)"
  by (simp add: conn_ok_def new_connection_def log_ok_def RECORD_LOG_CAP_def)

lemma conn_ok_mark_errored: "conn_ok key (mark_errored msg conn) = conn_ok key conn"
  by (simp add: conn_ok_def mark_errored_def set_handshake_def log_ok_def)

lemma conn_ok_touch: "conn_ok key (touch now_ms conn) = conn_ok key conn"
  by (simp add: conn_ok_def touch_def log_ok_def)

lemma conn_ok_set_buf:
  "conn_ok key conn \<Longrightarrow> frame_head buf = Incomplete \<Longrightarrow> conn_ok key (set_buf dir buf conn)"
  by (cases dir) (simp_all add: conn_ok_def log_ok_def)

lemma conn_ok_evolves: "evolves conn conn' \<Longrightarrow> conn_ok key conn \<Longrightarrow> conn_ok key conn'"
  by (simp add: conn_ok_def evolves_def)

lemma dir_buf_incomplete: "conn_ok key conn \<Longrightarrow> frame_head (dir_buf dir conn) = Incomplete"
  by (cases dir) (simp_all add: conn_ok_def)

lemma segment_evolves:
  assumes "parse_spec (dir_buf dir conn @ seg) = Inr (rs, n)"
    and "length (dir_buf dir conn) + length seg \<le> MAX_REASSEMBLY_BYTES"
    and "ingest_segment tp dir seg now_ms conn = Some conn'"
  shows "evolves (set_buf dir (drop n (dir_buf dir conn @ seg)) conn) conn'"
  using assms parse_spec_sound [OF assms(1)]
    tracked_records.loop_R [of rs tp dir now_ms]
  by (simp add: ingest_segment_eq ingest_records_def)

lemma ingest_segment_ok:
  assumes ok: "conn_ok key conn" and run: "ingest_segment tp dir seg now_ms conn = Some conn'"
  shows "conn_ok key conn'"
proof (cases "MAX_REASSEMBLY_BYTES < length (dir_buf dir conn) + length seg")
  case True
  with run ok show ?thesis by (auto simp: ingest_segment_eq conn_ok_mark_errored)
next
  case False
  show ?thesis
  proof (cases "parse_spec (dir_buf dir conn @ seg)")
    case (Inl e)
    with False run have "conn' = set_buf dir [] (mark_errored (Error_to_string e) conn)"
      by (simp add: ingest_segment_eq)
    then show ?thesis
      using ok by (auto intro!: conn_ok_set_buf simp: conn_ok_mark_errored)
  next
    case (Inr p)
    then obtain rs n where p: "parse_spec (dir_buf dir conn @ seg) = Inr (rs, n)"
      by (cases p) simp
    have "conn_ok key (set_buf dir (drop n (dir_buf dir conn @ seg)) conn)"
      using parse_spec_sound [OF p] by (intro conn_ok_set_buf ok) blast
    with segment_evolves [OF p _ run] False show ?thesis
      by (auto intro: conn_ok_evolves)
  qed
qed

lemma ingest_entry_ok:
  assumes "tracker_ok t" and "ingest_entry resolve key a b now_ms t = Some (conn, r')"
  shows "conn_ok key conn"
proof (cases "hm_get (connections t) key")
  case None
  with assms(2) obtain hs where "conn = set_handshake (new_connection key now_ms) hs"
    by (auto simp: ingest_entry_def Let_def split_def bind_eq_Some_conv)
  then show ?thesis
    using conn_ok_evolves [OF evolves_handshake conn_ok_new] by simp
next
  case (Some c)
  with assms show ?thesis by (simp add: ingest_entry_def tracker_ok_def)
qed

lemma ingest_ok:
  assumes ok: "tracker_ok t" and run: "ingest tp resolve key dir a b seg now_ms t = Some (out, t')"
  shows "tracker_ok t'"
proof (cases "seg = []")
  case True
  with ok run show ?thesis by (simp add: ingest_def)
next
  case False
  obtain conn r' c where e: "ingest_entry resolve key a b now_ms t = Some (conn, r')"
    and c: "ingest_segment tp dir seg now_ms (touch now_ms conn) = Some c"
    and t': "t' = t\<lparr>connections := hm_insert key c (connections t), resolver := r'\<rparr>"
    by (rule ingest_insert [OF run False])
  have "conn_ok key c"
    using ingest_segment_ok [OF _ c] ingest_entry_ok [OF ok e] by (simp add: conn_ok_touch)
  with ok show ?thesis
    by (simp add: t' tracker_ok_def hm_insert_ok hm_get_insert)
qed

lemma evict_ok: "tracker_ok t \<Longrightarrow> tracker_ok (snd (evict_stale now_ms t))"
  by (auto simp: tracker_ok_def evict_stale_def Let_def hm.invar_retain hm.get_retain
      split: option.splits if_splits)

text \<open>The trackers a run can reach from an initial one, by segments and evictions in any order.\<close>

inductive reachable ::
  "tls_parser \<Rightarrow> 'r OriginResolver \<Rightarrow> 'r ConnectionTracker \<Rightarrow> 'r ConnectionTracker \<Rightarrow> bool"
  for tp :: tls_parser and resolve :: "'r OriginResolver" and t0 :: "'r ConnectionTracker"
  where
    start: "reachable tp resolve t0 t0"
  | segment: "reachable tp resolve t0 t \<Longrightarrow>
      ingest tp resolve key dir a b seg now_ms t = Some (out, t') \<Longrightarrow> reachable tp resolve t0 t'"
  | evict: "reachable tp resolve t0 t \<Longrightarrow> reachable tp resolve t0 (snd (evict_stale now_ms t))"

lemma tracker_ok_initial: "tracker_ok (with_stale_timeout r timeout)" "tracker_ok (with_resolver r)"
  by (simp_all add: tracker_ok_def with_stale_timeout_def with_resolver_def hm.invar_empty hm.get_empty)

lemma reachable_ok: "reachable tp resolve t0 t \<Longrightarrow> tracker_ok t0 \<Longrightarrow> tracker_ok t"
  by (induction rule: reachable.induct) (auto intro: ingest_ok evict_ok)

text \<open>A tracker with one connection, for the witnesses.\<close>

lemma sample_tracker:
  "\<exists>t conn. reachable sample_parser NullOriginResolver_resolve (with_stale_timeout () 9) t
     \<and> hm_get (connections t) (canonical (V4 1) 50000 (V4 2) 443) = Some conn"
proof -
  let ?key = "canonical (V4 1) 50000 (V4 2) 443" and ?init = "with_stale_timeout () 9"
  obtain conn r' where e: "ingest_entry NullOriginResolver_resolve ?key (V4 1, 50000) (V4 2, 443) 7 ?init
      = Some (conn, r')" using entry_total [OF null_answers.returning] by blast
  obtain c where c: "ingest_segment sample_parser Direction.ClientToServer [22] 7 (touch 7 conn) = Some c"
    using ingest_segment_total [OF consuming_sample_parser] by blast
  let ?t1 = "?init\<lparr>connections := hm_insert ?key c (connections ?init), resolver := r'\<rparr>"
  have "ingest sample_parser NullOriginResolver_resolve ?key Direction.ClientToServer
      (V4 1, 50000) (V4 2, 443) [22] 7 ?init = Some (Inr (Some (tc_state c)), ?t1)"
    by (simp add: ingest_def e c)
  then have "reachable sample_parser NullOriginResolver_resolve ?init ?t1"
    by (rule reachable.segment [OF reachable.start])
  moreover have "hm_get (connections ?t1) ?key = Some c"
    by (simp add: hm_get_insert)
  ultimately show ?thesis by blast
qed

lemma push_handshake:
  "push_record_event conn rec dir now_ms = Some conn' \<Longrightarrow>
     handshake (tc_state conn') = handshake (tc_state conn)"
  by (auto simp: push_record_event_def Let_def bind_eq_Some_conv split: if_splits)

lemma handshake_set [simp]: "handshake (tc_state (set_handshake conn hs)) = hs"
  by (simp add: set_handshake_def)

lemma handshake_mark_ccs [simp]: "handshake (tc_state (mark_ccs conn dir)) = handshake (tc_state conn)"
  by (cases dir) simp_all

lemma handshake_set_buf [simp]: "handshake (tc_state (set_buf dir buf conn)) = handshake (tc_state conn)"
  by (cases dir) simp_all

lemma parse_spec_oversize: "parse_spec bs = Inl e \<Longrightarrow> \<exists>n. e = oversize_error n"
proof (induction bs rule: parse_spec.induct)
  case (1 bs)
  show ?case
  proof (cases "frame_head bs")
    case (Full r)
    with 1(2) have "parse_spec (drop (record_len r) bs) = Inl e"
      by (subst (asm) parse_spec.simps) (auto split: sum.splits simp: map_sum_def)
    with 1(1) [OF Full] show ?thesis by blast
  qed (use 1(2) in auto)
qed

lemma segment_failure:
  assumes "ingest_segment tp dir seg now_ms conn = Some conn'"
    and "\<not> (\<exists>rs n. parse_spec (dir_buf dir conn @ seg) = Inr (rs, n)
      \<and> length (dir_buf dir conn) + length seg \<le> MAX_REASSEMBLY_BYTES)"
  shows "\<exists>msg. ascii msg \<and> handshake (tc_state conn') = (handshake (tc_state conn))
      \<lparr>stage := HandshakeStage.Errored, hs_error := Some msg\<rparr>"
proof -
  have "ascii (''reassembly buffer would exceed '' @ dec MAX_REASSEMBLY_BYTES @ '' bytes'')"
    unfolding ascii_append using ascii_dec by (simp add: ascii_def [of "_ # _"])
  moreover have "ascii (Error_to_string (oversize_error n))" for n
    unfolding oversize_error_def Error_to_string.simps ascii_append
    by (simp add: ascii_def [of "_ # _"])
  moreover have "conn' = mark_errored (''reassembly buffer would exceed '' @ dec MAX_REASSEMBLY_BYTES
        @ '' bytes'') conn
      \<or> (\<exists>n. conn' = set_buf dir [] (mark_errored (Error_to_string (oversize_error n)) conn))"
    using assms parse_spec_oversize by (auto simp: ingest_segment_eq split: if_splits sum.splits)
  ultimately obtain msg where "ascii msg"
    "conn' = mark_errored msg conn \<or> conn' = set_buf dir [] (mark_errored msg conn)"
    by blast
  then show ?thesis by (intro exI [of _ msg]) (auto simp: mark_errored_def)
qed

section \<open>What a handshake is made of\<close>

text \<open>
  Everything the tracker ever writes to the handshake of a connection is one of four steps: a
  decoded message, a \<open>ChangeCipherSpec\<close>, an encrypted record, an error of its own. A relation
  \<open>P\<close> that is a preorder and holds of each of the four then holds across a whole segment.
\<close>

locale handshake_moves =
  fixes tp :: tls_parser and P :: "HandshakeInfo \<Rightarrow> HandshakeInfo \<Rightarrow> bool"
  assumes P_refl: "P hs hs"
    and P_trans: "P a b \<Longrightarrow> P b c \<Longrightarrow> P a c"
    and P_message: "apply_message tp hs dir m = Some hs' \<Longrightarrow> P hs hs'"
    and P_ccs: "P hs (apply_ccs hs dir)"
    and P_encrypted: "P hs (fst (apply_encrypted_record hs from_server from_client marker dir))"
    and P_errored: "ascii msg \<Longrightarrow> P hs (hs\<lparr>stage := HandshakeStage.Errored, hs_error := Some msg\<rparr>)"
begin

lemma P_record:
  assumes "apply_handshake_record tp hs bs dir = Some hs'"
  shows "P hs hs'"
proof -
  have "p = tp \<longrightarrow> P h h'" if "apply_handshake_record p h bs dir = Some h'" for p h h'
    using that
  proof (rule apply_handshake_record.raw_induct [rotated])
    fix walk :: "tls_parser \<Rightarrow> HandshakeInfo \<Rightarrow> bytes \<Rightarrow> Direction \<Rightarrow> HandshakeInfo exec"
      and p hs remaining dir hs'
    assume IH: "\<And>p hs bs dir hs'. walk p hs bs dir = Some hs' \<Longrightarrow> p = tp \<longrightarrow> P hs hs'"
      and run: "(if remaining = [] then Some hs
        else case parse_tls_message_handshake p remaining of Inl _ \<Rightarrow> Some hs
        | Inr (rest, msg) \<Rightarrow> Option.bind (case msg of
              TlsMessage.Handshake m \<Rightarrow> apply_message p hs dir m | OtherMessage \<Rightarrow> Some hs)
            (\<lambda>hs'. walk p hs' rest dir)) = Some hs'"
    show "p = tp \<longrightarrow> P hs hs'"
    proof (cases "hs' = hs")
      case True
      then show ?thesis by (simp add: P_refl)
    next
      case False
      then obtain rest msg hs1 where step: "(case msg of
            TlsMessage.Handshake m \<Rightarrow> apply_message p hs dir m
          | OtherMessage \<Rightarrow> Some hs) = Some hs1" and rest: "walk p hs1 rest dir = Some hs'"
        using run by (auto split: if_splits sum.splits simp: bind_eq_Some_conv)
      have "p = tp \<longrightarrow> P hs hs1"
        using step P_message P_refl by (cases msg) auto
      with IH [OF rest] show ?thesis using P_trans by blast
    qed
  qed
  with assms show ?thesis by blast
qed

lemma P_ingest_record:
  assumes "ingest_record tp dir now_ms conn rec = Some conn'"
  shows "P (handshake (tc_state conn)) (handshake (tc_state conn'))"
proof (cases "or_record_type rec")
  case Handshake
  then have run: "ingest_handshake tp dir now_ms conn rec = Some conn'"
    using assms by (simp add: ingest_record_def)
  show ?thesis
  proof (cases "post_ccs conn dir")
    case True
    then obtain c2 where "push_record_event conn rec dir now_ms = Some c2" "tc_state conn' = tc_state c2"
      using run by (cases dir) (auto simp: ingest_handshake_def Let_def bind_eq_Some_conv split: if_splits)
    with push_handshake P_refl show ?thesis by metis
  next
    case False
    then obtain hs where "apply_handshake_record tp (handshake (tc_state conn)) (or_payload rec) dir = Some hs"
      and "push_record_event (set_handshake conn hs) rec dir now_ms = Some conn'"
      using run by (auto simp: ingest_handshake_def Let_def bind_eq_Some_conv)
    with P_record push_handshake show ?thesis by (metis handshake_set)
  qed
next
  case ApplicationData
  obtain hs a b m where upd: "apply_encrypted_record (handshake (tc_state conn))
      (encrypted_records_from_server conn) (encrypted_records_from_client conn)
      (saw_client_finished_marker conn) dir = (hs, a, b, m)"
    by (metis prod_cases4)
  then have "P (handshake (tc_state conn)) hs" using P_encrypted by (metis fst_conv)
  moreover obtain c where "push_record_event c rec dir now_ms = Some conn'" and "handshake (tc_state c) = hs"
    using assms ApplicationData
    by (auto simp: ingest_record_def ingest_application_data_def upd Let_def set_handshake_def)
  ultimately show ?thesis using push_handshake by metis
next
  case ChangeCipherSpec
  then have "push_record_event (mark_ccs (set_handshake conn (apply_ccs (handshake (tc_state conn)) dir))
      dir) rec dir now_ms = Some conn'"
    using assms by (simp add: ingest_record_def ingest_ccs_def)
  from push_handshake [OF this] show ?thesis by (simp add: P_ccs)
qed (use assms P_refl in \<open>simp_all add: ingest_record_def\<close>)

end

sublocale handshake_moves \<subseteq> moved: record_handler "ingest_record tp dir now_ms"
    "\<lambda>conn conn'. P (handshake (tc_state conn)) (handshake (tc_state conn'))" for dir now_ms
  by unfold_locales (use P_refl P_trans P_ingest_record in blast)+

context handshake_moves
begin

lemma P_segment:
  assumes "ingest_segment tp dir seg now_ms conn = Some conn'"
  shows "P (handshake (tc_state conn)) (handshake (tc_state conn'))"
proof (cases "\<exists>rs n. parse_spec (dir_buf dir conn @ seg) = Inr (rs, n)
    \<and> length (dir_buf dir conn) + length seg \<le> MAX_REASSEMBLY_BYTES")
  case True
  then obtain rs n where p: "parse_spec (dir_buf dir conn @ seg) = Inr (rs, n)"
    and "length (dir_buf dir conn) + length seg \<le> MAX_REASSEMBLY_BYTES" by blast
  then have "fold_exec (ingest_record tp dir now_ms) (set_buf dir (drop n (dir_buf dir conn @ seg)) conn)
      (map own rs) = Some conn'"
    using assms by (simp add: ingest_segment_eq ingest_records_def)
  moreover have "list_all wf_record rs" using parse_spec_sound [OF p] by simp
  ultimately show ?thesis using moved.loop_R by (metis handshake_set_buf)
next
  case False
  then obtain msg where "ascii msg" "handshake (tc_state conn') = (handshake (tc_state conn))
      \<lparr>stage := HandshakeStage.Errored, hs_error := Some msg\<rparr>"
    using assms segment_failure by blast
  with P_errored show ?thesis by metis
qed

end

interpretation origin_moves: handshake_moves tp "\<lambda>hs hs'. origin hs' = origin hs" for tp
proof
  fix hs hs' dir m
  assume "apply_message tp hs dir m = Some hs'"
  then show "origin hs' = origin hs"
    by (cases "(tp, hs, dir, m)" rule: apply_message.cases)
       (auto simp: merge_client_hello_def merge_server_hello_def split: option.splits)
next
  fix hs dir
  show "origin (apply_ccs hs dir) = origin hs" by (cases dir) simp_all
qed (simp_all add: apply_encrypted_record_def Let_def)

definition same_origin :: "TrackedConnection \<Rightarrow> TrackedConnection \<Rightarrow> bool" where
  "same_origin conn conn' \<longleftrightarrow>
     origin (handshake (tc_state conn')) = origin (handshake (tc_state conn))"

lemma ingest_segment_origin:
  "ingest_segment tp dir seg now_ms conn = Some conn' \<Longrightarrow> same_origin conn conn'"
  unfolding same_origin_def by (rule origin_moves.P_segment)

section \<open>Independence of TCP segmentation\<close>

text \<open>No step reads or writes a reassembly buffer: \<open>set_buf\<close> commutes with each of them.\<close>

lemma set_buf_simps [simp]:
  "dir_buf dir (set_buf dir buf conn) = buf"
  "set_buf dir b (set_buf dir b' conn) = set_buf dir b conn"
  "tc_state (set_buf dir buf conn) = tc_state conn"
  "stop_logging (set_buf dir buf conn) = stop_logging conn"
  "seq_counter (set_buf dir buf conn) = seq_counter conn"
  "both_ccs (set_buf dir buf conn) = both_ccs conn"
  "encrypted_records_from_server (set_buf dir buf conn) = encrypted_records_from_server conn"
  "encrypted_records_from_client (set_buf dir buf conn) = encrypted_records_from_client conn"
  "saw_client_finished_marker (set_buf dir buf conn) = saw_client_finished_marker conn"
  by (cases dir; simp add: both_ccs_def)+

lemma set_buf_reads [simp]:
  "post_ccs (set_buf dir buf conn) d = post_ccs conn d"
  "post_ccs_handshake_label d (set_buf dir buf conn) = post_ccs_handshake_label d conn"
  "encrypted_flight_label d (set_buf dir buf conn) n = encrypted_flight_label d conn n"
  by (cases dir; cases d; simp add: encrypted_flight_label_def)+

lemma build_body_set_buf [simp]: "build_body rec d (set_buf dir buf conn) = build_body rec d conn"
  by (simp add: build_body_def Let_def split: TlsRecordType.split)

lemma set_buf_updates:
  "(set_buf dir buf conn)\<lparr>seq_counter := n\<rparr> = set_buf dir buf (conn\<lparr>seq_counter := n\<rparr>)"
  "(set_buf dir buf conn)\<lparr>tc_state := st\<rparr> = set_buf dir buf (conn\<lparr>tc_state := st\<rparr>)"
  "(set_buf dir buf conn)\<lparr>stop_logging := s\<rparr> = set_buf dir buf (conn\<lparr>stop_logging := s\<rparr>)"
  "(set_buf dir buf conn)\<lparr>encrypted_records_from_server := a, encrypted_records_from_client := b,
      saw_client_finished_marker := m\<rparr> = set_buf dir buf
      (conn\<lparr>encrypted_records_from_server := a, encrypted_records_from_client := b,
        saw_client_finished_marker := m\<rparr>)"
  by (cases dir; simp)+

lemma set_buf_helpers:
  "set_handshake (set_buf dir buf conn) hs = set_buf dir buf (set_handshake conn hs)"
  "count_post_ccs (set_buf dir buf conn) d = set_buf dir buf (count_post_ccs conn d)"
  "mark_ccs (set_buf dir buf conn) d = set_buf dir buf (mark_ccs conn d)"
  by (cases dir; cases d; simp add: set_handshake_def)+

lemma push_set_buf:
  "push_record_event (set_buf dir buf conn) rec d now_ms =
     map_option (set_buf dir buf) (push_record_event conn rec d now_ms)"
proof -
  obtain b where "build_body rec d (conn\<lparr>seq_counter := u32_saturating_add (seq_counter conn) 1\<rparr>)
      = Some b"
    using build_body_total by blast
  then show ?thesis
    by (simp add: push_record_event_def Let_def set_buf_updates)
qed

lemma ingest_handshake_set_buf:
  "ingest_handshake tp d now_ms (set_buf dir buf conn) rec =
     map_option (set_buf dir buf) (ingest_handshake tp d now_ms conn rec)"
proof (cases "post_ccs conn d")
  case True
  then show ?thesis
    by (cases "push_record_event conn rec d now_ms")
       (simp_all add: ingest_handshake_def Let_def push_set_buf set_buf_helpers set_buf_updates)
next
  case False
  show ?thesis
  proof (cases "apply_handshake_record tp (handshake (tc_state conn)) (or_payload rec) d")
    case (Some hs)
    with False show ?thesis
      by (cases "push_record_event (set_handshake conn hs) rec d now_ms")
         (simp_all add: ingest_handshake_def Let_def push_set_buf set_buf_helpers)
  qed (use False in \<open>simp add: ingest_handshake_def\<close>)
qed

lemma ingest_application_data_set_buf:
  "ingest_application_data d now_ms (set_buf dir buf conn) rec =
     map_option (set_buf dir buf) (ingest_application_data d now_ms conn rec)"
proof -
  obtain hs a b m where "apply_encrypted_record (handshake (tc_state conn))
      (encrypted_records_from_server conn) (encrypted_records_from_client conn)
      (saw_client_finished_marker conn) d = (hs, a, b, m)"
    by (metis prod_cases4)
  then show ?thesis
    by (simp add: ingest_application_data_def Let_def set_buf_helpers set_buf_updates push_set_buf)
qed

lemma ingest_record_set_buf:
  "ingest_record tp d now_ms (set_buf dir buf conn) rec =
     map_option (set_buf dir buf) (ingest_record tp d now_ms conn rec)"
  by (simp add: ingest_record_def ingest_handshake_set_buf ingest_application_data_set_buf
      ingest_ccs_def set_buf_helpers push_set_buf split: TlsRecordType.split)

lemma ingest_records_set_buf:
  "ingest_records tp d now_ms (set_buf dir buf conn) recs =
     map_option (set_buf dir buf) (ingest_records tp d now_ms conn recs)"
  unfolding ingest_records_def
proof (induction recs arbitrary: conn)
  case (Cons rec recs)
  then show ?case
    by (cases "ingest_record tp d now_ms conn rec") (simp_all add: ingest_record_set_buf)
qed simp

lemma parse_spec_prefix:
  assumes "parse_spec (bs @ extra) = Inr (rs, n)"
  obtains rs1 n1 rs2 n2 where "parse_spec bs = Inr (rs1, n1)"
    and "parse_spec (drop n1 bs @ extra) = Inr (rs2, n2)" and "rs = rs1 @ rs2" and "n = n1 + n2"
proof (cases "parse_spec bs")
  case (Inl e)
  then obtain rs' tail k where "bs = concat (map wire rs') @ tail" "list_all wf_record rs'"
    "frame_head tail = Oversize k" "e = oversize_error k"
    using parse_spec_error by blast
  then have "parse_spec (bs @ extra) = Inl e"
    unfolding parse_spec_error using frame_head_append(2) by (metis append_assoc)
  with assms show ?thesis by simp
next
  case (Inr p)
  then obtain rs1 n1 where 1: "parse_spec bs = Inr (rs1, n1)" by (cases p) simp
  with parse_spec_append [OF 1, of extra] assms that show ?thesis
    by (cases "parse_spec (drop n1 bs @ extra)") auto
qed

lemma segment_split:
  assumes parse: "parse_spec (dir_buf dir conn @ seg1 @ seg2) = Inr (rs, n)"
    and len: "length (dir_buf dir conn @ seg1 @ seg2) \<le> MAX_REASSEMBLY_BYTES"
  shows "ingest_segment tp dir (seg1 @ seg2) now_ms conn =
    Option.bind (ingest_segment tp dir seg1 now_ms conn) (ingest_segment tp dir seg2 now_ms)"
proof -
  let ?buf = "dir_buf dir conn"
  have "parse_spec ((?buf @ seg1) @ seg2) = Inr (rs, n)"
    using parse by simp
  then obtain rs1 n1 rs2 n2 where 1: "parse_spec (?buf @ seg1) = Inr (rs1, n1)"
    and 2: "parse_spec (drop n1 (?buf @ seg1) @ seg2) = Inr (rs2, n2)"
    and rs: "rs = rs1 @ rs2" and n: "n = n1 + n2"
    by (rule parse_spec_prefix)
  have n1: "n1 \<le> length (?buf @ seg1)" and wf: "list_all wf_record rs1"
    using parse_spec_sound [OF 1] by blast+
  define left where "left = drop n1 (?buf @ seg1)"
  let ?fin = "drop n (?buf @ seg1 @ seg2)"
  have "left @ seg2 = drop n1 (?buf @ seg1 @ seg2)"
    using n1 by (simp add: left_def)
  then have fin: "drop n2 (left @ seg2) = ?fin"
    by (simp only: n drop_drop add.commute)
  have parse2: "parse_spec (left @ seg2) = Inr (rs2, n2)"
    using 2 by (simp only: left_def)
  have len2: "\<not> MAX_REASSEMBLY_BYTES < length left + length seg2"
    using len by (simp add: left_def)
  let ?run = "ingest_records tp dir now_ms conn (map own rs1)"
  have first: "ingest_segment tp dir seg1 now_ms conn = map_option (set_buf dir left) ?run"
    using len 1 by (simp add: ingest_segment_eq ingest_records_set_buf left_def)
  have second: "ingest_segment tp dir seg2 now_ms (set_buf dir left c) =
      map_option (set_buf dir ?fin) (ingest_records tp dir now_ms c (map own rs2))" for c
    unfolding ingest_segment_eq set_buf_simps parse2 fin using len2
    by (simp add: ingest_records_set_buf fin del: drop_append)
  have "ingest_segment tp dir (seg1 @ seg2) now_ms conn =
      map_option (set_buf dir ?fin) (ingest_records tp dir now_ms conn (map own rs))"
    using len parse by (simp add: ingest_segment_eq ingest_records_set_buf)
  also have "\<dots> = Option.bind ?run (\<lambda>c. map_option (set_buf dir ?fin)
      (ingest_records tp dir now_ms c (map own rs2)))"
    by (cases ?run) (simp_all add: rs ingest_records_def fold_exec_append)
  also have "\<dots> = Option.bind (ingest_segment tp dir seg1 now_ms conn) (ingest_segment tp dir seg2 now_ms)"
    by (cases ?run) (simp_all add: first second)
  finally show ?thesis .
qed

section \<open>Properties\<close>

lemma hm_insert_twice: "hm_insert k v (hm_insert k u m) = hm_insert k v m"
  by (induction k u m rule: hm_insert.induct) simp_all

text \<open>The bytes a flow has pending in one direction: none for an unknown flow.\<close>

definition pending :: "'r ConnectionTracker \<Rightarrow> ConnectionKey \<Rightarrow> Direction \<Rightarrow> bytes" where
  "pending t key dir =
     (case hm_get (connections t) key of None \<Rightarrow> [] | Some conn \<Rightarrow> dir_buf dir conn)"

lemma entry_buf:
  "ingest_entry resolve key a b now_ms t = Some (conn, r') \<Longrightarrow>
     dir_buf dir (touch now_ms conn) = pending t key dir"
  by (cases dir) (auto simp: ingest_entry_def pending_def touch_def set_handshake_def
      new_connection_def Let_def split_def bind_eq_Some_conv split: option.splits)

lemma mark_errored_times [simp]:
  "last_seen_ms (tc_state (mark_errored msg conn)) = last_seen_ms (tc_state conn)"
  by (simp add: mark_errored_def set_handshake_def)

lemma segment_last_seen:
  assumes "ingest_segment tp dir seg now_ms conn = Some conn'"
  shows "last_seen_ms (tc_state conn') = last_seen_ms (tc_state conn)"
proof (cases "\<exists>rs n. parse_spec (dir_buf dir conn @ seg) = Inr (rs, n)
    \<and> length (dir_buf dir conn) + length seg \<le> MAX_REASSEMBLY_BYTES")
  case True
  then show ?thesis
    using segment_evolves [OF _ _ assms] by (auto simp: evolves_def)
next
  case False
  then show ?thesis
    using assms by (auto simp: ingest_segment_eq split: if_splits sum.splits)
qed

lemma touch_same: "last_seen_ms (tc_state conn) = now_ms \<Longrightarrow> touch now_ms conn = conn"
  by (simp add: touch_def)

text \<open>
  C1. The tracker does not depend on how TCP cut the stream: as long as the framing of the
  pending bytes and both parts is in order and within the cap, one segment gives exactly the
  tracker and the answer of its two parts ingested one after the other at the same time.
\<close>

theorem ingest_segmentation:
  assumes "seg1 \<noteq> []" and "seg2 \<noteq> []"
    and "parse_records (pending t key dir @ seg1 @ seg2) = Some (Inr (rs, n))"
    and "length (pending t key dir @ seg1 @ seg2) \<le> MAX_REASSEMBLY_BYTES"
  shows "ingest tp resolve key dir a b (seg1 @ seg2) now_ms t =
    Option.bind (ingest tp resolve key dir a b seg1 now_ms t)
      (\<lambda>(_, t1). ingest tp resolve key dir a b seg2 now_ms t1)"
proof (cases "ingest_entry resolve key a b now_ms t")
  case None
  with assms(1) show ?thesis by (simp add: ingest_def)
next
  case (Some entry)
  then obtain conn r' where e: "ingest_entry resolve key a b now_ms t = Some (conn, r')"
    by (cases entry) simp
  let ?c = "touch now_ms conn"
  have buf: "dir_buf dir ?c = pending t key dir" by (rule entry_buf [OF e])
  have split: "ingest_segment tp dir (seg1 @ seg2) now_ms ?c =
      Option.bind (ingest_segment tp dir seg1 now_ms ?c) (ingest_segment tp dir seg2 now_ms)"
    using assms(3,4) by (intro segment_split) (simp_all add: buf parse_records_spec)
  show ?thesis
  proof (cases "ingest_segment tp dir seg1 now_ms ?c")
    case None
    with assms(1) split e show ?thesis by (simp add: ingest_def)
  next
    case (Some c1)
    have "touch now_ms c1 = c1"
      using segment_last_seen [OF Some] by (intro touch_same) (simp add: touch_def)
    moreover have "hm_get (hm_insert key c1 (connections t)) key = Some c1"
      by (simp add: hm_get_insert)
    ultimately show ?thesis
      using assms(1,2) split e Some
      by (cases "ingest_segment tp dir seg2 now_ms c1")
         (simp_all add: ingest_def ingest_entry_def [of _ _ _ _ _ "t\<lparr>connections := _, resolver := _\<rparr>"]
           hm_insert_twice)
  qed
qed

theorem ingest_segmentation_witness:
  "ingest sample_parser NullOriginResolver_resolve (canonical (V4 1) 50000 (V4 2) 443)
      Direction.ClientToServer (V4 1, 50000) (V4 2, 443) ([20, 3, 3] @ [0, 1, 1]) 7 (with_resolver ()) =
    Option.bind (ingest sample_parser NullOriginResolver_resolve (canonical (V4 1) 50000 (V4 2) 443)
        Direction.ClientToServer (V4 1, 50000) (V4 2, 443) [20, 3, 3] 7 (with_resolver ()))
      (\<lambda>(_, t1). ingest sample_parser NullOriginResolver_resolve (canonical (V4 1) 50000 (V4 2) 443)
        Direction.ClientToServer (V4 1, 50000) (V4 2, 443) [0, 1, 1] 7 t1)"
proof (rule ingest_segmentation)
  have "parse_records [20, 3, 3, 0, 1, 1] = Some (Inr ([\<lparr>record_type = TlsRecordType.ChangeCipherSpec,
      legacy_version = 0x0303, payload = [1]\<rparr>], 6))"
    by code_simp
  then show "parse_records (pending (with_resolver ()) (canonical (V4 1) 50000 (V4 2) 443)
      Direction.ClientToServer @ [20, 3, 3] @ [0, 1, 1]) =
    Some (Inr ([\<lparr>record_type = TlsRecordType.ChangeCipherSpec,
      legacy_version = 0x0303, payload = [1]\<rparr>], 6))"
    by (simp add: pending_def with_resolver_def hm.get_empty)
qed (simp_all add: pending_def with_resolver_def hm.get_empty MAX_REASSEMBLY_BYTES_def)

text \<open>
  C2. At every reachable moment every tracked connection is stored under its own key, keeps
  fewer than 16389 unparsed bytes per direction, and has a log of at most 64 events, numbered
  1, 2, 3 and so on without a gap, each holding the exact wire bytes of one handshake,
  ChangeCipherSpec or application-data record of at most 16384 payload bytes.
\<close>

theorem tracked_connections_ok:
  assumes "reachable tp resolve (with_stale_timeout r timeout) t"
    and "hm_get (connections t) key = Some conn"
  shows "cs_key (tc_state conn) = key
    \<and> length (client_to_server_buf conn) < 16389 \<and> length (server_to_client_buf conn) < 16389
    \<and> length (records (tc_state conn)) \<le> 64
    \<and> map (unat \<circ> sequence) (records (tc_state conn)) = [1..<Suc (length (records (tc_state conn)))]
    \<and> (\<forall>e\<in>set (records (tc_state conn)). \<exists>r. wf_record r \<and> raw e = wire r
         \<and> outer_type e = record_type r \<and> unat (outer_length e) = length (payload r)
         \<and> record_type r \<in> {TlsRecordType.Handshake, TlsRecordType.ApplicationData,
                            TlsRecordType.ChangeCipherSpec})"
proof -
  have "conn_ok key conn"
    using reachable_ok [OF assms(1) tracker_ok_initial(1)] assms(2) by (simp add: tracker_ok_def)
  then show ?thesis
    using incomplete_length [of "client_to_server_buf conn"]
      incomplete_length [of "server_to_client_buf conn"]
    by (simp add: conn_ok_def log_ok_def logged_record_def RECORD_LOG_CAP_def RECORD_HEADER_LEN_def
        MAX_RECORD_PAYLOAD_def)
qed

theorem tracked_connections_ok_witness:
  "\<exists>t conn. reachable sample_parser NullOriginResolver_resolve (with_stale_timeout () 9) t
     \<and> hm_get (connections t) (canonical (V4 1) 50000 (V4 2) 443) = Some conn
     \<and> length (client_to_server_buf conn) < 16389"
proof -
  obtain t conn where *: "reachable sample_parser NullOriginResolver_resolve (with_stale_timeout () 9) t"
    "hm_get (connections t) (canonical (V4 1) 50000 (V4 2) 443) = Some conn"
    using sample_tracker by blast
  with tracked_connections_ok [OF *] show ?thesis by blast
qed

text \<open>
  C20. The reassembly cap of 128 KiB is never exceeded in a run: at every reachable moment the
  pending bytes of any flow and direction and one more TCP payload (under 64 KiB) fit in it, so
  \<open>ingest\<close> never takes the branch that reports the cap.
\<close>

theorem reassembly_cap_unreachable:
  assumes "reachable tp resolve (with_stale_timeout r timeout) t" and "length seg < 65536"
  shows "length (pending t key dir) + length seg \<le> MAX_REASSEMBLY_BYTES"
proof (cases "hm_get (connections t) key")
  case None
  with assms(2) show ?thesis by (simp add: pending_def MAX_REASSEMBLY_BYTES_def)
next
  case (Some conn)
  have "conn_ok key conn"
    using reachable_ok [OF assms(1) tracker_ok_initial(1)] Some by (simp add: tracker_ok_def)
  then have "length (dir_buf dir conn) < 16389"
    using incomplete_length [OF dir_buf_incomplete]
    by (simp add: RECORD_HEADER_LEN_def MAX_RECORD_PAYLOAD_def)
  with assms(2) Some show ?thesis by (simp add: pending_def MAX_REASSEMBLY_BYTES_def)
qed

theorem reassembly_cap_unreachable_witness:
  "length (pending (with_stale_timeout () 9) (canonical (V4 1) 50000 (V4 2) 443)
      Direction.ClientToServer) + length [22, 3 :: u8] \<le> MAX_REASSEMBLY_BYTES"
  by (rule reassembly_cap_unreachable [of sample_parser NullOriginResolver_resolve "()" 9])
     (simp_all add: reachable.start)

text \<open>
  \<open>ingest\<close> touches one flow: every other connection is as it was, the timeout too, the
  answer is the new state of the flow, and its last-seen time is the time of the segment.
\<close>

theorem ingest_frame:
  assumes "ingest tp resolve key dir a b seg now_ms t = Some (out, t')" and "seg \<noteq> []"
  shows "(\<forall>key'. key' \<noteq> key \<longrightarrow> hm_get (connections t') key' = hm_get (connections t) key')
    \<and> stale_timeout_ms t' = stale_timeout_ms t
    \<and> (\<exists>conn. hm_get (connections t') key = Some conn \<and> out = Inr (Some (tc_state conn))
         \<and> last_seen_ms (tc_state conn) = now_ms)"
proof -
  obtain conn r' c where c: "ingest_segment tp dir seg now_ms (touch now_ms conn) = Some c"
    "out = Inr (Some (tc_state c))"
    "t' = t\<lparr>connections := hm_insert key c (connections t), resolver := r'\<rparr>"
    by (rule ingest_insert [OF assms])
  with segment_last_seen [OF c(1)] show ?thesis
    by (simp add: hm_get_insert touch_def)
qed

theorem ingest_frame_witness:
  "\<exists>out t'. ingest sample_parser NullOriginResolver_resolve (canonical (V4 1) 50000 (V4 2) 443)
      Direction.ClientToServer (V4 1, 50000) (V4 2, 443) [22] 7 (with_resolver ()) = Some (out, t')
    \<and> hm_get (connections t') (canonical (V4 3) 50000 (V4 2) 443) = None"
proof -
  let ?key = "canonical (V4 1) 50000 (V4 2) 443" and ?other = "canonical (V4 3) 50000 (V4 2) 443"
  obtain conn r' where e: "ingest_entry NullOriginResolver_resolve ?key (V4 1, 50000) (V4 2, 443) 7
      (with_resolver ()) = Some (conn, r')" using entry_total [OF null_answers.returning] by blast
  obtain c where "ingest_segment sample_parser Direction.ClientToServer [22] 7 (touch 7 conn) = Some c"
    using ingest_segment_total [OF consuming_sample_parser] by blast
  then obtain out t' where run: "ingest sample_parser NullOriginResolver_resolve ?key
      Direction.ClientToServer (V4 1, 50000) (V4 2, 443) [22] 7 (with_resolver ()) = Some (out, t')"
    by (simp add: ingest_def e)
  have "?other \<noteq> ?key"
    by (simp add: canonical_def is_tls_server_port_def TLS_WELL_KNOWN_PORTS_def)
  with ingest_frame [OF run] have "hm_get (connections t') ?other = None"
    by (simp add: with_resolver_def hm.get_empty)
  with run show ?thesis by blast
qed

lemma segment_log:
  assumes "ingest_segment tp dir seg now_ms conn = Some conn'"
  shows "(\<exists>new. records (tc_state conn') = records (tc_state conn) @ new
        \<and> (stop_logging conn \<longrightarrow> new = []))
    \<and> (stop_logging conn \<longrightarrow> stop_logging conn')
    \<and> first_seen_ms (tc_state conn') = first_seen_ms (tc_state conn)"
proof (cases "\<exists>rs n. parse_spec (dir_buf dir conn @ seg) = Inr (rs, n)
    \<and> length (dir_buf dir conn) + length seg \<le> MAX_REASSEMBLY_BYTES")
  case True
  then show ?thesis
    using segment_evolves [OF _ _ assms] by (auto simp: evolves_def)
next
  case False
  then show ?thesis
    using assms by (auto simp: ingest_segment_eq mark_errored_def set_handshake_def
        split: if_splits sum.splits)
qed

lemma entry_known:
  "hm_get (connections t) key = Some conn \<Longrightarrow>
     ingest_entry resolve key a b now_ms t = Some (conn, resolver t)"
  by (simp add: ingest_entry_def)

lemma ingest_origin:
  assumes "ingest tp resolve key dir a b seg now_ms t = Some (out, t')" and "seg \<noteq> []"
  shows "\<exists>conn'. hm_get (connections t') key = Some conn'
    \<and> (case hm_get (connections t) key of
         None \<Rightarrow> (\<exists>o'. resolve (resolver t) a b = Some (o', resolver t')
             \<and> origin (handshake (tc_state conn')) = Some o')
           \<and> first_seen_ms (tc_state conn') = now_ms
       | Some conn \<Rightarrow> origin (handshake (tc_state conn')) = origin (handshake (tc_state conn))
           \<and> resolver t' = resolver t
           \<and> first_seen_ms (tc_state conn') = first_seen_ms (tc_state conn))"
proof -
  obtain conn r' c where e: "ingest_entry resolve key a b now_ms t = Some (conn, r')"
    and c: "ingest_segment tp dir seg now_ms (touch now_ms conn) = Some c"
    and t': "t' = t\<lparr>connections := hm_insert key c (connections t), resolver := r'\<rparr>"
    by (rule ingest_insert [OF assms])
  have keep: "origin (handshake (tc_state c)) = origin (handshake (tc_state conn))"
    "first_seen_ms (tc_state c) = first_seen_ms (tc_state conn)"
    using ingest_segment_origin [OF c] segment_log [OF c]
    by (simp_all add: same_origin_def touch_def)
  have get: "hm_get (connections t') key = Some c" and r: "resolver t' = r'"
    by (simp_all add: t' hm_get_insert)
  show ?thesis
  proof (cases "hm_get (connections t) key")
    case None
    with e keep get r show ?thesis
      by (auto simp: ingest_entry_def Let_def split_def set_handshake_def new_connection_def bind_eq_Some_conv)
  next
    case (Some old)
    with entry_known [OF Some, of resolve a b now_ms] e keep get r show ?thesis by auto
  qed
qed

text \<open>
  C17. A flow is attributed once: for a flow not yet tracked the resolver is asked with the
  two endpoints and its answer stored; for a known flow it is not asked, and whatever the
  segment holds, the stored origin and the first-seen time stay.
\<close>

theorem origin_resolved_once:
  assumes "ingest tp resolve key dir a b seg now_ms t = Some (out, t')" and "seg \<noteq> []"
  shows "\<exists>conn'. hm_get (connections t') key = Some conn'
    \<and> (case hm_get (connections t) key of
         None \<Rightarrow> (\<exists>o'. resolve (resolver t) a b = Some (o', resolver t')
             \<and> origin (handshake (tc_state conn')) = Some o')
           \<and> first_seen_ms (tc_state conn') = now_ms
       | Some conn \<Rightarrow> origin (handshake (tc_state conn')) = origin (handshake (tc_state conn))
           \<and> resolver t' = resolver t
           \<and> first_seen_ms (tc_state conn') = first_seen_ms (tc_state conn))"
  using ingest_origin [OF assms] .

theorem origin_resolved_once_witness:
  "\<exists>t' (conn' :: TrackedConnection). ingest sample_parser FixedResolver_resolve (canonical (V4 1) 50000 (V4 2) 443)
      Direction.ClientToServer (V4 1, 50000) (V4 2, 443) [22] 7 (with_resolver (OtherUser 5))
        = Some (Inr (Some (tc_state conn')), t')
    \<and> origin (handshake (tc_state conn')) = Some (OtherUser 5)"
proof -
  let ?key = "canonical (V4 1) 50000 (V4 2) 443" and ?init = "with_resolver (OtherUser 5)"
  obtain conn r' where e: "ingest_entry FixedResolver_resolve ?key (V4 1, 50000) (V4 2, 443) 7 ?init
      = Some (conn, r')" using entry_total [OF fixed_answers.returning] by blast
  obtain c where c: "ingest_segment sample_parser Direction.ClientToServer [22] 7 (touch 7 conn) = Some c"
    using ingest_segment_total [OF consuming_sample_parser] by blast
  let ?fin = "?init\<lparr>connections := hm_insert ?key c (connections ?init), resolver := r'\<rparr>"
  have run: "ingest sample_parser FixedResolver_resolve ?key Direction.ClientToServer
      (V4 1, 50000) (V4 2, 443) [22] 7 ?init = Some (Inr (Some (tc_state c)), ?fin)"
    by (simp add: ingest_def e c)
  have "origin (handshake (tc_state c)) = Some (OtherUser 5)"
    using origin_resolved_once [OF run]
    by (simp add: hm_get_insert with_resolver_def hm.get_empty FixedResolver_resolve_def)
  with run show ?thesis by blast
qed

text \<open>
  C16. The record log is append-only: a segment never removes, reorders or rewrites an event
  of any earlier one, and once logging has stopped it stays stopped and nothing is added.
\<close>

theorem log_append_only:
  assumes "ingest tp resolve key dir a b seg now_ms t = Some (out, t')"
    and "hm_get (connections t) key = Some conn"
  shows "\<exists>conn' new. hm_get (connections t') key = Some conn'
    \<and> records (tc_state conn') = records (tc_state conn) @ new
    \<and> (stop_logging conn \<longrightarrow> new = [] \<and> stop_logging conn')"
proof (cases "seg = []")
  case True
  with assms show ?thesis by (auto simp: ingest_def)
next
  case False
  obtain conn0 r' c where e: "ingest_entry resolve key a b now_ms t = Some (conn0, r')"
    and c: "ingest_segment tp dir seg now_ms (touch now_ms conn0) = Some c"
    and t': "t' = t\<lparr>connections := hm_insert key c (connections t), resolver := r'\<rparr>"
    by (rule ingest_insert [OF assms(1) False])
  have "conn0 = conn" using e entry_known [OF assms(2)] by simp
  with segment_log [OF c] show ?thesis
    by (auto simp: t' hm_get_insert touch_def)
qed

theorem log_append_only_witness:
  "\<exists>conn. hm_get (connections (with_resolver ()\<lparr>connections :=
       hm_insert (canonical (V4 1) 50000 (V4 2) 443)
         (new_connection (canonical (V4 1) 50000 (V4 2) 443) 3) hm_empty\<rparr>))
       (canonical (V4 1) 50000 (V4 2) 443) = Some conn
    \<and> (\<exists>out t' conn'. ingest sample_parser NullOriginResolver_resolve
         (canonical (V4 1) 50000 (V4 2) 443) Direction.ClientToServer (V4 1, 50000) (V4 2, 443) [22] 7
         (with_resolver ()\<lparr>connections := hm_insert (canonical (V4 1) 50000 (V4 2) 443)
            (new_connection (canonical (V4 1) 50000 (V4 2) 443) 3) hm_empty\<rparr>) = Some (out, t')
       \<and> hm_get (connections t') (canonical (V4 1) 50000 (V4 2) 443) = Some conn'
       \<and> (\<exists>new. records (tc_state conn') = records (tc_state conn) @ new))"
proof -
  let ?key = "canonical (V4 1) 50000 (V4 2) 443"
  let ?old = "new_connection ?key 3"
  let ?init = "with_resolver ()\<lparr>connections := hm_insert ?key ?old hm_empty\<rparr>"
  have get: "hm_get (connections ?init) ?key = Some ?old"
    by (simp add: hm_get_insert)
  obtain c where c: "ingest_segment sample_parser Direction.ClientToServer [22] 7 (touch 7 ?old) = Some c"
    using ingest_segment_total [OF consuming_sample_parser] by blast
  then obtain out t' where run: "ingest sample_parser NullOriginResolver_resolve ?key
      Direction.ClientToServer (V4 1, 50000) (V4 2, 443) [22] 7 ?init = Some (out, t')"
    using entry_known [OF get] by (simp add: ingest_def)
  from log_append_only [OF run get] run get show ?thesis by blast
qed

text \<open>
  C18. Eviction is exact: what stays is every connection seen within the timeout (the cutoff
  saturates at 0), unchanged, everything else is gone, and the count returned is the number of
  connections that are gone.
\<close>

theorem evict_stale_exact:
  assumes "reachable tp resolve (with_stale_timeout r timeout) t"
    and "evict_stale now_ms t = (n, t')"
  shows "hm_get (connections t') key =
      (case hm_get (connections t) key of None \<Rightarrow> None
       | Some conn \<Rightarrow> if unat now_ms - unat (stale_timeout_ms t) \<le> unat (last_seen_ms (tc_state conn))
                     then Some conn else None)
    \<and> n = card {key. hm_get (connections t) key \<noteq> None \<and> hm_get (connections t') key = None}"
proof -
  have ok: "hm_ok (connections t)"
    using reachable_ok [OF assms(1) tracker_ok_initial(1)] by (simp add: tracker_ok_def)
  let ?cutoff = "u64_saturating_sub now_ms (stale_timeout_ms t)"
  let ?p = "\<lambda>_ c. ?cutoff \<le> last_seen_ms (tc_state c)"
  have cut: "?cutoff \<le> x \<longleftrightarrow> unat now_ms - unat (stale_timeout_ms t) \<le> unat x" for x :: u64
    by (auto simp: u64_saturating_sub_def word_le_nat_alt unat_sub)
  have t': "connections t' = hm_retain ?p (connections t)"
    and n: "n = hm_len (connections t) - hm_len (hm_retain ?p (connections t))"
    using assms(2) by (auto simp: evict_stale_def Let_def)
  have get: "hm_get (connections t') key = (case hm_get (connections t) key of None \<Rightarrow> None
       | Some conn \<Rightarrow> if ?cutoff \<le> last_seen_ms (tc_state conn) then Some conn else None)" for key
    unfolding t' by (rule hm.get_retain [OF ok])
  have gone: "{key. hm_get (connections t) key \<noteq> None \<and> hm_get (connections t') key = None}
      = {key. \<exists>c. hm_get (connections t) key = Some c \<and> \<not> ?p key c}"
    unfolding get by (auto split: option.splits if_splits)
  have "n = card {key. hm_get (connections t) key \<noteq> None \<and> hm_get (connections t') key = None}"
    unfolding gone using hm.len_retain [OF ok, of ?p] n by simp
  moreover have keep: "hm_get (connections t') key =
      (case hm_get (connections t) key of None \<Rightarrow> None
       | Some conn \<Rightarrow> if unat now_ms - unat (stale_timeout_ms t) \<le> unat (last_seen_ms (tc_state conn))
                     then Some conn else None)"
    unfolding get cut by (rule refl)
  ultimately show ?thesis by (intro conjI)
qed

theorem evict_stale_exact_witness:
  "reachable sample_parser NullOriginResolver_resolve (with_stale_timeout () 9) (with_stale_timeout () 9)
   \<and> hm_get (connections (snd (evict_stale 7 (with_stale_timeout () 9))))
       (canonical (V4 1) 50000 (V4 2) 443) = None"
proof -
  let ?init = "with_stale_timeout () 9"
  have r: "reachable sample_parser NullOriginResolver_resolve ?init ?init"
    by (rule reachable.start)
  have "hm_get (connections ?init) (canonical (V4 1) 50000 (V4 2) 443) = None"
    by (simp add: with_stale_timeout_def hm.get_empty)
  with evict_stale_exact [OF r, of 7 "fst (evict_stale 7 ?init)" "snd (evict_stale 7 ?init)"
      "canonical (V4 1) 50000 (V4 2) 443"] r show ?thesis by simp
qed

text \<open>
  C19. An oversized record header drops the whole pending buffer: for a tracked flow, when complete
  records and then an oversized header are pending, the stage becomes \<open>Errored\<close> with the parser's
  message, the direction's buffer is empty and the last-seen time is that of the segment. Nothing
  else of the connection or of the tracker changes: not what is known of the handshake, not the
  log, not a flag, not a counter, not the other direction. The complete records before the bad
  header are lost.
\<close>

theorem oversize_drops_buffer:
  assumes "pending t key dir @ seg = concat (map wire rs) @ tail" and "list_all wf_record rs"
    and "frame_head tail = Oversize n" and "hm_get (connections t) key = Some conn"
    and "length (pending t key dir @ seg) \<le> MAX_REASSEMBLY_BYTES" and "seg \<noteq> []"
  shows "\<exists>conn'. ingest tp resolve key dir a b seg now_ms t
      = Some (Inr (Some (tc_state conn')), t\<lparr>connections := hm_insert key conn' (connections t)\<rparr>)
    \<and> conn' = (case dir of
        Direction.ClientToServer \<Rightarrow> conn\<lparr>client_to_server_buf := []\<rparr>
      | Direction.ServerToClient \<Rightarrow> conn\<lparr>server_to_client_buf := []\<rparr>)
        \<lparr>tc_state := (tc_state conn)\<lparr>last_seen_ms := now_ms, handshake := (handshake (tc_state conn))
           \<lparr>stage := HandshakeStage.Errored, hs_error := Some (Error_to_string (oversize_error n))\<rparr>\<rparr>\<rparr>"
proof -
  have p: "parse_spec (dir_buf dir conn @ seg) = Inl (oversize_error n)"
    using assms(1-4) unfolding parse_spec_error pending_def by auto
  have len: "\<not> MAX_REASSEMBLY_BYTES < length (dir_buf dir conn) + length seg"
    using assms(4,5) by (simp add: pending_def)
  have buf: "dir_buf d (touch now_ms conn) = dir_buf d conn" for d
    by (cases d) (simp_all add: touch_def)
  define c where
    "c = set_buf dir [] (mark_errored (Error_to_string (oversize_error n)) (touch now_ms conn))"
  have "ingest_segment tp dir seg now_ms (touch now_ms conn) = Some c"
    unfolding ingest_segment_eq buf c_def using p len by simp
  then have "ingest tp resolve key dir a b seg now_ms t = Some (Inr (Some (tc_state c)),
      t\<lparr>connections := hm_insert key c (connections t)\<rparr>)"
    using assms(6) entry_known [OF assms(4)] by (simp add: ingest_def)
  moreover have "c = (case dir of
        Direction.ClientToServer \<Rightarrow> conn\<lparr>client_to_server_buf := []\<rparr>
      | Direction.ServerToClient \<Rightarrow> conn\<lparr>server_to_client_buf := []\<rparr>)
        \<lparr>tc_state := (tc_state conn)\<lparr>last_seen_ms := now_ms, handshake := (handshake (tc_state conn))
           \<lparr>stage := HandshakeStage.Errored, hs_error := Some (Error_to_string (oversize_error n))\<rparr>\<rparr>\<rparr>"
    by (cases dir; cases conn) (simp_all add: c_def mark_errored_def set_handshake_def touch_def)
  ultimately show ?thesis by blast
qed

theorem oversize_drops_buffer_witness:
  "\<exists>t' (conn' :: TrackedConnection). ingest sample_parser NullOriginResolver_resolve (canonical (V4 1) 50000 (V4 2) 443)
      Direction.ClientToServer (V4 1, 50000) (V4 2, 443) [20, 3, 3, 0, 1, 1, 22, 3, 3, 255, 255] 7
      (with_resolver ()\<lparr>connections := hm_insert (canonical (V4 1) 50000 (V4 2) 443)
         (new_connection (canonical (V4 1) 50000 (V4 2) 443) 3) hm_empty\<rparr>)
      = Some (Inr (Some (tc_state conn')), t')
    \<and> stage (handshake (tc_state conn')) = HandshakeStage.Errored
    \<and> records (tc_state conn') = []"
proof -
  let ?key = "canonical (V4 1) 50000 (V4 2) 443"
  let ?old = "new_connection ?key 3"
  let ?init = "with_resolver ()\<lparr>connections := hm_insert ?key ?old hm_empty\<rparr>"
  let ?r = "\<lparr>record_type = TlsRecordType.ChangeCipherSpec, legacy_version = 0x0303, payload = [1]\<rparr>"
  have get: "hm_get (connections ?init) ?key = Some ?old"
    by (simp add: hm_get_insert)
  have pend: "pending ?init ?key Direction.ClientToServer = []"
    unfolding pending_def get by (simp add: new_connection_def)
  have bytes: "pending ?init ?key Direction.ClientToServer @ [20, 3, 3, 0, 1, 1, 22, 3, 3, 255, 255]
      = concat (map wire [?r]) @ [22, 3, 3, 255, 255]"
    unfolding pend by code_simp
  have wf: "list_all wf_record [?r]"
    by (simp add: wf_record_def MAX_RECORD_PAYLOAD_def TlsRecordType_from_u8_def)
  have big: "frame_head [22, 3, 3, 255, 255] = Oversize 65535"
    by (simp add: unat_u16_from_be_bytes MAX_RECORD_PAYLOAD_def)
  have len: "length (pending ?init ?key Direction.ClientToServer @ [20, 3, 3, 0, 1, 1, 22, 3, 3, 255, 255])
      \<le> MAX_REASSEMBLY_BYTES"
    unfolding pend by (simp add: MAX_REASSEMBLY_BYTES_def)
  obtain conn' where run: "ingest sample_parser NullOriginResolver_resolve ?key Direction.ClientToServer
      (V4 1, 50000) (V4 2, 443) [20, 3, 3, 0, 1, 1, 22, 3, 3, 255, 255] 7 ?init
      = Some (Inr (Some (tc_state conn')), ?init\<lparr>connections := hm_insert ?key conn' (connections ?init)\<rparr>)"
    and c: "stage (handshake (tc_state conn')) = HandshakeStage.Errored" "records (tc_state conn') = []"
    using oversize_drops_buffer [OF bytes wf big get len list.distinct(2), of sample_parser NullOriginResolver_resolve
        "(V4 1, 50000)" "(V4 2, 443)" 7]
    by - (elim exE conjE, rule that, assumption, simp_all add: new_connection_def)
  then show ?thesis by blast
qed

section \<open>What a logged event shows\<close>

text \<open>
  \<open>body_fits before e\<close>: the body of the event \<open>e\<close> is the one its type, its bytes and the events
  logged before it call for.
\<close>

definition ccs_logged :: "RecordDirection \<Rightarrow> RecordEvent list \<Rightarrow> bool" where
  "ccs_logged d es \<longleftrightarrow> (\<exists>c\<in>set es. outer_type c = TlsRecordType.ChangeCipherSpec \<and> direction c = d)"

definition body_fits :: "RecordEvent list \<Rightarrow> RecordEvent \<Rightarrow> bool" where
  "body_fits before e \<longleftrightarrow>
     (let opaque = (\<exists>label. body e = RecordBody.EncryptedHandshake label (take CIPHERTEXT_PREVIEW_LEN (drop 5 (raw e))))
      in case outer_type e of
        TlsRecordType.Handshake \<Rightarrow>
          (if ccs_logged (direction e) before then opaque
           else map_option RecordBody.Handshake (decode_handshake_body (drop 5 (raw e))) = Some (body e))
      | TlsRecordType.ApplicationData \<Rightarrow> opaque
      | TlsRecordType.ChangeCipherSpec \<Rightarrow> body e = RecordBody.ChangeCipherSpec
      | _ \<Rightarrow> False)"

definition log_fits :: "RecordEvent list \<Rightarrow> bool" where
  "log_fits es \<longleftrightarrow> (\<forall>i<length es. body_fits (take i es) (es ! i))"

lemma log_fits_snoc: "log_fits (es @ [e]) \<longleftrightarrow> log_fits es \<and> body_fits es e"
  by (auto simp: log_fits_def nth_append less_Suc_eq)

lemma ccs_logged_snoc:
  "ccs_logged d (es @ [e]) \<longleftrightarrow>
     ccs_logged d es \<or> outer_type e = TlsRecordType.ChangeCipherSpec \<and> direction e = d"
  by (auto simp: ccs_logged_def)

text \<open>While events are still logged, the flags say which directions have one logged.\<close>

definition flags_fit :: "TrackedConnection \<Rightarrow> bool" where
  "flags_fit conn \<longleftrightarrow> (\<forall>d. post_ccs conn d = ccs_logged (to_record_direction d) (records (tc_state conn)))"

abbreviation still_logs :: "TrackedConnection \<Rightarrow> bool" where
  "still_logs conn \<equiv> \<not> stop_logging conn \<and> length (records (tc_state conn)) < RECORD_LOG_CAP"

definition fits_ok :: "TrackedConnection \<Rightarrow> bool" where
  "fits_ok conn \<longleftrightarrow> log_fits (records (tc_state conn)) \<and> (still_logs conn \<longrightarrow> flags_fit conn)"

lemma take_min: "take (min (length xs) n) xs = take n xs"
  by (simp add: min_def)

lemma push_fits:
  assumes push: "push_record_event conn (own r) dir now_ms = Some conn'"
    and fits: "log_fits (records (tc_state conn))"
    and flag: "still_logs conn \<Longrightarrow> record_type r = TlsRecordType.Handshake \<Longrightarrow>
      post_ccs conn dir = ccs_logged (to_record_direction dir) (records (tc_state conn))"
    and ty: "record_type r \<in> {TlsRecordType.Handshake, TlsRecordType.ApplicationData,
      TlsRecordType.ChangeCipherSpec}"
  shows "log_fits (records (tc_state conn'))
    \<and> stop_logging conn' = stop_logging conn \<and> post_ccs conn' = post_ccs conn
    \<and> (\<not> still_logs conn \<and> conn' = conn
       \<or> still_logs conn \<and> (\<exists>e. records (tc_state conn') = records (tc_state conn) @ [e] \<and> outer_type e = record_type r
            \<and> direction e = to_record_direction dir))"
proof (cases "still_logs conn")
  case False
  with push fits show ?thesis by (auto simp: push_record_event_def split: if_splits)
next
  case True
  define conn1 where "conn1 = conn\<lparr>seq_counter := u32_saturating_add (seq_counter conn) 1\<rparr>"
  obtain b where b: "build_body (own r) dir conn1 = Some b"
    using build_body_total by blast
  define e where "e = \<lparr>direction = to_record_direction dir, timestamp_ms = now_ms,
      sequence = seq_counter conn1, outer_type = record_type r,
      outer_length = u16_try_from (length (payload r)),
      raw = record_type_byte (record_type r) # u16_to_be_bytes (legacy_version r)
        @ u16_to_be_bytes (u16_try_from (length (payload r))) @ payload r, body = b\<rparr>"
  have conn': "conn' = conn1\<lparr>tc_state := (tc_state conn1)\<lparr>records := records (tc_state conn1) @ [e]\<rparr>\<rparr>"
    using push True b by (simp add: push_record_event_def own_def Let_def conn1_def e_def)
  have ev: "outer_type e = record_type r" "direction e = to_record_direction dir" "body e = b"
    "drop 5 (raw e) = payload r"
    by (simp_all add: e_def u16_to_be_bytes_def)
  have "post_ccs conn1 = post_ccs conn" by (intro ext, case_tac x) (simp_all add: conn1_def)
  then have "body_fits (records (tc_state conn)) e"
    using b ty flag [OF True]
    by (auto simp: body_fits_def ev build_body_def own_def Let_def take_min split: if_splits)
  moreover have "post_ccs conn' = post_ccs conn" by (intro ext, case_tac x) (simp_all add: conn' conn1_def)
  ultimately show ?thesis
    using fits ev True by (simp add: conn' conn1_def log_fits_snoc)
qed

lemma fits_same:
  assumes "records (tc_state conn') = records (tc_state conn)" and "stop_logging conn \<longrightarrow> stop_logging conn'"
    and "post_ccs conn' = post_ccs conn" and "fits_ok conn"
  shows "fits_ok conn'"
  using assms by (auto simp: fits_ok_def flags_fit_def)

lemma same_flags: "client_ccs_seen c' = client_ccs_seen c \<Longrightarrow> server_ccs_seen c' = server_ccs_seen c
    \<Longrightarrow> post_ccs c' = post_ccs c"
  by (rule ext, case_tac x) simp_all

lemma push_message_fits:
  assumes "push_record_event conn (own r) dir now_ms = Some conn'" and "fits_ok conn"
    and "record_type r \<in> {TlsRecordType.Handshake, TlsRecordType.ApplicationData}"
  shows "fits_ok conn'"
proof -
  have "log_fits (records (tc_state conn'))
    \<and> stop_logging conn' = stop_logging conn \<and> post_ccs conn' = post_ccs conn
    \<and> (\<not> still_logs conn \<and> conn' = conn
       \<or> still_logs conn \<and> (\<exists>e. records (tc_state conn') = records (tc_state conn) @ [e] \<and> outer_type e = record_type r
            \<and> direction e = to_record_direction dir))"
    using assms by (intro push_fits) (auto simp: fits_ok_def flags_fit_def)
  then have same: "log_fits (records (tc_state conn'))" "stop_logging conn' = stop_logging conn"
      "post_ccs conn' = post_ccs conn"
    and grow: "conn' = conn \<or> still_logs conn \<and> (\<exists>e. records (tc_state conn') = records (tc_state conn) @ [e]
        \<and> outer_type e \<noteq> TlsRecordType.ChangeCipherSpec)"
    using assms(3) by auto
  show ?thesis
  proof (cases "conn' = conn")
    case False
    then obtain e where e: "records (tc_state conn') = records (tc_state conn) @ [e]"
      "outer_type e \<noteq> TlsRecordType.ChangeCipherSpec" "still_logs conn" using grow by blast
    with assms(2) same show ?thesis by (simp add: fits_ok_def flags_fit_def ccs_logged_snoc)
  qed (use assms(2) in simp)
qed

lemma ingest_ccs_fits:
  assumes "ingest_ccs dir now_ms conn (own r) = Some conn'" and "fits_ok conn"
    and "record_type r = TlsRecordType.ChangeCipherSpec"
  shows "fits_ok conn'"
proof -
  let ?c = "mark_ccs (set_handshake conn (apply_ccs (handshake (tc_state conn)) dir)) dir"
  have c: "records (tc_state ?c) = records (tc_state conn)" "stop_logging ?c = stop_logging conn"
    "post_ccs ?c d \<longleftrightarrow> post_ccs conn d \<or> d = dir" for d
    by (cases dir; cases d; simp add: set_handshake_def)+
  have "log_fits (records (tc_state conn'))
    \<and> stop_logging conn' = stop_logging ?c \<and> post_ccs conn' = post_ccs ?c
    \<and> (\<not> still_logs ?c \<and> conn' = ?c
       \<or> still_logs ?c \<and> (\<exists>e. records (tc_state conn') = records (tc_state ?c) @ [e] \<and> outer_type e = record_type r
            \<and> direction e = to_record_direction dir))"
    using assms by (intro push_fits) (auto simp: fits_ok_def c ingest_ccs_def)
  then have same: "log_fits (records (tc_state conn'))" "stop_logging conn' = stop_logging conn"
      "post_ccs conn' = post_ccs ?c"
    and grow: "conn' = ?c \<and> \<not> still_logs conn \<or> still_logs conn \<and> (\<exists>e. records (tc_state conn') = records (tc_state conn) @ [e]
        \<and> outer_type e = TlsRecordType.ChangeCipherSpec \<and> direction e = to_record_direction dir)"
    unfolding c assms(3) by blast+
  have inj: "to_record_direction dir = to_record_direction d \<longleftrightarrow> d = dir" for d
    by (cases d; cases dir) simp_all
  show ?thesis
  proof (cases "still_logs conn")
    case True
    then obtain e where e: "records (tc_state conn') = records (tc_state conn) @ [e]"
      "outer_type e = TlsRecordType.ChangeCipherSpec" "direction e = to_record_direction dir"
      using grow by blast
    have "flags_fit conn" using assms(2) True by (simp add: fits_ok_def)
    then show ?thesis
      using same by (simp add: fits_ok_def flags_fit_def ccs_logged_snoc c(3) e inj)
  next
    case False
    with grow have "conn' = ?c" by blast
    with same(1) c False show ?thesis unfolding fits_ok_def by metis
  qed
qed

lemma ingest_handshake_fits:
  assumes "ingest_handshake tp dir now_ms conn (own r) = Some conn'" and "fits_ok conn"
    and "record_type r = TlsRecordType.Handshake"
  shows "fits_ok conn'"
proof -
  obtain c1 c2 where c1: "c1 = conn \<or> (\<exists>hs. c1 = set_handshake conn hs)"
    and c2: "push_record_event c1 (own r) dir now_ms = Some c2"
    and c3: "conn' = c2 \<or> conn' = count_post_ccs c2 dir
      \<or> conn' = (count_post_ccs c2 dir)\<lparr>stop_logging := True\<rparr>"
    using assms(1) by (auto simp: ingest_handshake_def Let_def bind_eq_Some_conv split: if_splits)
  have "fits_ok c1"
    using c1 assms(2) by (auto simp: set_handshake_def intro: fits_same [OF _ _ same_flags])
  then have "fits_ok c2" using push_message_fits [OF c2] assms(3) by simp
  with c3 show ?thesis by (cases dir) (auto intro: fits_same [OF _ _ same_flags])
qed

lemma ingest_application_data_fits:
  assumes "ingest_application_data dir now_ms conn (own r) = Some conn'" and "fits_ok conn"
    and "record_type r = TlsRecordType.ApplicationData"
  shows "fits_ok conn'"
proof -
  obtain hs a b m where upd: "apply_encrypted_record (handshake (tc_state conn))
      (encrypted_records_from_server conn) (encrypted_records_from_client conn)
      (saw_client_finished_marker conn) dir = (hs, a, b, m)"
    by (metis prod_cases4)
  obtain c where push: "push_record_event c (own r) dir now_ms = Some conn'"
    and c: "records (tc_state c) = records (tc_state conn)" "stop_logging conn \<longrightarrow> stop_logging c"
      "client_ccs_seen c = client_ccs_seen conn" "server_ccs_seen c = server_ccs_seen conn"
    using assms(1) by (auto simp: ingest_application_data_def upd Let_def set_handshake_def)
  have "fits_ok c" by (rule fits_same [OF c(1,2) same_flags [OF c(3,4)] assms(2)])
  with push_message_fits [OF push] assms(3) show ?thesis by simp
qed

interpretation fitting_records: record_handler "ingest_record tp dir now_ms"
    "\<lambda>conn conn'. fits_ok conn \<longrightarrow> fits_ok conn'" for tp dir now_ms
proof unfold_locales
  fix r conn conn'
  assume run: "ingest_record tp dir now_ms conn (own r) = Some conn'"
  have ty: "or_record_type (own r) = record_type r" by (simp add: own_def)
  show "fits_ok conn \<longrightarrow> fits_ok conn'"
    using run ingest_handshake_fits ingest_application_data_fits ingest_ccs_fits
    unfolding ingest_record_def ty by (cases "record_type r") auto
qed blast+

lemma ingest_segment_fits:
  assumes run: "ingest_segment tp dir seg now_ms conn = Some conn'" and fits: "fits_ok conn"
  shows "fits_ok conn'"
proof (cases "\<exists>rs n. parse_spec (dir_buf dir conn @ seg) = Inr (rs, n)
    \<and> length (dir_buf dir conn) + length seg \<le> MAX_REASSEMBLY_BYTES")
  case True
  then obtain rs n where p: "parse_spec (dir_buf dir conn @ seg) = Inr (rs, n)"
    and "length (dir_buf dir conn) + length seg \<le> MAX_REASSEMBLY_BYTES" by blast
  then have "fold_exec (ingest_record tp dir now_ms) (set_buf dir (drop n (dir_buf dir conn @ seg)) conn)
      (map own rs) = Some conn'"
    using run by (simp add: ingest_segment_eq ingest_records_def)
  moreover have "list_all wf_record rs" using parse_spec_sound [OF p] by simp
  moreover have "fits_ok (set_buf dir buf conn)" for buf
    using fits by (cases dir) (auto intro: fits_same [OF _ _ same_flags])
  ultimately show ?thesis using fitting_records.loop_R by blast
next
  case False
  with run have "records (tc_state conn') = records (tc_state conn) \<and> stop_logging conn' = stop_logging conn
      \<and> client_ccs_seen conn' = client_ccs_seen conn \<and> server_ccs_seen conn' = server_ccs_seen conn"
    by (cases dir) (auto simp: ingest_segment_eq mark_errored_def set_handshake_def split: if_splits sum.splits)
  with fits show ?thesis by (auto intro: fits_same [OF _ _ same_flags])
qed

lemma fits_ok_new: "fits_ok (set_handshake (new_connection key now_ms) hs)"
proof -
  have "\<not> post_ccs (set_handshake (new_connection key now_ms) hs) d" for d
    by (cases d) (simp_all add: set_handshake_def new_connection_def)
  then show ?thesis
    by (simp add: fits_ok_def flags_fit_def log_fits_def ccs_logged_def set_handshake_def new_connection_def)
qed

lemma reachable_fits:
  assumes "reachable tp resolve (with_stale_timeout r timeout) t" and "hm_get (connections t) key = Some conn"
  shows "fits_ok conn"
proof -
  have "tracker_ok t \<and> (\<forall>k c. hm_get (connections t) k = Some c \<longrightarrow> fits_ok c)"
    using assms(1)
  proof (induction rule: reachable.induct)
    case start
    then show ?case
      by (simp add: tracker_ok_initial) (simp add: with_stale_timeout_def hm.get_empty)
  next
    case (segment t key dir a b seg now_ms out t')
    show ?case
    proof (cases "seg = []")
      case True
      with segment show ?thesis by (auto simp: ingest_def)
    next
      case False
      obtain conn r' c where e: "ingest_entry resolve key a b now_ms t = Some (conn, r')"
        and c: "ingest_segment tp dir seg now_ms (touch now_ms conn) = Some c"
        and t': "t' = t\<lparr>connections := hm_insert key c (connections t), resolver := r'\<rparr>"
        by (rule ingest_insert [OF segment(2) False])
      have "fits_ok conn"
        using e segment(3) fits_ok_new
        by (auto simp: ingest_entry_def Let_def bind_eq_Some_conv split: option.splits)
      then have "fits_ok (touch now_ms conn)"
        by (auto simp: touch_def intro: fits_same [OF _ _ same_flags])
      then have "fits_ok c" by (rule ingest_segment_fits [OF c])
      moreover have "tracker_ok t'" using ingest_ok segment(2,3) by blast
      ultimately show ?thesis
        using segment(3) t' by (auto simp: hm_get_insert tracker_ok_def)
    qed
  next
    case (evict t now_ms)
    then show ?case
      using evict_ok [of t now_ms]
      by (auto simp: evict_stale_def Let_def hm.get_retain tracker_ok_def split: option.splits if_splits)
  qed
  with assms(2) show ?thesis by blast
qed


text \<open>A tracker that has logged one record, for the witness.\<close>

lemma tracker_with_event:
  "\<exists>t conn. reachable sample_parser NullOriginResolver_resolve (with_stale_timeout () 9) t
     \<and> hm_get (connections t) (canonical (V4 1) 50000 (V4 2) 443) = Some conn
     \<and> map outer_type (records (tc_state conn)) = [TlsRecordType.ChangeCipherSpec]"
proof -
  let ?key = "canonical (V4 1) 50000 (V4 2) 443" and ?init = "with_stale_timeout () 9"
  let ?seg = "[20, 3, 3, 0, 1, 1] :: bytes" and ?dir = Direction.ClientToServer
  let ?r = "\<lparr>record_type = TlsRecordType.ChangeCipherSpec, legacy_version = 0x0303, payload = [1]\<rparr>"
  have "parse_records ?seg = Some (Inr ([?r], 6))" by code_simp
  then have p: "parse_spec ?seg = Inr ([?r], 6)" by (simp add: parse_records_spec)
  obtain hs where e: "ingest_entry NullOriginResolver_resolve ?key (V4 1, 50000) (V4 2, 443) 7 ?init
      = Some (set_handshake (new_connection ?key 7) hs, ())"
    by (simp add: ingest_entry_def with_stale_timeout_def hm.get_empty NullOriginResolver_resolve_def Let_def)
  let ?conn = "touch 7 (set_handshake (new_connection ?key 7) hs)"
  have "dir_buf ?dir ?conn = []" by (simp add: touch_def set_handshake_def new_connection_def)
  then obtain c where c: "ingest_segment sample_parser ?dir ?seg 7 ?conn = Some c"
    and ty: "map outer_type (records (tc_state c)) = [TlsRecordType.ChangeCipherSpec]"
    by (auto simp: ingest_segment_eq p MAX_REASSEMBLY_BYTES_def ingest_records_def own_def ingest_record_def
        ingest_ccs_def push_record_event_def build_body_def Let_def touch_def set_handshake_def
        new_connection_def RECORD_LOG_CAP_def)
  let ?t1 = "?init\<lparr>connections := hm_insert ?key c (connections ?init), resolver := ()\<rparr>"
  have "ingest sample_parser NullOriginResolver_resolve ?key ?dir (V4 1, 50000) (V4 2, 443) ?seg 7 ?init
      = Some (Inr (Some (tc_state c)), ?t1)"
    by (simp add: ingest_def e c)
  then have "reachable sample_parser NullOriginResolver_resolve ?init ?t1"
    by (rule reachable.segment [OF reachable.start])
  moreover have "hm_get (connections ?t1) ?key = Some c"
    by (simp add: hm_get_insert)
  ultimately show ?thesis using ty by (intro exI conjI)
qed

text \<open>
  C12. The body of every logged event is the one its bytes and the log before it call for: in
  every reachable tracker, an event of type \<open>ChangeCipherSpec\<close> has the body of that name; a
  handshake event has the decoding of its payload, unless the log holds an earlier
  \<open>ChangeCipherSpec\<close> of the same direction, and then it is shown as encrypted with the first 64
  bytes of the payload; an application-data event is always shown so.
\<close>

theorem logged_bodies_decoded:
  assumes "reachable tp resolve (with_stale_timeout r timeout) t"
    and "hm_get (connections t) key = Some conn" and "i < length (records (tc_state conn))"
  shows "body_fits (take i (records (tc_state conn))) (records (tc_state conn) ! i)"
  using reachable_fits [OF assms(1,2)] assms(3) by (simp add: fits_ok_def log_fits_def)

theorem logged_bodies_decoded_witness:
  "\<exists>t conn. reachable sample_parser NullOriginResolver_resolve (with_stale_timeout () 9) t
     \<and> hm_get (connections t) (canonical (V4 1) 50000 (V4 2) 443) = Some conn
     \<and> map body (records (tc_state conn)) = [RecordBody.ChangeCipherSpec]"
proof -
  obtain t conn where t: "reachable sample_parser NullOriginResolver_resolve (with_stale_timeout () 9) t"
    "hm_get (connections t) (canonical (V4 1) 50000 (V4 2) 443) = Some conn"
    and ty: "map outer_type (records (tc_state conn)) = [TlsRecordType.ChangeCipherSpec]"
    using tracker_with_event by (elim exE conjE)
  then obtain e where es: "records (tc_state conn) = [e]" "outer_type e = TlsRecordType.ChangeCipherSpec"
    by auto
  with logged_bodies_decoded [OF t, of 0] have "body e = RecordBody.ChangeCipherSpec"
    by (simp add: body_fits_def)
  with t es show ?thesis by auto
qed

end
