(* ===== verification/Hex_Util.thy ===== *)
theory Hex_Util
  imports Rust_Text
begin

text \<open>
  \<open>src/src/util/mod.rs\<close>: hexadecimal text for logs and for the detail view. The rows of a
  dump are read back by \<open>read_hex\<close>, which shows that no byte is lost or reordered.
\<close>

definition hex :: "bytes \<Rightarrow> string" where
  "hex bs = concat (map hex2 bs)"

definition hex_inline :: "bytes \<Rightarrow> string" where
  "hex_inline bs = concat (map (\<lambda>(i, b). (if 0 < i then '' '' else []) @ hex2 b) (enumerate 0 bs))"

text \<open>\<open>slice::chunks\<close>; the width is at least 1 where it is used.\<close>

function chunks :: "nat \<Rightarrow> 'a list \<Rightarrow> 'a list list" where
  "chunks w xs = (if xs = [] \<or> w = 0 then [] else take w xs # chunks w (drop w xs))"
  by pat_completeness auto
termination
  by (relation "measure (\<lambda>(w, xs). length xs)") auto

declare chunks.simps [simp del]

definition printable :: "u8 \<Rightarrow> char" where
  "printable b = (if 0x20 \<le> b \<and> b < 0x7f then char_of (unat b) else CHR ''.'')"

definition dump_row :: "usize \<Rightarrow> nat \<times> bytes \<Rightarrow> string" where
  "dump_row width row =
     (case row of (i, chunk) \<Rightarrow>
        zero_pad 4 (hex_nat (i * width)) @ '':  ''
        @ concat (map (\<lambda>b. hex2 b @ '' '') chunk)
        @ concat (replicate (width - length chunk) ''   '')
        @ '' |'' @ map printable chunk @ ''|'')"

definition dump_width :: "usize \<Rightarrow> usize" where
  "dump_width line_width = max 1 (min 64 line_width)"

definition hex_dump :: "bytes \<Rightarrow> usize \<Rightarrow> string" where
  "hex_dump bs line_width =
     (let width = dump_width line_width
      in concat (map (\<lambda>row. dump_row width row @ [CHR 0x0A]) (enumerate 0 (chunks width bs))))"

text \<open>\<open>str::lines\<close> on text that ends every line with a newline.\<close>

fun str_lines_from :: "string \<Rightarrow> string \<Rightarrow> string list" where
  "str_lines_from cur [] = (if cur = [] then [] else [cur])"
| "str_lines_from cur (c # cs) =
     (if c = CHR 0x0A then cur # str_lines_from [] cs else str_lines_from (cur @ [c]) cs)"

definition str_lines :: "string \<Rightarrow> string list" where
  "str_lines s = str_lines_from [] s"

section \<open>Reading hexadecimal back\<close>

definition hex_value :: "char \<Rightarrow> nat" where
  "hex_value c = (let n = of_char c in if n < 58 then n - 48 else n - 87)"

fun read_hex :: "string \<Rightarrow> bytes" where
  "read_hex (a # b # cs) = word_of_nat (16 * hex_value a + hex_value b) # read_hex cs"
| "read_hex _ = []"

lemma hex_value_digit: "n < 16 \<Longrightarrow> hex_value (hex_digit n) = n"
  by (auto simp: hex_value_def hex_digit_def Let_def)

lemma hex2_value:
  "word_of_nat (16 * hex_value (hex_digit (unat b div 16)) + hex_value (hex_digit (unat b mod 16)))
     = (b :: u8)"
proof -
  have "unat b div 16 < 16"
    using unat_u8_less [of b] less_mult_imp_div_less [of "unat b" 16 16] by simp
  then have "16 * hex_value (hex_digit (unat b div 16)) + hex_value (hex_digit (unat b mod 16)) = unat b"
    by (simp add: hex_value_digit)
  then show ?thesis by simp
qed

lemma read_hex_hex: "read_hex (hex bs) = bs"
proof (induction bs)
  case (Cons b bs)
  then show ?case using hex2_value [of b] by (simp add: hex_def hex2_def)
qed (simp add: hex_def)

lemma length_hex: "length (hex bs) = 2 * length bs"
  by (induction bs) (simp_all add: hex_def)

lemma concat_chunks: "0 < w \<Longrightarrow> concat (chunks w xs) = xs"
proof (induction w xs rule: chunks.induct)
  case (1 w xs)
  then show ?case by (subst chunks.simps) simp
qed

lemma length_chunks: "0 < w \<Longrightarrow> length (chunks w xs) = (length xs + w - 1) div w"
proof (induction w xs rule: chunks.induct)
  case (1 w xs)
  show ?case
  proof (cases "xs = []")
    case False
    have "length (chunks w xs) = Suc ((length xs - w + w - 1) div w)"
      using 1 False by (subst chunks.simps) simp
    also have "(length xs - w + w - 1) div w = (length xs - 1) div w"
      using 1(2) by (cases "length xs \<le> w") auto
    also have "Suc ((length xs - 1) div w) = (w + (length xs - 1)) div w"
      using div_add_self1 [of w "length xs - 1"] 1(2) by simp
    also have "w + (length xs - 1) = length xs + w - 1"
      using False by (cases xs) simp_all
    finally show ?thesis .
  qed (use 1(2) in \<open>subst chunks.simps, simp\<close>)
qed

lemma str_lines_line:
  "CHR 0x0A \<notin> set l \<Longrightarrow> str_lines_from cur (l @ CHR 0x0A # rest) = (cur @ l) # str_lines_from [] rest"
  by (induction l arbitrary: cur) auto

lemma str_lines_lines:
  "list_all (\<lambda>l. CHR 0x0A \<notin> set l) ls \<Longrightarrow>
     str_lines (concat (map (\<lambda>l. l @ [CHR 0x0A]) ls)) = ls"
  unfolding str_lines_def by (induction ls) (simp_all add: str_lines_line)

lemma hex_digit_not_newline: "hex_digit n \<noteq> CHR 0x0A" if "n < 16"
proof
  assume "hex_digit n = CHR 0x0A"
  then have "(of_char (hex_digit n) :: nat) = of_char (CHR 0x0A)" by (rule arg_cong)
  with that show False by (simp add: hex_digit_def split: if_splits)
qed

lemma hex_nat_no_newline: "CHR 0x0A \<notin> set (hex_nat n)"
proof (induction n rule: hex_nat.induct)
  case (1 n)
  then show ?case
    using hex_digit_not_newline [of n] hex_digit_not_newline [of "n mod 16"]
    by (subst hex_nat.simps) (auto simp: eq_commute)
qed

lemma hex2_no_newline: "CHR 0x0A \<notin> set (hex2 b)"
proof -
  have "unat b div 16 < 16"
    using unat_u8_less [of b] less_mult_imp_div_less [of "unat b" 16 16] by simp
  then show ?thesis
    using hex_digit_not_newline [of "unat b div 16"] hex_digit_not_newline [of "unat b mod 16"]
    by (auto simp: hex2_def eq_commute)
qed

lemma printable_no_newline: "printable b \<noteq> CHR 0x0A"
proof
  assume "printable b = CHR 0x0A"
  then have "(of_char (printable b) :: nat) = of_char (CHR 0x0A)" by (rule arg_cong)
  moreover have "32 \<le> unat b" if "0x20 \<le> b" using that by (simp add: word_le_nat_alt)
  ultimately show False using unat_u8_less [of b] by (simp add: printable_def split: if_splits)
qed

lemma dump_row_no_newline: "CHR 0x0A \<notin> set (dump_row w row)"
  by (auto simp: dump_row_def zero_pad_def hex2_no_newline printable_no_newline
      printable_no_newline [symmetric] hex_nat_no_newline split: prod.split)

text \<open>
  The hex dump loses nothing: its lines are the rows of the consecutive chunks of the
  input, one for every started \<open>width\<close> bytes, and the chunks together are the input.
\<close>

theorem hex_dump_rows:
  "str_lines (hex_dump bs n) = map (dump_row (dump_width n)) (enumerate 0 (chunks (dump_width n) bs))
   \<and> length (str_lines (hex_dump bs n)) = (length bs + dump_width n - 1) div dump_width n
   \<and> concat (chunks (dump_width n) bs) = bs"
proof -
  have w: "0 < dump_width n" by (simp add: dump_width_def)
  have "hex_dump bs n = concat (map (\<lambda>l. l @ [CHR 0x0A])
      (map (dump_row (dump_width n)) (enumerate 0 (chunks (dump_width n) bs))))"
    by (simp add: hex_dump_def Let_def comp_def)
  moreover have "list_all (\<lambda>l. CHR 0x0A \<notin> set l)
      (map (dump_row (dump_width n)) (enumerate 0 (chunks (dump_width n) bs)))"
    using dump_row_no_newline by (auto simp: list_all_iff)
  ultimately have lines: "str_lines (hex_dump bs n) =
      map (dump_row (dump_width n)) (enumerate 0 (chunks (dump_width n) bs))"
    using str_lines_lines by metis
  show ?thesis
    using w by (simp add: lines length_chunks concat_chunks)
qed

end
