(* ===== verification/Sections.thy ===== *)
theory Sections
  imports Record_Model Hex_Util
begin

text \<open>
  \<open>src/src/ui/sections.rs\<close>: the sectioned view of one record. A line is a list of styled
  spans; the static help texts are constants of the source and are represented by the name
  of the constant, as an \<open>EduTopic\<close>. The functions that slice are in \<open>exec\<close>, so that they
  do not panic is a theorem.
\<close>

datatype Style = RawStyle | DarkGray | WireStyle | HeaderStyle

type_synonym Line = "(Style \<times> string) list"

text \<open>One constructor for each pair of constants \<open>EDU_..._SHORT\<close> and \<open>EDU_..._DETAILS\<close>.\<close>

datatype EduTopic =
    EDU_CIPHER_OFFERED | EDU_CIPHER_CHOSEN | EDU_KEY_SHARE | EDU_SUPPORTED_VERSIONS | EDU_SIG_ALGS
  | EDU_SUPPORTED_GROUPS | EDU_PSK_MODES | EDU_PSK | EDU_EARLY_DATA | EDU_CLIENT_RANDOM
  | EDU_SERVER_RANDOM | EDU_SNI | EDU_ALPN | EDU_COOKIE | EDU_OPAQUE | EDU_LEGACY | EDU_FRAMING
  | EDU_CCS | EDU_UNKNOWN | EDU_ENCRYPTED_STAGE | EDU_ENCRYPTED_CIPHERTEXT
  | EDU_NEW_SESSION_TICKET | EDU_CERTIFICATE | EDU_SERVER_KEY_EXCHANGE | EDU_CERTIFICATE_REQUEST
  | EDU_SERVER_HELLO_DONE | EDU_CERTIFICATE_VERIFY | EDU_CLIENT_KEY_EXCHANGE | EDU_FINISHED
  | EDU_CERT_STATUS | EDU_KEY_UPDATE

record Section =
  title :: string
  direction_hint :: string
  value_lines :: "Line list"
  edu :: EduTopic

definition edu_for_msg_type :: "u8 \<Rightarrow> EduTopic" where
  "edu_for_msg_type msg_type =
     (if msg_type = 4 then EDU_NEW_SESSION_TICKET
      else if msg_type = 11 then EDU_CERTIFICATE
      else if msg_type = 12 then EDU_SERVER_KEY_EXCHANGE
      else if msg_type = 13 then EDU_CERTIFICATE_REQUEST
      else if msg_type = 14 then EDU_SERVER_HELLO_DONE
      else if msg_type = 15 then EDU_CERTIFICATE_VERIFY
      else if msg_type = 16 then EDU_CLIENT_KEY_EXCHANGE
      else if msg_type = 20 then EDU_FINISHED
      else if msg_type = 22 then EDU_CERT_STATUS
      else if msg_type = 24 then EDU_KEY_UPDATE
      else EDU_UNKNOWN)"

definition em_dash :: string where
  "em_dash = [CHR 0xE2, CHR 0x80, CHR 0x94]"

definition bullet :: string where
  "bullet = [CHR 0xE2, CHR 0x97, CHR 0x8F]"

section \<open>Lines\<close>

definition raw_line :: "string \<Rightarrow> Line" where
  "raw_line s = [(RawStyle, s)]"

definition wire_line :: "string \<Rightarrow> Line" where
  "wire_line s = [(WireStyle, s)]"

definition header_line :: "string \<Rightarrow> Line" where
  "header_line s = [(HeaderStyle, s)]"

definition kv_line :: "string \<Rightarrow> string \<Rightarrow> Line" where
  "kv_line k v = [(DarkGray, pad_right 16 k), (RawStyle, v)]"

definition kv_wire_line :: "string \<Rightarrow> string \<Rightarrow> Line" where
  "kv_wire_line k v = [(DarkGray, pad_right 16 k), (WireStyle, v)]"

definition hex_lines :: "bytes \<Rightarrow> Line list" where
  "hex_lines bs =
     (if bs = [] then [[(DarkGray, ''(empty)'')]]
      else map (\<lambda>row. [(WireStyle, row)]) (str_lines (hex_dump bs 16)))"

definition session_id_display :: "bytes \<Rightarrow> string" where
  "session_id_display bs =
     (if bs = [] then ''(empty)'' else dec (length bs) @ '' bytes: '' @ hex_inline bs)"

fun outer_name :: "TlsRecordType \<Rightarrow> string" where
  "outer_name TlsRecordType.Handshake = ''Handshake''"
| "outer_name TlsRecordType.ApplicationData = ''ApplicationData (encrypted)''"
| "outer_name TlsRecordType.ChangeCipherSpec = ''ChangeCipherSpec''"
| "outer_name TlsRecordType.Alert = ''Alert''"
| "outer_name (TlsRecordType.Other _) = ''Other''"

fun direction_hint_of :: "RecordDirection \<Rightarrow> string" where
  "direction_hint_of RecordDirection.ClientToServer = ''You sent this''"
| "direction_hint_of RecordDirection.ServerToClient = ''The server sent you this''"

section \<open>Key shares\<close>

record KeyShareLine =
  ksl_text :: string
  is_bytes :: bool

definition ks_text :: "string \<Rightarrow> KeyShareLine" where
  "ks_text s = \<lparr>ksl_text = s, is_bytes = False\<rparr>"

definition ks_bytes :: "string \<Rightarrow> KeyShareLine" where
  "ks_bytes s = \<lparr>ksl_text = s, is_bytes = True\<rparr>"

text \<open>\<open>LABEL (N B): HEX\<close>\<close>

definition sized_hex :: "string \<Rightarrow> bytes \<Rightarrow> string" where
  "sized_hex label bs = label @ '' ('' @ dec (length bs) @ '' B): '' @ hex_inline bs"

definition x25519_structure :: "bytes \<Rightarrow> KeyShareLine list" where
  "x25519_structure bs =
     [ks_text ''format: Curve25519 Montgomery u-coordinate, 32 bytes little-endian'',
      ks_text ''curve : y^2 = x^3 + 486662*x^2 + x  over GF(2^255 - 19)''] @
     (if length bs = 32 then [ks_bytes (sized_hex ''u'' bs)]
      else [ks_text (''expected 32 B, got '' @ dec (length bs) @ '' B '' @ em_dash
              @ '' non-standard encoding''),
            ks_bytes (''raw: '' @ hex_inline bs)])"

definition x448_structure :: "bytes \<Rightarrow> KeyShareLine list" where
  "x448_structure bs =
     [ks_text ''format: Curve448 Montgomery u-coordinate, 56 bytes little-endian'',
      ks_text ''curve : y^2 = x^3 + 156326*x^2 + x  over GF(2^448 - 2^224 - 1)''] @
     (if length bs = 56 then [ks_bytes (sized_hex ''u'' bs)]
      else [ks_text (''expected 56 B, got '' @ dec (length bs) @ '' B '' @ em_dash
              @ '' non-standard encoding''),
            ks_bytes (''raw: '' @ hex_inline bs)])"

definition sec1_point_structure :: "bytes \<Rightarrow> usize \<Rightarrow> string \<Rightarrow> KeyShareLine list exec" where
  "sec1_point_structure bs coord_len curve_desc =
     (let uncompressed_len = 1 + 2 * coord_len;
          compressed_len = 1 + coord_len;
          out = [ks_text (''format: SEC1 point on '' @ curve_desc @ '', big-endian coordinates'')];
          first = (case bs of [] \<Rightarrow> None | b # _ \<Rightarrow> Some b)
      in if first = Some 0x04 \<and> length bs = uncompressed_len
         then do {
           x \<leftarrow> slice bs 1 (1 + coord_len);
           y \<leftarrow> slice_from bs (1 + coord_len);
           Some (out @
             [ks_text (''encoding: uncompressed (0x04 || X || Y), 1+2*'' @ dec coord_len @ '' = ''
                @ dec uncompressed_len @ '' bytes''),
              ks_bytes ''prefix: 0x04'', ks_bytes (sized_hex ''X'' x), ks_bytes (sized_hex ''Y'' y)])
         }
         else if (first = Some 0x02 \<or> first = Some 0x03) \<and> length bs = compressed_len
         then do {
           p \<leftarrow> index bs 0;
           x \<leftarrow> slice_from bs 1;
           Some (out @
             [ks_text (''encoding: compressed (0x'' @ hex2 p @ '' || X), Y is the ''
                @ (if p = 0x02 then ''even'' else ''odd'') @ '' root of the curve equation''),
              ks_bytes (sized_hex ''X'' x)])
         }
         else Some (out @
             [ks_text (''unrecognized SEC1 prefix; expected 0x04/0x02/0x03 '' @ em_dash
                @ '' length '' @ dec (length bs) @ '' B''),
              ks_bytes (''raw: '' @ hex_inline bs)]))"

definition ffdhe_structure :: "bytes \<Rightarrow> usize \<Rightarrow> string \<Rightarrow> KeyShareLine list" where
  "ffdhe_structure bs p_bytes group_name =
     [ks_text (''format: '' @ group_name @ '' public value y = g^x mod p, big-endian''),
      ks_text (''expected size: '' @ dec p_bytes @ '' B (p is a '' @ dec (p_bytes * 8)
        @ ''-bit safe prime)'')] @
     (if length bs = p_bytes then [ks_bytes (sized_hex ''y'' bs)]
      else [ks_text (''size mismatch: got '' @ dec (length bs) @ '' B '' @ em_dash
              @ '' stripped leading zeros?''),
            ks_bytes (''raw: '' @ hex_inline bs)])"

definition preview_head_tail :: "bytes \<Rightarrow> usize \<Rightarrow> usize \<Rightarrow> string exec" where
  "preview_head_tail bs head tail =
     (if length bs \<le> head + tail then Some (hex_inline bs)
      else do {
        h \<leftarrow> slice bs 0 head;
        a \<leftarrow> usize_sub (length bs) head;
        elided \<leftarrow> usize_sub a tail;
        from \<leftarrow> usize_sub (length bs) tail;
        t \<leftarrow> slice_from bs from;
        Some (hex_inline h @ '' ... ('' @ dec elided @ '' B elided) ... '' @ hex_inline t)
      })"

definition hybrid_pq_structure ::
  "bytes \<Rightarrow> usize \<Rightarrow> usize \<Rightarrow> string \<Rightarrow> string \<Rightarrow> KeyShareLine list exec" where
  "hybrid_pq_structure bs classical_len pq_len classical_name pq_name =
     (let total = classical_len + pq_len;
          out = [ks_text (''format: hybrid = '' @ classical_name @ '' pubkey ('' @ dec classical_len
                   @ '' B) || '' @ pq_name @ '' encapsulation key ('' @ dec pq_len @ '' B)''),
                 ks_text (''why hybrid: '' @ classical_name
                   @ '' is safe against classical attackers; '' @ pq_name
                   @ '' is safe against quantum attackers. Both must break for the session to be broken.''),
                 ks_text (''expected total: '' @ dec total @ '' B'')]
      in if length bs = total
         then do {
           classical \<leftarrow> slice bs 0 classical_len;
           pq \<leftarrow> slice_from bs classical_len;
           preview \<leftarrow> preview_head_tail pq 16 16;
           Some (out @
             [ks_bytes (sized_hex classical_name classical),
              ks_bytes (pq_name @ '' ('' @ dec (length pq) @ '' B): '' @ preview)])
         }
         else do {
           start \<leftarrow> slice bs 0 (min (length bs) 48);
           Some (out @
             [ks_text (''size mismatch: got '' @ dec (length bs) @ '' B '' @ em_dash
                @ '' draft version may not match''),
              ks_bytes (''raw head: '' @ hex_inline start)])
         })"

definition key_share_structure :: "KeyShareEntry \<Rightarrow> KeyShareLine list exec" where
  "key_share_structure e =
     (let bs = key_exchange e
      in (case ks_group e of
        X25519 \<Rightarrow> Some (x25519_structure bs)
      | X448 \<Rightarrow> Some (x448_structure bs)
      | Secp256r1 \<Rightarrow> sec1_point_structure bs 32 ''secp256r1 (NIST P-256)''
      | Secp384r1 \<Rightarrow> sec1_point_structure bs 48 ''secp384r1 (NIST P-384)''
      | Secp521r1 \<Rightarrow> sec1_point_structure bs 66 ''secp521r1 (NIST P-521)''
      | Ffdhe2048 \<Rightarrow> Some (ffdhe_structure bs 256 ''ffdhe2048'')
      | Ffdhe3072 \<Rightarrow> Some (ffdhe_structure bs 384 ''ffdhe3072'')
      | Ffdhe4096 \<Rightarrow> Some (ffdhe_structure bs 512 ''ffdhe4096'')
      | X25519MlKem768 \<Rightarrow> hybrid_pq_structure bs 32 1184 ''X25519'' ''ML-KEM-768''
      | SecP256r1MlKem768 \<Rightarrow> hybrid_pq_structure bs 65 1184 ''secp256r1'' ''ML-KEM-768''
      | X25519Kyber768Draft00 \<Rightarrow> hybrid_pq_structure bs 32 1184 ''X25519'' ''Kyber768-draft00''
      | NamedGroup.Other _ \<Rightarrow>
          Some [ks_bytes (''public key ('' @ dec (length bs) @ '' B): '' @ hex_inline bs)]))"

definition key_share_header :: "bool \<Rightarrow> usize \<Rightarrow> KeyShareEntry \<Rightarrow> string" where
  "key_share_header is_client i e =
     (if is_client
      then bullet @ '' Offer #'' @ dec (i + 1) @ '': '' @ NamedGroup_fmt (ks_group e) @ '' (0x''
        @ hex4 (group_code e) @ '')  '' @ em_dash @ ''  key_len '' @ dec (length (key_exchange e)) @ '' B''
      else bullet @ '' Server pick: '' @ NamedGroup_fmt (ks_group e) @ '' (0x''
        @ hex4 (group_code e) @ '')  '' @ em_dash @ ''  key_len '' @ dec (length (key_exchange e)) @ '' B'')"

definition key_share_lines :: "KeyShareEntry list \<Rightarrow> bool \<Rightarrow> Line list exec" where
  "key_share_lines entries is_client =
     fold_exec (\<lambda>out (i, e). do {
         let out = (if 0 < i then out @ [raw_line []] else out);
         let out = out @ [header_line (key_share_header is_client i e)];
         ls \<leftarrow> key_share_structure e;
         Some (out @ map (\<lambda>l. if is_bytes l then wire_line (ksl_text l) else raw_line (ksl_text l)) ls)
       }) [] (enumerate 0 entries)"

section \<open>Extensions\<close>

definition sni_lines :: "ServerNameEntry list \<Rightarrow> Line list" where
  "sni_lines entries =
     map (\<lambda>e. wire_line (''name_type=0x'' @ hex2 (name_type e) @ ''  name=''
            @ str_of (from_utf8_lossy (sn_name e)))) entries"

definition psk_mode_name :: "u8 \<Rightarrow> string" where
  "psk_mode_name m =
     (if m = 0 then ''psk_ke'' else if m = 1 then ''psk_dhe_ke''
      else ''mode(0x'' @ hex2 m @ '')'')"

definition psk_identity_line :: "PskIdentity \<Rightarrow> Line" where
  "psk_identity_line i =
     wire_line (''  identity ('' @ dec (length (psk_identity i)) @ '' B) age=0x''
       @ hex8 (obfuscated_ticket_age i) @ '': '' @ hex_inline (psk_identity i))"

definition extension_body_lines :: "DecodedExtension \<Rightarrow> (Line list \<times> EduTopic) exec" where
  "extension_body_lines ext =
     (case ext_body ext of
        ServerName entries \<Rightarrow> Some (sni_lines entries, EDU_SNI)
      | SupportedVersions versions \<Rightarrow>
          Some ([wire_line (''versions: ''
                   @ join '', '' (map (TlsVersion_fmt \<circ> TlsVersion_from_u16) versions))],
                EDU_SUPPORTED_VERSIONS)
      | SignatureAlgorithms codes \<Rightarrow>
          Some ([wire_line (''schemes: '' @ join '', '' (map (\<lambda>c. ''0x'' @ hex4 c) codes))], EDU_SIG_ALGS)
      | KeyShare entries \<Rightarrow> map_option (\<lambda>ls. (ls, EDU_KEY_SHARE)) (key_share_lines entries True)
      | SupportedGroups groups \<Rightarrow>
          Some ([wire_line (''groups: '' @ join '', '' (map NamedGroup_fmt groups))], EDU_SUPPORTED_GROUPS)
      | Alpn protos \<Rightarrow>
          Some ([wire_line (''protocols: '' @ join '', '' (map AlpnProtocol_from_bytes protos))], EDU_ALPN)
      | PskKeyExchangeModes modes \<Rightarrow>
          Some ([wire_line (''modes: '' @ join '', '' (map psk_mode_name modes))], EDU_PSK_MODES)
      | Cookie bs \<Rightarrow> Some ([wire_line (sized_hex ''cookie'' bs)], EDU_COOKIE)
      | PreSharedKey identities binders_len \<Rightarrow>
          Some (wire_line (''identities: '' @ dec (length identities) @ '', binders_len: ''
                  @ dec binders_len @ '' B'') # map psk_identity_line identities, EDU_PSK)
      | EarlyData \<Rightarrow> Some ([raw_line ''(empty body)''], EDU_EARLY_DATA)
      | Opaque \<Rightarrow>
          Some ([if ext_raw ext = [] then raw_line ''(empty body)''
                 else wire_line (''raw: '' @ hex_inline (ext_raw ext))], EDU_OPAQUE))"

definition section_for_extension :: "DecodedExtension \<Rightarrow> string \<Rightarrow> Section exec" where
  "section_for_extension ext dir =
     map_option (\<lambda>(ls, topic).
         \<lparr>title = ext_name ext @ '' (0x'' @ hex4 (ext_type ext) @ '')'', direction_hint = dir,
          value_lines = ls, edu = topic\<rparr>)
       (extension_body_lines ext)"

definition PROMOTED_EXTENSIONS :: "u16 list" where
  "PROMOTED_EXTENSIONS = [0, 10, 13, 16, 41, 42, 43, 45, 51]"

definition push_extension_if_present ::
  "DecodedExtension list \<Rightarrow> string \<Rightarrow> u16 \<Rightarrow> Section list \<Rightarrow> Section list exec" where
  "push_extension_if_present exts dir ty out =
     (case find (\<lambda>e. ext_type e = ty) exts of
        None \<Rightarrow> Some out
      | Some ext \<Rightarrow> map_option (\<lambda>s. out @ [s]) (section_for_extension ext dir))"

definition key_share_title :: "bool \<Rightarrow> usize \<Rightarrow> string" where
  "key_share_title is_client n =
     (if is_client
      then ''key_share '' @ em_dash @ '' offered by client ('' @ dec n @ '' offer''
        @ (if n = 1 then [] else ''s'') @ '')''
      else ''key_share '' @ em_dash @ '' chosen by server'')"

definition push_key_share_if_present ::
  "DecodedExtension list \<Rightarrow> string \<Rightarrow> bool \<Rightarrow> Section list \<Rightarrow> Section list exec" where
  "push_key_share_if_present exts dir is_client out =
     (case find (\<lambda>e. ext_type e = 51) exts of
        None \<Rightarrow> Some out
      | Some ext \<Rightarrow>
          (case ext_body ext of
             KeyShare entries \<Rightarrow> do {
               ls \<leftarrow> key_share_lines entries is_client;
               Some (out @ [\<lparr>title = key_share_title is_client (length entries),
                             direction_hint = dir, value_lines = ls, edu = EDU_KEY_SHARE\<rparr>])
             }
           | _ \<Rightarrow> map_option (\<lambda>s. out @ [s]) (section_for_extension ext dir)))"

text \<open>The loop over the extensions that no other push has shown.\<close>

definition push_other_extensions ::
  "DecodedExtension list \<Rightarrow> string \<Rightarrow> Section list \<Rightarrow> Section list exec" where
  "push_other_extensions exts dir out =
     fold_exec (\<lambda>out ext.
         if ext_type ext \<notin> set PROMOTED_EXTENSIONS
         then map_option (\<lambda>s. out @ [s]) (section_for_extension ext dir) else Some out) out exts"

section \<open>Messages and records\<close>

definition suite_line :: "u16 \<times> CipherSuite option \<Rightarrow> Line" where
  "suite_line suite =
     (case suite of (code, known) \<Rightarrow>
        wire_line (''0x'' @ hex4 code @ ''  ''
          @ (case known of None \<Rightarrow> ''unknown'' | Some c \<Rightarrow> CipherSuite_fmt c)))"

definition cipher_suites_offered_section :: "DecodedClientHello \<Rightarrow> string \<Rightarrow> Section" where
  "cipher_suites_offered_section ch dir =
     \<lparr>title = ''Cipher suites offered ('' @ dec (length (ch_cipher_suites ch)) @ '')'',
      direction_hint = dir, value_lines = map suite_line (ch_cipher_suites ch),
      edu = EDU_CIPHER_OFFERED\<rparr>"

definition client_legacy_section :: "DecodedClientHello \<Rightarrow> string \<Rightarrow> Section" where
  "client_legacy_section ch dir =
     \<lparr>title = ''Legacy fields (TLS 1.2 compatibility)'', direction_hint = dir,
      value_lines =
        [kv_wire_line ''legacy_version'' (''0x'' @ hex4 (ch_legacy_version ch)),
         kv_wire_line ''session_id'' (session_id_display (ch_session_id ch)),
         kv_wire_line ''compression'' (hex_inline (ch_compression_methods ch))],
      edu = EDU_LEGACY\<rparr>"

definition server_legacy_section :: "DecodedServerHello \<Rightarrow> string \<Rightarrow> Section" where
  "server_legacy_section sh dir =
     \<lparr>title = ''Legacy fields (TLS 1.2 compatibility)'', direction_hint = dir,
      value_lines =
        [kv_wire_line ''legacy_version'' (''0x'' @ hex4 (sh_legacy_version sh)),
         kv_wire_line ''session_id_echo'' (session_id_display (sh_session_id_echo sh)),
         kv_wire_line ''compression'' (''0x'' @ hex2 (sh_compression_method sh))],
      edu = EDU_LEGACY\<rparr>"

definition push_client_hello ::
  "DecodedClientHello \<Rightarrow> string \<Rightarrow> Section list \<Rightarrow> Section list exec" where
  "push_client_hello ch dir out = do {
     let exts = ch_extensions ch;
     let out = out @ [cipher_suites_offered_section ch dir];
     out \<leftarrow> push_key_share_if_present exts dir True out;
     out \<leftarrow> push_extension_if_present exts dir 43 out;
     out \<leftarrow> push_extension_if_present exts dir 13 out;
     out \<leftarrow> push_extension_if_present exts dir 10 out;
     out \<leftarrow> push_extension_if_present exts dir 45 out;
     out \<leftarrow> push_extension_if_present exts dir 41 out;
     out \<leftarrow> push_extension_if_present exts dir 42 out;
     let out = out @ [\<lparr>title = ''Client random (32 bytes)'', direction_hint = dir,
       value_lines = [wire_line (hex_inline (ch_random ch))], edu = EDU_CLIENT_RANDOM\<rparr>];
     out \<leftarrow> push_extension_if_present exts dir 0 out;
     out \<leftarrow> push_extension_if_present exts dir 16 out;
     out \<leftarrow> push_other_extensions exts dir out;
     Some (out @ [client_legacy_section ch dir])
   }"

definition push_server_hello ::
  "DecodedServerHello \<Rightarrow> string \<Rightarrow> Section list \<Rightarrow> Section list exec" where
  "push_server_hello sh dir out = do {
     let exts = sh_extensions sh;
     let out = out @ [\<lparr>title = ''Cipher suite (chosen)'', direction_hint = dir,
       value_lines = [suite_line (sh_cipher_suite sh)], edu = EDU_CIPHER_CHOSEN\<rparr>];
     out \<leftarrow> push_key_share_if_present exts dir False out;
     out \<leftarrow> push_extension_if_present exts dir 43 out;
     let out = out @ [\<lparr>title = ''Server random (32 bytes)'', direction_hint = dir,
       value_lines = [wire_line (hex_inline (sh_random sh))], edu = EDU_SERVER_RANDOM\<rparr>];
     out \<leftarrow> push_extension_if_present exts dir 41 out;
     out \<leftarrow> push_other_extensions exts dir out;
     Some (out @ [server_legacy_section sh dir])
   }"

definition framing_section :: "RecordEvent \<Rightarrow> string \<Rightarrow> Section exec" where
  "framing_section r dir = do {
     let header_len = min (length (raw r)) 5;
     header \<leftarrow> slice (raw r) 0 header_len;
     Some \<lparr>title = ''Record framing'', direction_hint = dir,
       value_lines =
         [kv_line ''outer type'' (outer_name (outer_type r)),
          kv_line ''length'' (dec (unat (outer_length r)) @ '' bytes''),
          kv_line ''sequence'' (''#'' @ dec (unat (sequence r))),
          kv_wire_line ''record header'' (hex_inline header)],
       edu = EDU_FRAMING\<rparr>
   }"

definition unknown_section :: "u8 \<Rightarrow> bytes \<Rightarrow> string \<Rightarrow> Section" where
  "unknown_section msg_type bs dir =
     \<lparr>title = handshake_type_name msg_type @ '' (msg_type 0x'' @ hex2 msg_type @ '')'',
      direction_hint = dir,
      value_lines = kv_wire_line ''msg_type''
          (''0x'' @ hex2 msg_type @ ''  '' @ handshake_type_name msg_type) # hex_lines bs,
      edu = edu_for_msg_type msg_type\<rparr>"

definition body_sections :: "RecordBody \<Rightarrow> string \<Rightarrow> Section list exec" where
  "body_sections b dir =
     (case b of
        RecordBody.Handshake (DecodedHandshake.ClientHello ch) \<Rightarrow> push_client_hello ch dir []
      | RecordBody.Handshake (DecodedHandshake.ServerHello sh) \<Rightarrow> push_server_hello sh dir []
      | RecordBody.Handshake (DecodedHandshake.HelloRetryRequest sh) \<Rightarrow> push_server_hello sh dir []
      | RecordBody.Handshake (DecodedHandshake.Unknown msg_type bs) \<Rightarrow>
          Some [unknown_section msg_type bs dir]
      | RecordBody.EncryptedHandshake inferred_label ciphertext_preview \<Rightarrow>
          Some [\<lparr>title = ''Encrypted flight (inferred)'', direction_hint = dir,
                 value_lines = [kv_line ''guess'' inferred_label], edu = EDU_ENCRYPTED_STAGE\<rparr>,
                \<lparr>title = ''Ciphertext preview'', direction_hint = dir,
                 value_lines = hex_lines ciphertext_preview, edu = EDU_ENCRYPTED_CIPHERTEXT\<rparr>]
      | RecordBody.ChangeCipherSpec \<Rightarrow>
          Some [\<lparr>title = ''ChangeCipherSpec'', direction_hint = dir,
                 value_lines = [wire_line ''1 byte payload: 0x01 (activate negotiated cipher)''],
                 edu = EDU_CCS\<rparr>])"

definition sections_for :: "RecordEvent \<Rightarrow> Section list exec" where
  "sections_for r = do {
     let dir = direction_hint_of (direction r);
     out \<leftarrow> body_sections (body r) dir;
     framing \<leftarrow> framing_section r dir;
     Some (out @ [framing])
   }"

section \<open>No section panics\<close>

lemma preview_head_tail_total: "\<exists>s. preview_head_tail bs h t = Some s"
  by (simp add: preview_head_tail_def)

lemma sec1_point_structure_total: "\<exists>ls. sec1_point_structure bs n d = Some ls"
  by (cases bs) (simp_all add: sec1_point_structure_def Let_def)

lemma hybrid_pq_structure_total: "\<exists>ls. hybrid_pq_structure bs c p cn pn = Some ls"
proof (cases "length bs = c + p")
  case True
  obtain s where "preview_head_tail (drop c bs) 16 16 = Some s"
    using preview_head_tail_total by blast
  with True show ?thesis by (simp add: hybrid_pq_structure_def Let_def)
qed (simp add: hybrid_pq_structure_def Let_def)

lemma key_share_structure_total: "\<exists>ls. key_share_structure e = Some ls"
  using sec1_point_structure_total hybrid_pq_structure_total
  by (cases "ks_group e") (simp_all add: key_share_structure_def Let_def)

lemma key_share_lines_total: "\<exists>ls. key_share_lines es c = Some ls"
  unfolding key_share_lines_def
proof (rule fold_exec_total)
  fix out and ie :: "nat \<times> KeyShareEntry"
  obtain i e where ie: "ie = (i, e)" by force
  obtain ls where "key_share_structure e = Some ls"
    using key_share_structure_total by blast
  then show "\<exists>s'. (case ie of (i, e) \<Rightarrow> do {
         let out = (if 0 < i then out @ [raw_line []] else out);
         let out = out @ [header_line (key_share_header c i e)];
         ls \<leftarrow> key_share_structure e;
         Some (out @ map (\<lambda>l. if is_bytes l then wire_line (ksl_text l) else raw_line (ksl_text l)) ls)
       }) = Some s'"
    by (simp add: ie Let_def)
qed

lemma section_for_extension_total: "\<exists>s. section_for_extension e dir = Some s"
proof (cases "ext_body e")
  case (KeyShare es)
  then show ?thesis
    using key_share_lines_total [of es True]
    by (auto simp: section_for_extension_def extension_body_lines_def)
qed (simp_all add: section_for_extension_def extension_body_lines_def)

text \<open>What each push appends, as a list: the program's steps are these appends.\<close>

definition section_of :: "string \<Rightarrow> DecodedExtension \<Rightarrow> Section" where
  "section_of dir e = the (section_for_extension e dir)"

definition first_section :: "DecodedExtension list \<Rightarrow> string \<Rightarrow> u16 \<Rightarrow> Section list" where
  "first_section exts dir ty =
     (case find (\<lambda>e. ext_type e = ty) exts of None \<Rightarrow> [] | Some e \<Rightarrow> [section_of dir e])"

definition key_share_section :: "DecodedExtension list \<Rightarrow> string \<Rightarrow> bool \<Rightarrow> Section list" where
  "key_share_section exts dir c =
     (case find (\<lambda>e. ext_type e = 51) exts of None \<Rightarrow> []
      | Some e \<Rightarrow> [case ext_body e of
            KeyShare es \<Rightarrow> \<lparr>title = key_share_title c (length es), direction_hint = dir,
              value_lines = the (key_share_lines es c), edu = EDU_KEY_SHARE\<rparr>
          | _ \<Rightarrow> section_of dir e])"

definition other_sections :: "DecodedExtension list \<Rightarrow> string \<Rightarrow> Section list" where
  "other_sections exts dir =
     map (section_of dir) (filter (\<lambda>e. ext_type e \<notin> set PROMOTED_EXTENSIONS) exts)"

lemma section_for_extension_eq: "section_for_extension e dir = Some (section_of dir e)"
  using section_for_extension_total [of e dir] by (auto simp: section_of_def)

lemma push_extension_eq:
  "push_extension_if_present exts dir ty out = Some (out @ first_section exts dir ty)"
  by (simp add: push_extension_if_present_def first_section_def section_for_extension_eq
      split: option.split)

lemma push_key_share_eq:
  "push_key_share_if_present exts dir c out = Some (out @ key_share_section exts dir c)"
proof (cases "find (\<lambda>e. ext_type e = 51) exts")
  case (Some e)
  show ?thesis
  proof (cases "ext_body e")
    case (KeyShare es)
    with Some show ?thesis
      using key_share_lines_total [of es c]
      by (auto simp: push_key_share_if_present_def key_share_section_def)
  qed (use Some in \<open>simp_all add: push_key_share_if_present_def key_share_section_def
        section_for_extension_eq\<close>)
qed (simp add: push_key_share_if_present_def key_share_section_def)

lemma push_other_eq: "push_other_extensions exts dir out = Some (out @ other_sections exts dir)"
  unfolding push_other_extensions_def other_sections_def
  by (induction exts arbitrary: out) (simp_all add: section_for_extension_eq)

lemmas push_eqs = push_extension_eq push_key_share_eq push_other_eq

lemma push_client_hello_eq:
  "push_client_hello ch dir out = Some (out @ [cipher_suites_offered_section ch dir]
     @ key_share_section (ch_extensions ch) dir True
     @ concat (map (first_section (ch_extensions ch) dir) [43, 13, 10, 45, 41, 42])
     @ [\<lparr>title = ''Client random (32 bytes)'', direction_hint = dir,
          value_lines = [wire_line (hex_inline (ch_random ch))], edu = EDU_CLIENT_RANDOM\<rparr>]
     @ concat (map (first_section (ch_extensions ch) dir) [0, 16])
     @ other_sections (ch_extensions ch) dir @ [client_legacy_section ch dir])"
  by (simp add: push_client_hello_def push_eqs Let_def)

lemma push_server_hello_eq:
  "push_server_hello sh dir out = Some (out @ [\<lparr>title = ''Cipher suite (chosen)'',
         direction_hint = dir, value_lines = [suite_line (sh_cipher_suite sh)],
         edu = EDU_CIPHER_CHOSEN\<rparr>]
     @ key_share_section (sh_extensions sh) dir False
     @ first_section (sh_extensions sh) dir 43
     @ [\<lparr>title = ''Server random (32 bytes)'', direction_hint = dir,
          value_lines = [wire_line (hex_inline (sh_random sh))], edu = EDU_SERVER_RANDOM\<rparr>]
     @ first_section (sh_extensions sh) dir 41
     @ other_sections (sh_extensions sh) dir @ [server_legacy_section sh dir])"
  by (simp add: push_server_hello_def push_eqs Let_def)

lemma body_sections_total: "\<exists>out. body_sections b dir = Some out"
  by (cases b) (auto simp: body_sections_def push_client_hello_eq push_server_hello_eq
      split: DecodedHandshake.split)

lemma framing_section_total: "\<exists>s. framing_section r dir = Some s \<and> title s = ''Record framing''"
  by (simp add: framing_section_def Let_def)

lemma sections_for_returns: "\<exists>out. sections_for r = Some out"
  using body_sections_total [of "body r" "direction_hint_of (direction r)"]
    framing_section_total [of r "direction_hint_of (direction r)"]
  by (auto simp: sections_for_def Let_def)

text \<open>
  Every record has its sections: breaking a record down never panics, whatever its
  content, and always ends with the one framing section.
\<close>

theorem sections_for_total:
  "\<exists>out s. sections_for r = Some (out @ [s]) \<and> title s = ''Record framing''"
proof -
  let ?dir = "direction_hint_of (direction r)"
  obtain out where "body_sections (body r) ?dir = Some out" using body_sections_total by blast
  moreover obtain s where "framing_section r ?dir = Some s" "title s = ''Record framing''"
    using framing_section_total by blast
  ultimately show ?thesis by (simp add: sections_for_def Let_def)
qed

section \<open>Which extensions are shown\<close>

lemma find_distinct:
  "distinct (map ext_type exts) \<Longrightarrow> e \<in> set exts \<Longrightarrow>
     find (\<lambda>x. ext_type x = ext_type e) exts = Some e"
  by (induction exts) (auto simp: image_iff)

lemma find_None: "find (\<lambda>x. ext_type x = t) exts = None \<longleftrightarrow> t \<notin> ext_type ` set exts"
  by (auto simp: find_None_iff)

lemma length_first_section:
  "length (first_section exts dir t) = (if t \<in> ext_type ` set exts then 1 else 0)"
  using find_None [of t exts] by (auto simp: first_section_def split: option.splits)

lemma length_key_share_section:
  "length (key_share_section exts dir c) = (if 51 \<in> ext_type ` set exts then 1 else 0)"
  using find_None [of 51 exts] by (auto simp: key_share_section_def split: option.splits)

lemma length_other_sections:
  assumes "distinct (map ext_type exts)"
  shows "length (other_sections exts dir) = card (ext_type ` set exts - set PROMOTED_EXTENSIONS)"
proof -
  let ?rest = "filter (\<lambda>e. ext_type e \<notin> set PROMOTED_EXTENSIONS) exts"
  have "distinct (map ext_type ?rest)" using assms by (rule distinct_map_filter)
  then have "length ?rest = card (set (map ext_type ?rest))"
    by (metis distinct_card length_map)
  also have "set (map ext_type ?rest) = ext_type ` set exts - set PROMOTED_EXTENSIONS" by auto
  finally show ?thesis by (simp add: other_sections_def)
qed

lemma promoted_count:
  assumes "finite types"
  shows "(\<Sum>t\<leftarrow>[51, 43, 13, 10, 45, 41, 42, 0, 16 :: u16]. if t \<in> types then 1 else 0 :: nat)
    = card (types \<inter> set PROMOTED_EXTENSIONS)"
proof -
  let ?l = "[51, 43, 13, 10, 45, 41, 42, 0, 16 :: u16]"
  have "(\<Sum>t\<leftarrow>?l. if t \<in> types then 1 else 0 :: nat) = (\<Sum>t\<in>set ?l. if t \<in> types then 1 else 0)"
    by (rule sum_list_distinct_conv_sum_set) simp
  also have "\<dots> = card {t \<in> set ?l. t \<in> types}"
    by (simp only: sum.inter_filter [symmetric] finite_set card_eq_sum)
  also have "{t \<in> set ?l. t \<in> types} = types \<inter> set PROMOTED_EXTENSIONS"
    by (auto simp: PROMOTED_EXTENSIONS_def)
  finally show ?thesis .
qed

text \<open>
  A \<open>ClientHello\<close> is shown completely: when its extensions have different types, as the
  protocol requires, the view has one section for each extension, and the cipher suites, the
  random, the legacy fields and the framing; every extension but the key share has exactly
  its own section.
\<close>

theorem client_extensions_shown:
  assumes "body r = RecordBody.Handshake (DecodedHandshake.ClientHello ch)"
    and "distinct (map ext_type (ch_extensions ch))"
  shows "\<exists>out. sections_for r = Some out \<and> length out = length (ch_extensions ch) + 4
    \<and> (\<forall>e\<in>set (ch_extensions ch). ext_type e \<noteq> 51 \<longrightarrow>
         (\<exists>s\<in>set out. section_for_extension e (direction_hint_of (direction r)) = Some s))"
proof -
  let ?exts = "ch_extensions ch" and ?dir = "direction_hint_of (direction r)"
  let ?types = "ext_type ` set ?exts"
  obtain fr where fr: "framing_section r ?dir = Some fr" using framing_section_total by blast
  define out where "out = [cipher_suites_offered_section ch ?dir]
     @ key_share_section ?exts ?dir True
     @ concat (map (first_section ?exts ?dir) [43, 13, 10, 45, 41, 42])
     @ [\<lparr>title = ''Client random (32 bytes)'', direction_hint = ?dir,
          value_lines = [wire_line (hex_inline (ch_random ch))], edu = EDU_CLIENT_RANDOM\<rparr>]
     @ concat (map (first_section ?exts ?dir) [0, 16])
     @ other_sections ?exts ?dir @ [client_legacy_section ch ?dir] @ [fr]"
  have "sections_for r = Some out"
    by (simp add: sections_for_def Let_def body_sections_def assms(1) push_client_hello_eq fr out_def)
  moreover have "length out = length ?exts + 4"
  proof -
    have "length out = 4 + (\<Sum>t\<leftarrow>[51, 43, 13, 10, 45, 41, 42, 0, 16]. if t \<in> ?types then 1 else 0)
        + card (?types - set PROMOTED_EXTENSIONS)"
      by (simp add: out_def length_first_section length_key_share_section
          length_other_sections [OF assms(2)])
    also have "\<dots> = 4 + card ?types"
      using promoted_count [of ?types] card_Int_Diff [of ?types "set PROMOTED_EXTENSIONS"] by simp
    also have "card ?types = length ?exts"
      using distinct_card [OF assms(2)] by simp
    finally show ?thesis by simp
  qed
  moreover have "section_of ?dir e \<in> set out" if e: "e \<in> set ?exts" "ext_type e \<noteq> 51" for e
  proof (cases "ext_type e \<in> set PROMOTED_EXTENSIONS")
    case True
    have "first_section ?exts ?dir (ext_type e) = [section_of ?dir e]"
      by (simp add: first_section_def find_distinct [OF assms(2) e(1)])
    moreover have "ext_type e \<in> set [43, 13, 10, 45, 41, 42, 0, 16]"
      using True e(2) by (auto simp: PROMOTED_EXTENSIONS_def)
    ultimately show ?thesis by (auto simp: out_def)
  next
    case False
    with e(1) show ?thesis by (simp add: out_def other_sections_def)
  qed
  ultimately show ?thesis using section_for_extension_eq by blast
qed

theorem client_extensions_shown_witness:
  "\<exists>out. sections_for \<lparr>direction = RecordDirection.ClientToServer, timestamp_ms = 1, sequence = 1,
      outer_type = TlsRecordType.Handshake, outer_length = 3, raw = [22, 3, 1, 0, 3, 1, 0, 0],
      body = RecordBody.Handshake (DecodedHandshake.ClientHello
        \<lparr>ch_legacy_version = 0x0303, ch_random = replicate 32 0, ch_session_id = [],
         ch_cipher_suites = [], ch_compression_methods = [0],
         ch_extensions = [\<lparr>ext_type = 42, ext_name = ''early_data'', ext_raw = [],
           ext_body = EarlyData\<rparr>]\<rparr>)\<rparr> = Some out \<and> length out = 5"
proof -
  let ?ch = "\<lparr>ch_legacy_version = 0x0303, ch_random = replicate 32 0, ch_session_id = [],
         ch_cipher_suites = [], ch_compression_methods = [0],
         ch_extensions = [\<lparr>ext_type = 42, ext_name = ''early_data'', ext_raw = [],
           ext_body = EarlyData\<rparr>]\<rparr>"
  let ?r = "\<lparr>direction = RecordDirection.ClientToServer, timestamp_ms = 1, sequence = 1,
      outer_type = TlsRecordType.Handshake, outer_length = 3, raw = [22, 3, 1, 0, 3, 1, 0, 0],
      body = RecordBody.Handshake (DecodedHandshake.ClientHello ?ch)\<rparr>"
  have "body ?r = RecordBody.Handshake (DecodedHandshake.ClientHello ?ch)" by simp
  moreover have "distinct (map ext_type (ch_extensions ?ch))" by simp
  ultimately obtain out where "sections_for ?r = Some out" "length out = length (ch_extensions ?ch) + 4"
    using client_extensions_shown by blast
  then show ?thesis by simp
qed

text \<open>
  C27. A \<open>ServerHello\<close> is not: the view is the same whether or not the message carries the
  extensions \<open>server_name\<close>, \<open>supported_groups\<close>, \<open>signature_algorithms\<close>, \<open>alpn\<close>,
  \<open>early_data\<close> and \<open>psk_key_exchange_modes\<close>, which are promoted but never pushed. The
  ALPN protocol a TLS 1.2 server selects is among them.
\<close>

theorem server_extensions_hidden:
  assumes "body r = RecordBody.Handshake (DecodedHandshake.ServerHello sh)"
  shows "sections_for r = sections_for (r\<lparr>body := RecordBody.Handshake (DecodedHandshake.ServerHello
    (sh\<lparr>sh_extensions := filter (\<lambda>e. ext_type e \<notin> {0, 10, 13, 16, 42, 45}) (sh_extensions sh)\<rparr>))\<rparr>)"
proof -
  let ?keep = "\<lambda>e. ext_type e \<notin> {0, 10, 13, 16, 42, 45}"
  have find_keep: "find (\<lambda>e. ext_type e = t) (filter ?keep es) = find (\<lambda>e. ext_type e = t) es"
    if "t \<in> {41, 43, 51}" for t es
    using that by (induction es) auto
  have "first_section (filter ?keep es) dir t = first_section es dir t" if t: "t \<in> {41, 43}" for es dir t
  proof -
    from t have "t \<in> {41, 43, 51}" by auto
    then show ?thesis unfolding first_section_def by (simp only: find_keep)
  qed
  moreover have "key_share_section (filter ?keep es) dir c = key_share_section es dir c" for es dir c
    using find_keep [of 51 es] by (simp add: key_share_section_def)
  moreover have "other_sections (filter ?keep es) dir = other_sections es dir" for es dir
    unfolding other_sections_def filter_filter
    by (rule arg_cong [where f = "map (section_of dir)"], rule filter_cong)
       (auto simp: PROMOTED_EXTENSIONS_def)
  ultimately have "body_sections (RecordBody.Handshake (DecodedHandshake.ServerHello
      (sh\<lparr>sh_extensions := filter ?keep (sh_extensions sh)\<rparr>))) dir
    = body_sections (RecordBody.Handshake (DecodedHandshake.ServerHello sh)) dir" for dir
    by (simp add: body_sections_def push_server_hello_eq server_legacy_section_def)
  then show ?thesis
    by (simp add: sections_for_def Let_def framing_section_def assms cong del: exec_bind_weak_cong)
qed

theorem server_extensions_hidden_witness:
  "sections_for \<lparr>direction = RecordDirection.ServerToClient, timestamp_ms = 1, sequence = 1,
      outer_type = TlsRecordType.Handshake, outer_length = 3, raw = [22, 3, 3, 0, 3, 2, 0, 0],
      body = RecordBody.Handshake (DecodedHandshake.ServerHello
        \<lparr>sh_legacy_version = 0x0303, sh_random = replicate 32 0, sh_session_id_echo = [],
         sh_cipher_suite = (0xc02f, None), sh_compression_method = 0,
         sh_extensions = [\<lparr>ext_type = 16, ext_name = ''alpn'', ext_raw = [0, 3, 2, 104, 50],
           ext_body = Alpn [[104, 50]]\<rparr>]\<rparr>)\<rparr>
   = sections_for \<lparr>direction = RecordDirection.ServerToClient, timestamp_ms = 1, sequence = 1,
      outer_type = TlsRecordType.Handshake, outer_length = 3, raw = [22, 3, 3, 0, 3, 2, 0, 0],
      body = RecordBody.Handshake (DecodedHandshake.ServerHello
        \<lparr>sh_legacy_version = 0x0303, sh_random = replicate 32 0, sh_session_id_echo = [],
         sh_cipher_suite = (0xc02f, None), sh_compression_method = 0,
         sh_extensions = []\<rparr>)\<rparr>"
proof -
  let ?sh = "\<lparr>sh_legacy_version = 0x0303, sh_random = replicate 32 0, sh_session_id_echo = [],
         sh_cipher_suite = (0xc02f, None), sh_compression_method = 0,
         sh_extensions = [\<lparr>ext_type = 16, ext_name = ''alpn'', ext_raw = [0, 3, 2, 104, 50],
           ext_body = Alpn [[104, 50]]\<rparr>]\<rparr>"
  let ?r = "\<lparr>direction = RecordDirection.ServerToClient, timestamp_ms = 1, sequence = 1,
      outer_type = TlsRecordType.Handshake, outer_length = 3, raw = [22, 3, 3, 0, 3, 2, 0, 0],
      body = RecordBody.Handshake (DecodedHandshake.ServerHello ?sh)\<rparr>"
  have "body ?r = RecordBody.Handshake (DecodedHandshake.ServerHello ?sh)" by simp
  from server_extensions_hidden [OF this] show ?thesis by simp
qed

end
