(* ===== verification/App.thy ===== *)
theory App
  imports Sections Connection_State Hash_Map
begin

text \<open>
  \<open>src/src/ui/app.rs\<close> and \<open>src/src/ui/event.rs\<close>: the state machine of the user
  interface. One definition per method; a method that reads the sections of a record returns
  in \<open>exec\<close>, as \<open>sections_for\<close> does. The middle pane is a virtual list: row 0 is the
  metadata row, row \<open>i + 1\<close> is record \<open>i\<close>.
\<close>

datatype UiEvent = HandshakeUpdated ConnectionState | StaleEvicted usize

datatype PaneFocus = Connections | Records | Right

datatype RightPaneMode = Metadata | SectionsMode

datatype MiddlePaneMode = RecordsMode | Flow

definition USIZE_MAX :: usize where
  "USIZE_MAX = 2 ^ 64 - 1"

definition usize_saturating_add :: "usize \<Rightarrow> usize \<Rightarrow> usize" where
  "usize_saturating_add a b = min USIZE_MAX (a + b)"

record App =
  app_order :: "ConnectionKey list"
  app_connections :: "(ConnectionKey, ConnectionState) hmap"
  app_selected :: usize
  app_focus :: PaneFocus
  app_middle_mode :: MiddlePaneMode
  app_records_row :: usize
  app_section_index :: usize
  app_education :: bool
  app_diagram_overlay :: bool
  app_tick_count :: u64
  app_evicted :: usize

definition app_new :: App where
  "app_new = \<lparr>app_order = [], app_connections = hm_empty, app_selected = 0,
     app_focus = PaneFocus.Connections, app_middle_mode = RecordsMode, app_records_row = 0,
     app_section_index = 0, app_education = False, app_diagram_overlay = False,
     app_tick_count = 0, app_evicted = 0\<rparr>"

section \<open>What is selected\<close>

text \<open>\<open>v.get(i)\<close>\<close>

definition vec_get :: "'a list \<Rightarrow> usize \<Rightarrow> 'a option" where
  "vec_get xs i = (if i < length xs then Some (xs ! i) else None)"

text \<open>\<open>iter().position(p)\<close>\<close>

fun position :: "('a \<Rightarrow> bool) \<Rightarrow> 'a list \<Rightarrow> usize option" where
  "position p [] = None"
| "position p (x # xs) = (if p x then Some 0 else map_option Suc (position p xs))"

definition shown_connections :: "App \<Rightarrow> ConnectionState list" where
  "shown_connections app = List.map_filter (hm_get (app_connections app)) (app_order app)"

definition selected :: "App \<Rightarrow> ConnectionState option" where
  "selected app =
     Option.bind (vec_get (app_order app) (app_selected app)) (hm_get (app_connections app))"

definition selected_origin :: "App \<Rightarrow> Origin option" where
  "selected_origin app = Option.bind (selected app) (\<lambda>s. origin (handshake s))"

definition selected_record_count :: "App \<Rightarrow> usize" where
  "selected_record_count app =
     (case selected app of None \<Rightarrow> 0 | Some c \<Rightarrow> length (records c))"

definition record_selected :: "App \<Rightarrow> RecordEvent option" where
  "record_selected app =
     (if app_records_row app = 0 then None
      else Option.bind (selected app) (\<lambda>c. vec_get (records c) (app_records_row app - 1)))"

definition app_sections :: "App \<Rightarrow> Section list exec" where
  "app_sections app =
     (case record_selected app of None \<Rightarrow> Some [] | Some r \<Rightarrow> sections_for r)"

definition section_count :: "App \<Rightarrow> usize exec" where
  "section_count app = map_option length (app_sections app)"

definition right_mode :: "App \<Rightarrow> RightPaneMode" where
  "right_mode app = (if app_records_row app = 0 then Metadata else SectionsMode)"

definition is_section_expanded :: "App \<Rightarrow> usize \<Rightarrow> bool" where
  "is_section_expanded app i = app_education app"

definition is_client_hello :: "RecordEvent \<Rightarrow> bool" where
  "is_client_hello r =
     (case body r of RecordBody.Handshake (DecodedHandshake.ClientHello _) \<Rightarrow> True | _ \<Rightarrow> False)"

definition client_hello_row :: "App \<Rightarrow> usize option" where
  "client_hello_row app =
     Option.bind (selected app)
       (\<lambda>conn. map_option (\<lambda>idx. idx + 1) (position is_client_hello (records conn)))"

definition selected_is_tls12 :: "App \<Rightarrow> bool" where
  "selected_is_tls12 app =
     (case Option.bind (selected app) (\<lambda>c. tls_version (handshake c)) of
        None \<Rightarrow> False
      | Some v \<Rightarrow> v \<in> {Ssl30, Tls10, Tls11, Tls12})"

text \<open>The stage of the diagram that a record stands for.\<close>

definition finished_stage :: "RecordDirection \<Rightarrow> HandshakeStage" where
  "finished_stage dir =
     (case dir of RecordDirection.ClientToServer \<Rightarrow> HandshakeStage.ClientFinished
      | RecordDirection.ServerToClient \<Rightarrow> HandshakeStage.ServerFinished)"

definition label_stage :: "string \<Rightarrow> RecordDirection \<Rightarrow> HandshakeStage" where
  "label_stage l dir =
     (if contains l ''Finished only'' then finished_stage dir
      else if contains l ''application data'' \<or> contains l ''early data''
        \<or> contains l ''NewSessionTicket'' then HandshakeStage.ApplicationData
      else if contains l ''Finished'' then finished_stage dir
      else HandshakeStage.Certificate)"

definition unknown_stage :: "bool \<Rightarrow> u8 \<Rightarrow> RecordDirection \<Rightarrow> HandshakeStage option" where
  "unknown_stage tls12 msg_type dir =
     (if msg_type = 11
      then Some (if tls12 then HandshakeStage.ServerCertificate else HandshakeStage.Certificate)
      else if msg_type = 12 then Some HandshakeStage.ServerKeyExchange
      else if msg_type = 14 then Some HandshakeStage.ServerHelloDone
      else if msg_type = 16 then Some HandshakeStage.ClientKeyExchange
      else if msg_type = 20 then Some (finished_stage dir)
      else None)"

definition selected_record_stage :: "App \<Rightarrow> HandshakeStage option" where
  "selected_record_stage app =
     (case selected app of
        None \<Rightarrow> None
      | Some conn \<Rightarrow>
          if app_records_row app = 0 then None
          else (case vec_get (records conn) (app_records_row app - 1) of
              None \<Rightarrow> None
            | Some rec \<Rightarrow>
                (case body rec of
                   RecordBody.Handshake hs \<Rightarrow>
                     (case hs of
                        DecodedHandshake.ClientHello _ \<Rightarrow> Some HandshakeStage.ClientHello
                      | DecodedHandshake.ServerHello _ \<Rightarrow> Some HandshakeStage.ServerHello
                      | DecodedHandshake.HelloRetryRequest _ \<Rightarrow> Some HandshakeStage.ServerHello
                      | DecodedHandshake.Unknown msg_type _ \<Rightarrow>
                          unknown_stage (selected_is_tls12 app) msg_type (direction rec))
                 | RecordBody.EncryptedHandshake inferred_label _ \<Rightarrow>
                     Some (label_stage inferred_label (direction rec))
                 | RecordBody.ChangeCipherSpec \<Rightarrow> None)))"

section \<open>Operations\<close>

definition toggle_education :: "App \<Rightarrow> App" where
  "toggle_education app = app\<lparr>app_education := \<not> app_education app\<rparr>"

definition toggle_diagram :: "App \<Rightarrow> App" where
  "toggle_diagram app = app\<lparr>app_diagram_overlay := \<not> app_diagram_overlay app\<rparr>"

definition on_records_row_changed :: "App \<Rightarrow> App" where
  "on_records_row_changed app = app\<lparr>app_section_index := 0\<rparr>"

definition on_connection_changed :: "App \<Rightarrow> App" where
  "on_connection_changed app = app\<lparr>app_records_row := 0, app_section_index := 0\<rparr>"

definition toggle_middle_mode :: "App \<Rightarrow> App" where
  "toggle_middle_mode app =
     (let app = app\<lparr>app_middle_mode :=
                  (case app_middle_mode app of RecordsMode \<Rightarrow> Flow | Flow \<Rightarrow> RecordsMode)\<rparr>
      in if app_middle_mode app = Flow
         then (case client_hello_row app of
                 Some row \<Rightarrow> on_records_row_changed (app\<lparr>app_records_row := row\<rparr>)
               | None \<Rightarrow> app)
         else app)"

definition clear_connections :: "App \<Rightarrow> App" where
  "clear_connections app =
     app\<lparr>app_order := [], app_connections := hm_empty, app_selected := 0,
         app_focus := PaneFocus.Connections, app_records_row := 0, app_section_index := 0\<rparr>"

definition advance_past_metadata_row :: "App \<Rightarrow> App" where
  "advance_past_metadata_row app =
     (if app_records_row app = 0 \<and> 0 < selected_record_count app
      then on_records_row_changed (app\<lparr>app_records_row := 1\<rparr>) else app)"

definition focus_left :: "App \<Rightarrow> App" where
  "focus_left app =
     app\<lparr>app_focus := (case app_focus app of
        PaneFocus.Connections \<Rightarrow> PaneFocus.Connections
      | PaneFocus.Records \<Rightarrow> PaneFocus.Connections
      | PaneFocus.Right \<Rightarrow> PaneFocus.Records)\<rparr>"

definition focus_right :: "App \<Rightarrow> App" where
  "focus_right app =
     (let app = app\<lparr>app_focus := (case app_focus app of
                  PaneFocus.Connections \<Rightarrow> PaneFocus.Records
                | PaneFocus.Records \<Rightarrow> PaneFocus.Right
                | PaneFocus.Right \<Rightarrow> PaneFocus.Right)\<rparr>
      in if app_focus app = PaneFocus.Right then advance_past_metadata_row app else app)"

definition focus_cycle :: "App \<Rightarrow> App" where
  "focus_cycle app =
     (let app = app\<lparr>app_focus := (case app_focus app of
                  PaneFocus.Connections \<Rightarrow> PaneFocus.Records
                | PaneFocus.Records \<Rightarrow> PaneFocus.Right
                | PaneFocus.Right \<Rightarrow> PaneFocus.Connections)\<rparr>
      in if app_focus app = PaneFocus.Right then advance_past_metadata_row app else app)"

definition connection_prev :: "App \<Rightarrow> App" where
  "connection_prev app =
     (if app_order app = [] then app
      else let prior = app_selected app;
               app = app\<lparr>app_selected := prior - 1\<rparr>
           in if app_selected app \<noteq> prior then on_connection_changed app else app)"

definition connection_next :: "App \<Rightarrow> App" where
  "connection_next app =
     (if app_order app = [] then app
      else let last = length (app_order app) - 1;
               prior = app_selected app;
               app = (if app_selected app < last
                      then app\<lparr>app_selected := app_selected app + 1\<rparr> else app)
           in if app_selected app \<noteq> prior then on_connection_changed app else app)"

definition record_prev :: "App \<Rightarrow> App" where
  "record_prev app =
     (let prior = app_records_row app;
          app = app\<lparr>app_records_row := prior - 1\<rparr>
      in if app_records_row app \<noteq> prior then on_records_row_changed app else app)"

definition record_next :: "App \<Rightarrow> App" where
  "record_next app =
     (let cap = selected_record_count app;
          prior = app_records_row app;
          app = (if app_records_row app < cap
                 then app\<lparr>app_records_row := app_records_row app + 1\<rparr> else app)
      in if app_records_row app \<noteq> prior then on_records_row_changed app else app)"

definition section_prev :: "App \<Rightarrow> App" where
  "section_prev app =
     (if app_records_row app = 0 then app
      else app\<lparr>app_section_index := app_section_index app - 1\<rparr>)"

definition section_next :: "App \<Rightarrow> App exec" where
  "section_next app =
     (if app_records_row app = 0 then Some app
      else do {
        n \<leftarrow> section_count app;
        let cap = n - 1;
        Some (if app_section_index app < cap
              then app\<lparr>app_section_index := app_section_index app + 1\<rparr> else app)
      })"

definition select_prev :: "App \<Rightarrow> App" where
  "select_prev app =
     (case app_focus app of
        PaneFocus.Connections \<Rightarrow> connection_prev app
      | PaneFocus.Records \<Rightarrow> record_prev app
      | PaneFocus.Right \<Rightarrow> section_prev app)"

definition select_next :: "App \<Rightarrow> App exec" where
  "select_next app =
     (case app_focus app of
        PaneFocus.Connections \<Rightarrow> Some (connection_next app)
      | PaneFocus.Records \<Rightarrow> Some (record_next app)
      | PaneFocus.Right \<Rightarrow> section_next app)"

definition tick :: "App \<Rightarrow> App" where
  "tick app = app\<lparr>app_tick_count := app_tick_count app + 1\<rparr>"

definition clamp_indices :: "App \<Rightarrow> App exec" where
  "clamp_indices app =
     (let row_cap = selected_record_count app;
          app = (if row_cap < app_records_row app then app\<lparr>app_records_row := row_cap\<rparr> else app)
      in do {
        n \<leftarrow> section_count app;
        let sec_cap = n - 1;
        Some (if sec_cap < app_section_index app then app\<lparr>app_section_index := sec_cap\<rparr> else app)
      })"

definition handshake_updated :: "ConnectionState \<Rightarrow> App \<Rightarrow> App exec" where
  "handshake_updated state app =
     (let key = cs_key state;
          app = (if \<not> hm_contains (app_connections app) key
                 then app\<lparr>app_order := app_order app @ [key]\<rparr> else app);
          is_selected = (vec_get (app_order app) (app_selected app) = Some key);
          app = app\<lparr>app_connections := hm_insert key state (app_connections app)\<rparr>
      in if is_selected then clamp_indices app else Some app)"

definition stale_evicted :: "usize \<Rightarrow> App \<Rightarrow> App exec" where
  "stale_evicted n app =
     (let app = app\<lparr>app_evicted := usize_saturating_add (app_evicted app) n\<rparr>;
          selected_key = vec_get (app_order app) (app_selected app);
          app = app\<lparr>app_order := filter (hm_contains (app_connections app)) (app_order app)\<rparr>
      in if app_order app = []
         then Some (on_connection_changed (app\<lparr>app_selected := 0\<rparr>))
         else clamp_indices
           (case Option.bind selected_key (\<lambda>k. position (\<lambda>x. x = k) (app_order app)) of
              Some pos \<Rightarrow> app\<lparr>app_selected := pos\<rparr>
            | None \<Rightarrow> on_connection_changed
                (app\<lparr>app_selected := min (app_selected app) (length (app_order app) - 1)\<rparr>)))"

fun handle_ui_event :: "UiEvent \<Rightarrow> App \<Rightarrow> App exec" where
  "handle_ui_event (HandshakeUpdated state) app = handshake_updated state app"
| "handle_ui_event (StaleEvicted n) app = stale_evicted n app"

section \<open>The key bindings\<close>

text \<open>
  The keys \<open>run_event_loop\<close> of \<open>src/src/ui/mod.rs\<close> tells apart, and one turn of that loop: the
  pending events are drained, then the keyboard is polled. A quit ends the loop, a key event
  that is no press skips the tick.
\<close>

datatype KeyCode = KeyChar char | Esc | LeftArrow | Enter | RightArrow | Tab | UpArrow | DownArrow
  | OtherKey

fun dispatch_key :: "KeyCode \<Rightarrow> App \<Rightarrow> App exec" where
  "dispatch_key (KeyChar c) app =
     Some (if c = CHR ''w'' then clear_connections app
           else if c = CHR ''e'' then toggle_education app
           else if c = CHR ''d'' then toggle_diagram app
           else if c = CHR ''f'' then toggle_middle_mode app
           else app)"
| "dispatch_key Esc app = Some (focus_left app)"
| "dispatch_key LeftArrow app = Some (focus_left app)"
| "dispatch_key Enter app = Some (focus_right app)"
| "dispatch_key RightArrow app = Some (focus_right app)"
| "dispatch_key Tab app = Some (focus_cycle app)"
| "dispatch_key UpArrow app = Some (select_prev app)"
| "dispatch_key DownArrow app = select_next app"
| "dispatch_key OtherKey app = Some app"

datatype TermEvent = KeyPress KeyCode | KeyOther | NotAKey

datatype LoopStep = Quit App | Continue App

definition loop_turn :: "UiEvent list \<Rightarrow> TermEvent option \<Rightarrow> App \<Rightarrow> LoopStep exec" where
  "loop_turn pending polled app = do {
     app \<leftarrow> fold_exec (\<lambda>app evt. handle_ui_event evt app) app pending;
     (case polled of
        Some (KeyPress code) \<Rightarrow>
          if code = KeyChar CHR ''q'' then Some (Quit app)
          else map_option (\<lambda>app. Continue (tick app)) (dispatch_key code app)
      | Some KeyOther \<Rightarrow> Some (Continue app)
      | Some NotAKey \<Rightarrow> Some (Continue (tick app))
      | None \<Rightarrow> Some (Continue (tick app)))
   }"

text \<open>What the user and the tracker thread can do, one step after the other.\<close>

inductive app_reachable :: "App \<Rightarrow> bool" where
  start: "app_reachable app_new"
| turn: "app_reachable app \<Longrightarrow> loop_turn pending polled app = Some (Continue app') \<Longrightarrow> app_reachable app'"

end
