(* ===== verification/App_Invariant.thy ===== *)
theory App_Invariant
  imports App
begin

text \<open>
  What holds of the user interface at every moment: the invariant of \<open>App\<close> and its
  preservation by every key and every event, how the cursors move, and the refinement of the
  event handler to an insert-or-replace on the list of shown connections.
\<close>

declare exec_bind_weak_cong [cong del]

section \<open>What a method leaves alone\<close>

lemma selected_cong:
  "app_order app' = app_order app \<Longrightarrow> app_selected app' = app_selected app
     \<Longrightarrow> app_connections app' = app_connections app \<Longrightarrow> selected app' = selected app"
  by (simp add: selected_def)

lemma section_count_cong:
  "selected app' = selected app \<Longrightarrow> app_records_row app' = app_records_row app
     \<Longrightarrow> section_count app' = section_count app"
  by (simp add: section_count_def app_sections_def record_selected_def)

lemma count_cong: "selected app' = selected app \<Longrightarrow> selected_record_count app' = selected_record_count app"
  by (simp add: selected_record_count_def)

lemma selected_updates [simp]:
  "selected (app\<lparr>app_records_row := x0\<rparr>) = selected app"
  "selected (app\<lparr>app_section_index := x1\<rparr>) = selected app"
  "selected (app\<lparr>app_focus := x2\<rparr>) = selected app"
  "selected (app\<lparr>app_middle_mode := x3\<rparr>) = selected app"
  "selected (app\<lparr>app_education := x4\<rparr>) = selected app"
  "selected (app\<lparr>app_diagram_overlay := x5\<rparr>) = selected app"
  "selected (app\<lparr>app_tick_count := x6\<rparr>) = selected app"
  "selected (app\<lparr>app_evicted := x7\<rparr>) = selected app"
  by (rule selected_cong; simp)+

lemma count_updates [simp]:
  "selected_record_count (app\<lparr>app_records_row := x0\<rparr>) = selected_record_count app"
  "selected_record_count (app\<lparr>app_section_index := x1\<rparr>) = selected_record_count app"
  "selected_record_count (app\<lparr>app_focus := x2\<rparr>) = selected_record_count app"
  "selected_record_count (app\<lparr>app_middle_mode := x3\<rparr>) = selected_record_count app"
  "selected_record_count (app\<lparr>app_education := x4\<rparr>) = selected_record_count app"
  "selected_record_count (app\<lparr>app_diagram_overlay := x5\<rparr>) = selected_record_count app"
  "selected_record_count (app\<lparr>app_tick_count := x6\<rparr>) = selected_record_count app"
  "selected_record_count (app\<lparr>app_evicted := x7\<rparr>) = selected_record_count app"
  by (rule count_cong; simp)+

lemma section_count_updates [simp]:
  "section_count (app\<lparr>app_section_index := x0\<rparr>) = section_count app"
  "section_count (app\<lparr>app_focus := x1\<rparr>) = section_count app"
  "section_count (app\<lparr>app_middle_mode := x2\<rparr>) = section_count app"
  "section_count (app\<lparr>app_education := x3\<rparr>) = section_count app"
  "section_count (app\<lparr>app_diagram_overlay := x4\<rparr>) = section_count app"
  "section_count (app\<lparr>app_tick_count := x5\<rparr>) = section_count app"
  "section_count (app\<lparr>app_evicted := x6\<rparr>) = section_count app"
  by (rule section_count_cong; simp)+

lemma section_count_total: "\<exists>n. section_count app = Some n"
  using sections_for_returns by (auto simp: section_count_def app_sections_def split: option.splits)

lemma section_count_metadata [simp]: "app_records_row app = 0 \<Longrightarrow> section_count app = Some 0"
  by (simp add: section_count_def app_sections_def record_selected_def)

definition section_limit :: "App \<Rightarrow> nat" where
  "section_limit app = (case section_count app of None \<Rightarrow> 0 | Some n \<Rightarrow> n - 1)"

section \<open>The invariant\<close>

text \<open>The order lists every stored connection once, each is stored under its own key.\<close>

definition store_ok :: "App \<Rightarrow> bool" where
  "store_ok app \<longleftrightarrow> hm_ok (app_connections app) \<and> distinct (app_order app)
     \<and> (\<forall>k. k \<in> set (app_order app) \<longleftrightarrow> hm_contains (app_connections app) k)
     \<and> (\<forall>k s. hm_get (app_connections app) k = Some s \<longrightarrow> cs_key s = k)"

definition selection_ok :: "App \<Rightarrow> bool" where
  "selection_ok app \<longleftrightarrow>
     (if app_order app = [] then app_selected app = 0 else app_selected app < length (app_order app))"

text \<open>The cursors of the other two panes point into what those panes show.\<close>

definition cursors_ok :: "App \<Rightarrow> bool" where
  "cursors_ok app \<longleftrightarrow> app_records_row app \<le> selected_record_count app
     \<and> app_section_index app \<le> section_limit app"

definition app_ok :: "App \<Rightarrow> bool" where
  "app_ok app \<longleftrightarrow> store_ok app \<and> selection_ok app \<and> cursors_ok app"

lemma vec_get_Some: "vec_get xs i = Some x \<longleftrightarrow> i < length xs \<and> xs ! i = x"
  by (auto simp: vec_get_def)

lemma position_nth:
  "distinct xs \<Longrightarrow> i < length xs \<Longrightarrow> position (\<lambda>x. x = xs ! i) xs = Some i"
proof (induction xs arbitrary: i)
  case (Cons a xs)
  then show ?case by (cases i) auto
qed simp

lemma position_bound: "position p xs = Some i \<Longrightarrow> i < length xs \<and> p (xs ! i)"
  by (induction xs arbitrary: i) (auto split: if_splits)

lemma clamp_cursors:
  "\<exists>app'. clamp_indices app = Some app' \<and> cursors_ok app'
     \<and> app_order app' = app_order app \<and> app_selected app' = app_selected app
     \<and> app_connections app' = app_connections app"
proof -
  let ?row = "if selected_record_count app < app_records_row app
     then app\<lparr>app_records_row := selected_record_count app\<rparr> else app"
  obtain n where n: "section_count ?row = Some n" using section_count_total by blast
  let ?app' = "if n - 1 < app_section_index ?row then ?row\<lparr>app_section_index := n - 1\<rparr> else ?row"
  have "clamp_indices app = Some ?app'"
    by (simp add: clamp_indices_def Let_def n)
  moreover have "section_count ?app' = Some n"
    using n by simp
  then have "cursors_ok ?app'"
    by (auto simp: cursors_ok_def section_limit_def)
  ultimately show ?thesis by auto
qed

lemma clamp_noop: "cursors_ok app \<Longrightarrow> clamp_indices app = Some app"
  using section_count_total [of app]
  by (auto simp: cursors_ok_def clamp_indices_def Let_def section_limit_def)

declare exec_bind_weak_cong [cong del]

section \<open>Every operation keeps the invariant\<close>

lemmas app_ok_defs = app_ok_def store_ok_def selection_ok_def cursors_ok_def section_limit_def

lemma app_ok_new: "app_ok app_new"
  by (simp add: app_ok_defs app_new_def hm.invar_empty hm_contains_def hm.get_empty)

lemma app_ok_clear: "app_ok (clear_connections app)"
  by (simp add: app_ok_defs clear_connections_def hm.invar_empty hm_contains_def hm.get_empty)

lemma app_ok_flags:
  "app_ok app \<Longrightarrow> app_ok (toggle_education app)"
  "app_ok app \<Longrightarrow> app_ok (toggle_diagram app)"
  "app_ok app \<Longrightarrow> app_ok (tick app)"
  "app_ok app \<Longrightarrow> app_ok (focus_left app)"
  by (simp_all add: app_ok_defs toggle_education_def toggle_diagram_def tick_def focus_left_def)

text \<open>A cursor that moved is at most its limit, and the cursor right of it is at the start.\<close>

lemma app_ok_row:
  assumes "app_ok app" and "row \<le> selected_record_count app"
  shows "app_ok (on_records_row_changed (app\<lparr>app_records_row := row\<rparr>))"
  using assms by (simp add: app_ok_defs on_records_row_changed_def)

lemma app_ok_selected:
  assumes "app_ok app" and "i < length (app_order app)"
  shows "app_ok (on_connection_changed (app\<lparr>app_selected := i\<rparr>))"
  using assms by (auto simp: app_ok_defs on_connection_changed_def)

lemma app_ok_index:
  assumes "app_ok app" and "i \<le> section_limit app"
  shows "app_ok (app\<lparr>app_section_index := i\<rparr>)"
  using assms by (simp add: app_ok_defs)

lemma position_client_hello:
  "client_hello_row app = Some row \<Longrightarrow> row \<le> selected_record_count app"
  by (auto simp: client_hello_row_def selected_record_count_def bind_eq_Some_conv
      dest: position_bound)

lemma app_ok_mode: "app_ok app \<Longrightarrow> app_ok (app\<lparr>app_middle_mode := m\<rparr>)"
  by (simp add: app_ok_defs)

lemma app_ok_focus: "app_ok app \<Longrightarrow> app_ok (app\<lparr>app_focus := f\<rparr>)"
  by (simp add: app_ok_defs)

lemma app_ok_advance: "app_ok app \<Longrightarrow> app_ok (advance_past_metadata_row app)"
  by (simp add: advance_past_metadata_row_def app_ok_row)

lemma app_ok_toggle_middle_mode: "app_ok app \<Longrightarrow> app_ok (toggle_middle_mode app)"
  using position_client_hello [of "app\<lparr>app_middle_mode := Flow\<rparr>"]
  by (auto simp: toggle_middle_mode_def Let_def app_ok_mode
      split: option.splits MiddlePaneMode.splits intro!: app_ok_row)

lemma app_ok_focus_right: "app_ok app \<Longrightarrow> app_ok (focus_right app)"
  by (simp add: focus_right_def Let_def app_ok_focus app_ok_advance)

lemma app_ok_focus_cycle: "app_ok app \<Longrightarrow> app_ok (focus_cycle app)"
  by (simp add: focus_cycle_def Let_def app_ok_focus app_ok_advance)

text \<open>The moves in closed form: a move that changes nothing is the identity.\<close>

lemma connection_prev_eq:
  "connection_prev app =
     (if app_order app = [] \<or> app_selected app = 0 then app
      else on_connection_changed (app\<lparr>app_selected := app_selected app - 1\<rparr>))"
  by (cases "app_selected app") (simp_all add: connection_prev_def Let_def)

lemma connection_next_eq:
  "connection_next app =
     (if app_order app = [] \<or> length (app_order app) - 1 \<le> app_selected app then app
      else on_connection_changed (app\<lparr>app_selected := app_selected app + 1\<rparr>))"
  by (simp add: connection_next_def Let_def)

lemma record_prev_eq:
  "record_prev app =
     (if app_records_row app = 0 then app
      else on_records_row_changed (app\<lparr>app_records_row := app_records_row app - 1\<rparr>))"
  by (cases "app_records_row app") (simp_all add: record_prev_def Let_def)

lemma record_next_eq:
  "record_next app =
     (if selected_record_count app \<le> app_records_row app then app
      else on_records_row_changed (app\<lparr>app_records_row := app_records_row app + 1\<rparr>))"
  by (simp add: record_next_def Let_def)

lemma section_next_eq:
  "section_next app =
     Some (if app_records_row app = 0 \<or> section_limit app \<le> app_section_index app then app
           else app\<lparr>app_section_index := app_section_index app + 1\<rparr>)"
  using section_count_total [of app] by (auto simp: section_next_def section_limit_def)

lemma app_ok_moves:
  assumes "app_ok app"
  shows "app_ok (connection_prev app)" "app_ok (connection_next app)"
    "app_ok (record_prev app)" "app_ok (record_next app)" "app_ok (section_prev app)"
  using assms
proof -
  have "app_selected app < length (app_order app)" if "app_order app \<noteq> []"
    using assms that by (simp add: app_ok_def selection_ok_def)
  then show "app_ok (connection_prev app)" "app_ok (connection_next app)"
    using assms by (auto simp: connection_prev_eq connection_next_eq intro!: app_ok_selected)
  have "app_records_row app \<le> selected_record_count app" "app_section_index app \<le> section_limit app"
    using assms by (simp_all add: app_ok_def cursors_ok_def)
  then show "app_ok (record_prev app)" "app_ok (record_next app)" "app_ok (section_prev app)"
    using assms
    by (auto simp: record_prev_eq record_next_eq section_prev_def intro!: app_ok_row app_ok_index)
qed

lemma app_ok_select:
  assumes "app_ok app"
  shows "app_ok (select_prev app)" and "\<exists>app'. select_next app = Some app' \<and> app_ok app'"
  using assms
  by (auto simp: select_prev_def select_next_def app_ok_moves section_next_eq
      split: PaneFocus.splits intro!: app_ok_index)

lemma dispatch_ok:
  assumes "app_ok app"
  shows "\<exists>app'. dispatch_key code app = Some app' \<and> app_ok app'"
  using assms
  by (cases code) (auto simp: app_ok_clear app_ok_flags app_ok_toggle_middle_mode app_ok_focus_right
      app_ok_focus_cycle app_ok_select)

section \<open>Events\<close>

text \<open>What the list of connections shows after an update: the entry replaced, or appended.\<close>

definition upsert :: "ConnectionState \<Rightarrow> ConnectionState list \<Rightarrow> ConnectionState list" where
  "upsert s xs =
     (if cs_key s \<in> cs_key ` set xs
      then map (\<lambda>x. if cs_key x = cs_key s then s else x) xs else xs @ [s])"

lemma map_filter_defined:
  "\<forall>k\<in>set ks. g k \<noteq> None \<Longrightarrow> List.map_filter g ks = map (\<lambda>k. the (g k)) ks"
  by (induction ks) (auto simp: List.map_filter_simps)

lemma shown_eq:
  assumes "store_ok app"
  shows "shown_connections app = map (\<lambda>k. the (hm_get (app_connections app) k)) (app_order app)"
  unfolding shown_connections_def
  by (rule map_filter_defined) (use assms in \<open>auto simp: store_ok_def hm_contains_def\<close>)

lemma shown_keys:
  assumes "store_ok app"
  shows "map cs_key (shown_connections app) = app_order app"
proof -
  have "cs_key (the (hm_get (app_connections app) k)) = k" if "k \<in> set (app_order app)" for k
    using assms that by (auto simp: store_ok_def hm_contains_def)
  then show ?thesis by (simp add: shown_eq [OF assms] map_idI)
qed

declare exec_bind_weak_cong [cong del]

text \<open>The state before the cursors are clamped.\<close>

definition stored :: "ConnectionState \<Rightarrow> App \<Rightarrow> App" where
  "stored s app =
     app\<lparr>app_order := (if hm_contains (app_connections app) (cs_key s) then app_order app
                       else app_order app @ [cs_key s]),
         app_connections := hm_insert (cs_key s) s (app_connections app)\<rparr>"

lemma stored_fields [simp]:
  "app_selected (stored s app) = app_selected app"
  "app_records_row (stored s app) = app_records_row app"
  "app_section_index (stored s app) = app_section_index app"
  "app_connections (stored s app) = hm_insert (cs_key s) s (app_connections app)"
  by (simp_all add: stored_def)

lemma handshake_updated_eq:
  "handshake_updated s app =
     (if vec_get (app_order (stored s app)) (app_selected app) = Some (cs_key s)
      then clamp_indices (stored s app) else Some (stored s app))"
  by (simp add: handshake_updated_def stored_def Let_def)

lemma stored_ok:
  assumes "store_ok app" and "selection_ok app"
  shows "store_ok (stored s app)" and "selection_ok (stored s app)"
    and "app_order (stored s app) \<noteq> []"
proof -
  show "store_ok (stored s app)"
    using assms(1)
    by (auto simp: store_ok_def stored_def hm.invar_insert hm_get_insert)
  show "selection_ok (stored s app)"
    using assms(2) by (auto simp: selection_ok_def stored_def split: if_splits)
  show "app_order (stored s app) \<noteq> []"
    using assms(1) by (cases "app_order app") (auto simp: stored_def store_ok_def)
qed

lemma stored_shown:
  assumes "store_ok app" and "selection_ok app"
  shows "shown_connections (stored s app) = upsert s (shown_connections app)"
proof -
  let ?k = "cs_key s"
  have keys: "cs_key ` set (shown_connections app) = set (app_order app)"
    using shown_keys [OF assms(1)] by (metis list.set_map)
  have mem: "hm_contains (app_connections app) ?k \<longleftrightarrow> ?k \<in> set (app_order app)"
    using assms(1) by (simp add: store_ok_def)
  have own: "cs_key (the (hm_get (app_connections app) k)) = k" if "k \<in> set (app_order app)" for k
    using assms(1) that by (auto simp: store_ok_def hm_contains_def)
  have "shown_connections (stored s app) =
      map (\<lambda>k. if k = ?k then s else the (hm_get (app_connections app) k)) (app_order (stored s app))"
    by (simp add: shown_eq [OF stored_ok(1) [OF assms]] hm_get_insert if_distrib cong: if_cong)
  with own show ?thesis
    by (auto simp: shown_eq [OF assms(1)] upsert_def image_iff mem stored_def)
qed

lemma selected_nth:
  assumes "app_order app \<noteq> []" and "selection_ok app"
  shows "selected app = hm_get (app_connections app) (app_order app ! app_selected app)"
  using assms by (simp add: selected_def selection_ok_def vec_get_def)

lemma stored_other:
  assumes "app_ok app"
    and "vec_get (app_order (stored s app)) (app_selected app) \<noteq> Some (cs_key s)"
  shows "selected (stored s app) = selected app" and "cursors_ok (stored s app)"
proof -
  have nonempty: "app_order app \<noteq> []"
    using assms by (auto simp: app_ok_def selection_ok_def store_ok_def stored_def vec_get_def
        split: if_splits)
  have "app_order (stored s app) ! app_selected app = app_order app ! app_selected app"
    "app_order (stored s app) ! app_selected app \<noteq> cs_key s"
    using assms nonempty
    by (cases "hm_contains (app_connections app) (cs_key s)";
        auto simp: app_ok_def selection_ok_def stored_def vec_get_def nth_append)+
  moreover have "selection_ok (stored s app)" "app_order (stored s app) \<noteq> []"
    using assms(1) by (simp_all add: app_ok_def stored_ok)
  ultimately show same: "selected (stored s app) = selected app"
    using assms(1) nonempty by (simp add: selected_nth app_ok_def hm_get_insert)
  have "section_count (stored s app) = section_count app"
    by (rule section_count_cong) (simp_all add: same)
  then show "cursors_ok (stored s app)"
    using assms(1) by (simp add: app_ok_def cursors_ok_def section_limit_def count_cong [OF same])
qed

lemma shown_cong:
  "app_order app' = app_order app \<Longrightarrow> app_connections app' = app_connections app
     \<Longrightarrow> shown_connections app' = shown_connections app"
  by (simp add: shown_connections_def)

lemma handshake_updated_ok:
  assumes "app_ok app"
  shows "\<exists>app'. handshake_updated s app = Some app' \<and> app_ok app'
    \<and> shown_connections app' = upsert s (shown_connections app)
    \<and> app_selected app' = app_selected app"
proof -
  have ok: "store_ok app" "selection_ok app" using assms by (simp_all add: app_ok_def)
  show ?thesis
  proof (cases "vec_get (app_order (stored s app)) (app_selected app) = Some (cs_key s)")
    case True
    obtain app' where c: "clamp_indices (stored s app) = Some app'" "cursors_ok app'"
      "app_order app' = app_order (stored s app)" "app_selected app' = app_selected (stored s app)"
      "app_connections app' = app_connections (stored s app)"
      using clamp_cursors by blast
    with stored_ok [OF ok, of s] have "app_ok app'"
      by (simp add: app_ok_def store_ok_def selection_ok_def)
    then show ?thesis
      using True c stored_shown [OF ok, of s] shown_cong [OF c(3,5)]
      by (simp add: handshake_updated_eq)
  next
    case False
    then show ?thesis
      using stored_other [OF assms False] stored_ok [OF ok, of s] stored_shown [OF ok, of s]
      by (simp add: handshake_updated_eq app_ok_def)
  qed
qed

text \<open>The eviction event finds every connection still stored: only the counter moves.\<close>

lemma stale_evicted_eq:
  assumes "app_ok app"
  shows "stale_evicted n app =
    Some (app\<lparr>app_evicted := usize_saturating_add (app_evicted app) n\<rparr>)"
proof -
  let ?app = "app\<lparr>app_evicted := usize_saturating_add (app_evicted app) n\<rparr>"
  have keep: "filter (hm_contains (app_connections app)) (app_order app) = app_order app"
    using assms by (simp add: app_ok_def store_ok_def filter_id_conv)
  show ?thesis
  proof (cases "app_order app = []")
    case True
    with assms have row: "app_records_row app = 0" and sel: "app_selected app = 0"
      by (simp_all add: app_ok_defs selected_record_count_def selected_def vec_get_def)
    have "app_section_index app = 0" using assms row by (simp add: app_ok_defs)
    with True row sel show ?thesis
      by (simp add: stale_evicted_def Let_def on_connection_changed_def)
  next
    case False
    have i: "app_selected app < length (app_order app)" and d: "distinct (app_order app)"
      using assms False by (simp_all add: app_ok_def selection_ok_def store_ok_def)
    have "cursors_ok ?app" using assms by (simp add: app_ok_defs)
    then show ?thesis
      using False i by (simp add: stale_evicted_def Let_def keep vec_get_def position_nth [OF d i]
          clamp_noop)
  qed
qed

lemma app_ok_evicted: "app_ok app \<Longrightarrow> app_ok (app\<lparr>app_evicted := n\<rparr>)"
  by (simp add: app_ok_defs)

lemma handle_ui_event_ok:
  assumes "app_ok app"
  shows "\<exists>app'. handle_ui_event evt app = Some app' \<and> app_ok app'"
  using assms handshake_updated_ok [of app]
  by (cases evt) (auto simp: stale_evicted_eq app_ok_evicted)

lemma handle_ui_events_ok:
  assumes "app_ok app"
  shows "\<exists>app'. fold_exec (\<lambda>app evt. handle_ui_event evt app) app evts = Some app' \<and> app_ok app'"
  using assms
proof (induction evts arbitrary: app)
  case (Cons e evts)
  then obtain app1 where "handle_ui_event e app = Some app1" "app_ok app1"
    using handle_ui_event_ok by blast
  with Cons.IH show ?case by simp
qed simp

declare exec_bind_weak_cong [cong del]

section \<open>Cursors\<close>

text \<open>
  The three panes have one contract: a position that moves by one and stops at zero and at a
  limit the moves do not change.
\<close>

locale list_cursor =
  fixes ok :: "App \<Rightarrow> bool"
    and pos :: "App \<Rightarrow> nat"
    and limit :: "App \<Rightarrow> nat"
    and up :: "App \<Rightarrow> App"
    and down :: "App \<Rightarrow> App"
  assumes ok_up: "ok s \<Longrightarrow> ok (up s)"
    and ok_down: "ok s \<Longrightarrow> ok (down s)"
    and pos_bound: "ok s \<Longrightarrow> pos s \<le> limit s"
    and pos_up: "ok s \<Longrightarrow> pos (up s) = pos s - 1"
    and pos_down: "ok s \<Longrightarrow> pos (down s) = min (limit s) (pos s + 1)"
    and limit_up: "ok s \<Longrightarrow> limit (up s) = limit s"
    and limit_down: "ok s \<Longrightarrow> limit (down s) = limit s"
begin

lemma downs:
  "ok s \<Longrightarrow> ok ((down ^^ n) s) \<and> limit ((down ^^ n) s) = limit s
     \<and> pos ((down ^^ n) s) = min (limit s) (pos s + n)"
  using pos_bound [of s] by (induction n) (auto simp: ok_down limit_down pos_down)

lemma ups:
  "ok s \<Longrightarrow> ok ((up ^^ n) s) \<and> limit ((up ^^ n) s) = limit s \<and> pos ((up ^^ n) s) = pos s - n"
  by (induction n) (auto simp: ok_up limit_up pos_up)

lemma back_and_forth:
  assumes "ok s" and "pos s + n \<le> limit s"
  shows "pos ((up ^^ n) ((down ^^ n) s)) = pos s"
  using downs [OF assms(1), of n] ups [of "(down ^^ n) s" n] assms(2) by simp

lemma reaches_end:
  assumes "ok s"
  shows "pos ((down ^^ limit s) s) = limit s" and "pos ((up ^^ pos s) s) = 0"
  using downs [OF assms, of "limit s"] ups [OF assms, of "pos s"] pos_bound [OF assms] by simp_all

end

text \<open>What Up and Down do where one pane has the focus.\<close>

definition in_pane :: "PaneFocus \<Rightarrow> App \<Rightarrow> bool" where
  "in_pane f app \<longleftrightarrow> app_ok app \<and> app_focus app = f"

definition press_down :: "App \<Rightarrow> App" where
  "press_down app = (case dispatch_key DownArrow app of None \<Rightarrow> app | Some app' \<Rightarrow> app')"

definition press_up :: "App \<Rightarrow> App" where
  "press_up app = (case dispatch_key UpArrow app of None \<Rightarrow> app | Some app' \<Rightarrow> app')"

lemma presses_ok:
  assumes "app_ok app"
  shows "app_ok (press_down app)" and "app_ok (press_up app)"
  using dispatch_ok [OF assms, of DownArrow] dispatch_ok [OF assms, of UpArrow]
  by (auto simp: press_down_def press_up_def)

lemma presses_focus [simp]:
  "app_focus (press_down app) = app_focus app" "app_focus (press_up app) = app_focus app"
  by (auto simp: press_down_def press_up_def select_next_def select_prev_def section_next_eq
      connection_prev_eq connection_next_eq record_prev_eq record_next_eq section_prev_def
      on_connection_changed_def on_records_row_changed_def split: PaneFocus.splits)

lemmas press_defs = press_down_def press_up_def select_next_def select_prev_def
  connection_prev_eq connection_next_eq record_prev_eq record_next_eq section_prev_def
  section_next_eq on_connection_changed_def on_records_row_changed_def

lemma in_pane_presses:
  assumes "in_pane f app"
  shows "in_pane f (press_down app)" and "in_pane f (press_up app)"
  using assms by (simp_all add: in_pane_def presses_ok)

lemma in_pane_bounds:
  assumes "in_pane f app"
  shows "app_focus app = f" and "app_selected app \<le> length (app_order app) - 1"
    and "app_order app = [] \<Longrightarrow> app_selected app = 0"
    and "app_records_row app \<le> selected_record_count app"
    and "app_section_index app \<le> section_limit app"
    and "app_records_row app = 0 \<Longrightarrow> app_section_index app = 0"
  using assms by (auto simp: in_pane_def app_ok_defs split: if_splits)

interpretation connection_cursor: list_cursor "in_pane PaneFocus.Connections" app_selected
    "\<lambda>app. length (app_order app) - 1" press_up press_down
proof unfold_locales
  fix s :: App
  assume s: "in_pane PaneFocus.Connections s"
  show "app_selected (press_up s) = app_selected s - 1"
    "app_selected (press_down s) = min (length (app_order s) - 1) (app_selected s + 1)"
    "length (app_order (press_up s)) - 1 = length (app_order s) - 1"
    "length (app_order (press_down s)) - 1 = length (app_order s) - 1"
    using in_pane_bounds [OF s] by (auto simp: press_defs)
qed (auto dest: in_pane_presses in_pane_bounds)

interpretation record_cursor: list_cursor "in_pane PaneFocus.Records" app_records_row
    selected_record_count press_up press_down
proof unfold_locales
  fix s :: App
  assume s: "in_pane PaneFocus.Records s"
  show "app_records_row (press_up s) = app_records_row s - 1"
    "app_records_row (press_down s) = min (selected_record_count s) (app_records_row s + 1)"
    "selected_record_count (press_up s) = selected_record_count s"
    "selected_record_count (press_down s) = selected_record_count s"
    using in_pane_bounds [OF s] by (auto simp: press_defs)
qed (auto dest: in_pane_presses in_pane_bounds)

text \<open>The metadata row has no sections, so the cursor of the right pane is at 0 there.\<close>

interpretation section_cursor: list_cursor "in_pane PaneFocus.Right" app_section_index
    section_limit press_up press_down
proof unfold_locales
  fix s :: App
  assume s: "in_pane PaneFocus.Right s"
  show "app_section_index (press_up s) = app_section_index s - 1"
    "app_section_index (press_down s) = min (section_limit s) (app_section_index s + 1)"
    "section_limit (press_up s) = section_limit s"
    "section_limit (press_down s) = section_limit s"
    using in_pane_bounds [OF s] by (auto simp: press_defs section_limit_def)
qed (auto dest: in_pane_presses in_pane_bounds)

lemma downs_run:
  assumes "app_ok app"
  shows "fold_exec (\<lambda>a k. dispatch_key k a) app (replicate n DownArrow) = Some ((press_down ^^ n) app)"
  using assms
proof (induction n arbitrary: app)
  case (Suc n)
  obtain app' where "dispatch_key DownArrow app = Some app'" "app_ok app'"
    using dispatch_ok [OF Suc.prems] by blast
  moreover from this have "press_down app = app'" by (simp add: press_down_def)
  ultimately show ?case using Suc.IH by (simp add: funpow_swap1)
qed simp

declare exec_bind_weak_cong [cong del]

lemma ups_run:
  assumes "app_ok app"
  shows "fold_exec (\<lambda>a k. dispatch_key k a) app (replicate n UpArrow) = Some ((press_up ^^ n) app)"
  using assms
proof (induction n arbitrary: app)
  case (Suc n)
  obtain app' where "dispatch_key UpArrow app = Some app'" "app_ok app'"
    using dispatch_ok [OF Suc.prems] by blast
  moreover from this have "press_up app = app'" by (simp add: press_up_def)
  ultimately show ?case using Suc.IH by (simp add: funpow_swap1)
qed simp

section \<open>Reachable states\<close>

lemma loop_turn_ok:
  assumes "app_ok app"
  shows "\<exists>step. loop_turn pending polled app = Some step
    \<and> (\<forall>app'. step = Continue app' \<longrightarrow> app_ok app')"
proof -
  obtain app1 where 1: "fold_exec (\<lambda>app evt. handle_ui_event evt app) app pending = Some app1"
    and ok: "app_ok app1"
    using handle_ui_events_ok [OF assms] by blast
  show ?thesis
  proof (cases "\<exists>code. polled = Some (KeyPress code) \<and> code \<noteq> KeyChar CHR ''q''")
    case True
    then obtain code where code: "polled = Some (KeyPress code)" "code \<noteq> KeyChar CHR ''q''" by blast
    obtain app2 where "dispatch_key code app1 = Some app2" "app_ok app2"
      using dispatch_ok [OF ok] by blast
    with 1 code show ?thesis by (simp add: loop_turn_def app_ok_flags)
  next
    case False
    with 1 ok show ?thesis
      by (auto simp: loop_turn_def app_ok_flags split: option.splits TermEvent.splits)
  qed
qed

lemma app_reachable_ok: "app_reachable app \<Longrightarrow> app_ok app"
proof (induction rule: app_reachable.induct)
  case (turn app pending polled app')
  then show ?case using loop_turn_ok [of app pending polled] by auto
qed (rule app_ok_new)

text \<open>
  C24. The interface never panics and never points outside of what it shows: whatever events and
  keys came before, the next turn of the event loop returns, the connections shown are the ones
  listed, each once, and the selection, the row and the section index are in range.
\<close>

theorem ui_in_range:
  assumes "app_reachable app"
  shows "(\<exists>step. loop_turn pending polled app = Some step)
    \<and> map cs_key (shown_connections app) = app_order app \<and> distinct (app_order app)
    \<and> (app_order app \<noteq> [] \<longrightarrow> selected app = Some (shown_connections app ! app_selected app)
         \<and> app_selected app < length (shown_connections app))
    \<and> app_records_row app \<le> selected_record_count app
    \<and> (\<exists>n. section_count app = Some n \<and> app_section_index app \<le> n - 1)"
proof -
  have ok: "store_ok app" "selection_ok app" "cursors_ok app"
    using app_reachable_ok [OF assms] by (simp_all add: app_ok_def)
  have "\<exists>step. loop_turn pending polled app = Some step"
    using loop_turn_ok [OF app_reachable_ok [OF assms]] by blast
  moreover have "\<exists>n. section_count app = Some n \<and> app_section_index app \<le> n - 1"
    using section_count_total [of app] ok(3) by (auto simp: cursors_ok_def section_limit_def)
  moreover have "selected app = Some (shown_connections app ! app_selected app)
      \<and> app_selected app < length (shown_connections app)" if nonempty: "app_order app \<noteq> []"
  proof -
    have i: "app_selected app < length (app_order app)"
      using ok(2) nonempty by (simp add: selection_ok_def)
    then have "hm_contains (app_connections app) (app_order app ! app_selected app)"
      using ok(1) nth_mem [OF i] by (simp add: store_ok_def)
    with i show ?thesis
      by (auto simp: selected_nth [OF nonempty ok(2)] shown_eq [OF ok(1)] hm_contains_def)
  qed
  ultimately show ?thesis
    using ok shown_keys [OF ok(1)] by (simp add: store_ok_def cursors_ok_def)
qed

theorem ui_in_range_witness:
  "\<exists>step. loop_turn [] (Some (KeyPress DownArrow)) app_new = Some step"
  using ui_in_range [OF app_reachable.start] by blast

text \<open>The abstract list: an update inserts or replaces, an eviction does nothing.\<close>

fun view_after :: "ConnectionState list \<Rightarrow> UiEvent \<Rightarrow> ConnectionState list" where
  "view_after xs (HandshakeUpdated s) = upsert s xs"
| "view_after xs (StaleEvicted n) = xs"

text \<open>
  C25. The list of connections refines an abstract one: processing any events inserts each
  updated connection at the end or replaces the one with its key, and does nothing else.
\<close>

theorem view_refines:
  assumes "app_reachable app"
  shows "\<exists>app'. fold_exec (\<lambda>app evt. handle_ui_event evt app) app evts = Some app'
    \<and> shown_connections app' = foldl view_after (shown_connections app) evts
    \<and> app_selected app' = app_selected app"
proof -
  have "app_ok app" using assms by (rule app_reachable_ok)
  then show ?thesis
  proof (induction evts arbitrary: app)
    case (Cons e evts)
    have "\<exists>app1. handle_ui_event e app = Some app1 \<and> app_ok app1
        \<and> shown_connections app1 = view_after (shown_connections app) e
        \<and> app_selected app1 = app_selected app"
    proof (cases e)
      case (HandshakeUpdated s)
      with handshake_updated_ok [OF Cons.prems, of s] show ?thesis by auto
    next
      case (StaleEvicted n)
      then show ?thesis
        by (simp add: stale_evicted_eq [OF Cons.prems] app_ok_evicted [OF Cons.prems]
            shown_connections_def)
    qed
    then obtain app1 where "handle_ui_event e app = Some app1" "app_ok app1"
      "shown_connections app1 = view_after (shown_connections app) e"
      "app_selected app1 = app_selected app" by blast
    with Cons.IH [of app1] show ?case by simp
  qed simp
qed

theorem view_refines_witness:
  "\<exists>app'. fold_exec (\<lambda>app evt. handle_ui_event evt app) app_new
      [HandshakeUpdated \<lparr>cs_key = canonical (V4 1) 50000 (V4 2) 443, first_seen_ms = 3,
         last_seen_ms = 4, handshake = HandshakeInfo_new, records = []\<rparr>] = Some app'
    \<and> length (shown_connections app') = 1"
  using view_refines [OF app_reachable.start, of "[HandshakeUpdated \<lparr>cs_key = canonical (V4 1) 50000
      (V4 2) 443, first_seen_ms = 3, last_seen_ms = 4, handshake = HandshakeInfo_new, records = []\<rparr>]"]
  by (fastforce simp: upsert_def shown_connections_def app_new_def List.map_filter_simps)

text \<open>
  C26. An eviction of the tracker removes nothing from the interface: in every reachable state the
  event only adds to the counter of evicted connections, because the map it filters the list by
  is never shrunk. Evicted connections stay listed until the user clears the list.
\<close>

theorem eviction_only_counts:
  assumes "app_reachable app"
  shows "handle_ui_event (StaleEvicted n) app =
    Some (app\<lparr>app_evicted := usize_saturating_add (app_evicted app) n\<rparr>)"
  by (simp add: stale_evicted_eq [OF app_reachable_ok [OF assms]])

theorem eviction_only_counts_witness:
  "\<exists>app. app_reachable app \<and> shown_connections app \<noteq> []
    \<and> handle_ui_event (StaleEvicted 1) app = Some (app\<lparr>app_evicted := 1\<rparr>)"
proof -
  let ?s = "\<lparr>cs_key = canonical (V4 1) 50000 (V4 2) 443, first_seen_ms = 3,
         last_seen_ms = 4, handshake = HandshakeInfo_new, records = []\<rparr>"
  let ?u = "HandshakeUpdated ?s"
  obtain app where app: "handle_ui_event ?u app_new = Some app"
    "shown_connections app = upsert ?s (shown_connections app_new)"
    using handshake_updated_ok [OF app_ok_new, of ?s] by auto
  have "loop_turn [?u] None app_new = Some (Continue (tick app))"
    using app by (simp add: loop_turn_def)
  then have r: "app_reachable (tick app)" by (rule app_reachable.turn [OF app_reachable.start])
  have "shown_connections (tick app) \<noteq> []"
    using app(2) by (auto simp: upsert_def tick_def shown_connections_def)
  moreover have "app_evicted app = 0"
    using app(1) by (auto simp: handshake_updated_def Let_def app_new_def clamp_indices_def
        bind_eq_Some_conv split: if_splits)
  then have "usize_saturating_add (app_evicted (tick app)) 1 = 1"
    by (simp add: tick_def usize_saturating_add_def USIZE_MAX_def)
  ultimately show ?thesis using eviction_only_counts [OF r, of 1] r by auto
qed

text \<open>The cursor of a pane and the last entry it can be on.\<close>

fun cursor_of :: "PaneFocus \<Rightarrow> App \<Rightarrow> nat" where
  "cursor_of PaneFocus.Connections app = app_selected app"
| "cursor_of PaneFocus.Records app = app_records_row app"
| "cursor_of PaneFocus.Right app = app_section_index app"

fun last_entry :: "PaneFocus \<Rightarrow> App \<Rightarrow> nat" where
  "last_entry PaneFocus.Connections app = length (app_order app) - 1"
| "last_entry PaneFocus.Records app = selected_record_count app"
| "last_entry PaneFocus.Right app = section_limit app"

text \<open>
  In the pane that has the focus, pressing Down any number of times moves the cursor down by
  that number or to the last entry, and pressing Up as often afterwards brings it back where it
  was when the end was not in the way; no key of the two ever changes the focus.
\<close>

theorem arrows_move_the_cursor:
  assumes "app_reachable app"
  shows "\<exists>app1 app2. fold_exec (\<lambda>a k. dispatch_key k a) app (replicate n DownArrow) = Some app1
    \<and> app_focus app1 = app_focus app
    \<and> cursor_of (app_focus app) app1 = min (last_entry (app_focus app) app) (cursor_of (app_focus app) app + n)
    \<and> fold_exec (\<lambda>a k. dispatch_key k a) app1 (replicate n UpArrow) = Some app2
    \<and> (cursor_of (app_focus app) app + n \<le> last_entry (app_focus app) app \<longrightarrow>
         cursor_of (app_focus app) app2 = cursor_of (app_focus app) app)"
proof -
  let ?f = "app_focus app" and ?app1 = "(press_down ^^ n) app"
  have ok: "app_ok app" and pane: "in_pane ?f app"
    using app_reachable_ok [OF assms] by (simp_all add: in_pane_def)
  have d: "in_pane ?f ?app1 \<and> cursor_of ?f ?app1 = min (last_entry ?f app) (cursor_of ?f app + n)"
    using connection_cursor.downs [of app n] record_cursor.downs [of app n]
      section_cursor.downs [of app n] pane by (cases ?f) auto
  have u: "cursor_of ?f ((press_up ^^ n) ?app1) = cursor_of ?f app"
    if "cursor_of ?f app + n \<le> last_entry ?f app"
    using connection_cursor.back_and_forth [of app n] record_cursor.back_and_forth [of app n]
      section_cursor.back_and_forth [of app n] pane that by (cases ?f) auto
  have "app_ok ?app1" "app_focus ?app1 = ?f" using d by (simp_all add: in_pane_def)
  then show ?thesis
    using downs_run [OF ok, of n] ups_run [of ?app1 n] d u by auto
qed

theorem arrows_move_the_cursor_witness:
  "\<exists>app1. fold_exec (\<lambda>a k. dispatch_key k a) app_new (replicate 3 DownArrow) = Some app1
    \<and> app_selected app1 = 0"
proof -
  have f: "app_focus app_new = PaneFocus.Connections" by (simp add: app_new_def)
  obtain app1 where "fold_exec (\<lambda>a k. dispatch_key k a) app_new (replicate 3 DownArrow) = Some app1"
    "cursor_of PaneFocus.Connections app1 = min (last_entry PaneFocus.Connections app_new)
      (cursor_of PaneFocus.Connections app_new + 3)"
    using arrows_move_the_cursor [OF app_reachable.start, of 3] unfolding f by blast
  then show ?thesis by (simp add: app_new_def)
qed

end
