(* ===== verification/Pipeline.thy ===== *)
theory Pipeline
  imports Tracker_Invariant App_Invariant
begin

text \<open>
  How the parts are joined: \<open>src/src/capture/frame.rs\<close> (a frame to a TCP segment) and the
  tracker thread of \<open>src/src/ui/mod.rs\<close> (frames to events), and what the interface then shows
  of what the tracker knows. The crate \<open>etherparse\<close> is the parameter \<open>from_ethernet\<close>. The
  channel is unbounded and its receiver outlives the thread's loop, so \<open>send\<close> does not fail.
\<close>

section \<open>Frames\<close>

record Frame =
  timestamp_secs :: u64
  timestamp_usecs :: u32
  frame_bytes :: bytes

datatype NetSlice = Ipv4 u32 u32 | Ipv6 "128 word" "128 word" | Arp

datatype TransportSlice = Tcp u16 u16 bytes | OtherTransport

record SlicedPacket =
  net :: "NetSlice option"
  transport :: "TransportSlice option"

type_synonym etherparse = "bytes \<Rightarrow> SlicedPacket option"

record TcpSegment =
  src_ip :: IpAddr
  dst_ip :: IpAddr
  src_port :: u16
  dst_port :: u16
  seg_payload :: bytes

definition extract_tcp :: "etherparse \<Rightarrow> bytes \<Rightarrow> TcpSegment option" where
  "extract_tcp from_ethernet bs =
     (case from_ethernet bs of
        None \<Rightarrow> None
      | Some sliced \<Rightarrow>
          (case net sliced of
             None \<Rightarrow> None
           | Some layer \<Rightarrow>
               (case (case layer of
                        Ipv4 s d \<Rightarrow> Some (V4 s, V4 d)
                      | Ipv6 s d \<Rightarrow> Some (V6 s, V6 d)
                      | Arp \<Rightarrow> None) of
                  None \<Rightarrow> None
                | Some (s, d) \<Rightarrow>
                    (case transport sliced of
                       Some (Tcp sp dp p) \<Rightarrow>
                         Some \<lparr>src_ip = s, dst_ip = d, src_port = sp, dst_port = dp,
                               seg_payload = p\<rparr>
                     | _ \<Rightarrow> None))))"

section \<open>The tracker thread\<close>

text \<open>One turn: the events sent to the interface and the tracker afterwards.\<close>

definition handle_frame ::
  "etherparse \<Rightarrow> tls_parser \<Rightarrow> 'r OriginResolver \<Rightarrow> u64 \<Rightarrow> Frame \<Rightarrow> 'r ConnectionTracker
     \<Rightarrow> (UiEvent list \<times> 'r ConnectionTracker) exec" where
  "handle_frame from_ethernet tp resolve now frame tracker =
     (case extract_tcp from_ethernet (frame_bytes frame) of
        None \<Rightarrow> Some ([], tracker)
      | Some seg \<Rightarrow> do {
          let key = canonical (src_ip seg) (src_port seg) (dst_ip seg) (dst_port seg);
          let dir = segment_direction (src_ip seg) (src_port seg) key;
          let endpoint_a = (src_ip seg, src_port seg);
          let endpoint_b = (dst_ip seg, dst_port seg);
          (answer, tracker) \<leftarrow>
            ingest tp resolve key dir endpoint_a endpoint_b (seg_payload seg) now tracker;
          let sent = (case answer of
              Inr (Some state) \<Rightarrow> [HandshakeUpdated state]
            | Inr None \<Rightarrow> []
            | Inl e \<Rightarrow> []);
          let (removed, tracker) = evict_stale now tracker;
          Some (sent @ (if 0 < removed then [StaleEvicted removed] else []), tracker)
        })"

text \<open>The loop over the frames, each with the reading of the clock at its turn.\<close>

fun tracker_thread ::
  "etherparse \<Rightarrow> tls_parser \<Rightarrow> 'r OriginResolver \<Rightarrow> (Frame \<times> u64) list \<Rightarrow> 'r ConnectionTracker
     \<Rightarrow> (UiEvent list \<times> 'r ConnectionTracker) exec" where
  "tracker_thread from_ethernet tp resolve [] tracker = Some ([], tracker)"
| "tracker_thread from_ethernet tp resolve ((frame, now) # frames) tracker = do {
     (evs, tracker) \<leftarrow> handle_frame from_ethernet tp resolve now frame tracker;
     (later, tracker) \<leftarrow> tracker_thread from_ethernet tp resolve frames tracker;
     Some (evs @ later, tracker)
   }"

section \<open>What the interface shows of the tracker\<close>

text \<open>Every connection the tracker holds is shown in its latest state.\<close>

definition up_to_date :: "'r ConnectionTracker \<Rightarrow> App \<Rightarrow> bool" where
  "up_to_date t app \<longleftrightarrow>
     (\<forall>key conn. hm_get (connections t) key = Some conn \<longrightarrow>
        hm_get (app_connections app) key = Some (tc_state conn))"

lemma updated_connections:
  assumes "handshake_updated s app = Some app'"
  shows "app_connections app' = hm_insert (cs_key s) s (app_connections app)"
  using assms clamp_cursors [of "stored s app"]
  by (auto simp: handshake_updated_eq split: if_splits)

lemma ingest_up_to_date:
  assumes "ingest tp resolve key dir a b seg now t = Some (out, t')" and "tracker_ok t"
    and "up_to_date t app" and "app_ok app"
  shows "\<exists>app'. fold_exec (\<lambda>app evt. handle_ui_event evt app) app
      (case out of Inr (Some state) \<Rightarrow> [HandshakeUpdated state] | Inr None \<Rightarrow> [] | Inl e \<Rightarrow> []) = Some app'
    \<and> up_to_date t' app' \<and> app_ok app'"
proof (cases "seg = []")
  case True
  with assms show ?thesis by (auto simp: ingest_def)
next
  case False
  obtain conn r' c where c: "ingest_segment tp dir seg now (touch now conn) = Some c"
    "out = Inr (Some (tc_state c))"
    "t' = t\<lparr>connections := hm_insert key c (connections t), resolver := r'\<rparr>"
    by (rule ingest_insert [OF assms(1) False])
  have "tracker_ok t'" using ingest_ok [OF assms(2,1)] .
  then have key: "cs_key (tc_state c) = key"
    using c(3) by (auto simp: tracker_ok_def conn_ok_def hm_get_insert)
  obtain app' where app': "handshake_updated (tc_state c) app = Some app'" "app_ok app'"
    using handshake_updated_ok [OF assms(4)] by blast
  have "up_to_date t' app'"
    using assms(3) by (simp add: up_to_date_def updated_connections [OF app'(1)] key c(3) hm_get_insert)
  with app' c(2) show ?thesis by simp
qed

lemma evict_up_to_date:
  assumes "up_to_date t app" and "tracker_ok t"
  shows "up_to_date (snd (evict_stale now t)) app"
  using assms by (auto simp: up_to_date_def tracker_ok_def evict_stale_def Let_def hm.get_retain
      split: option.splits if_splits)

text \<open>A turn of the thread: a frame that is no TCP segment, or one segment and an eviction.\<close>

lemma handle_frame_elim:
  assumes "handle_frame from_ethernet tp resolve now frame t = Some (evs, t')"
  obtains (skipped) "extract_tcp from_ethernet (frame_bytes frame) = None" "evs = []" "t' = t"
  | (segment) seg key out t1 where "extract_tcp from_ethernet (frame_bytes frame) = Some seg"
      "key = canonical (src_ip seg) (src_port seg) (dst_ip seg) (dst_port seg)"
      "ingest tp resolve key (segment_direction (src_ip seg) (src_port seg) key)
         (src_ip seg, src_port seg) (dst_ip seg, dst_port seg) (seg_payload seg) now t = Some (out, t1)"
      "t' = snd (evict_stale now t1)"
      "evs = (case out of Inr (Some state) \<Rightarrow> [HandshakeUpdated state] | Inr None \<Rightarrow> [] | Inl e \<Rightarrow> [])
        @ (if 0 < fst (evict_stale now t1) then [StaleEvicted (fst (evict_stale now t1))] else [])"
proof (cases "extract_tcp from_ethernet (frame_bytes frame)")
  case None
  with assms skipped show thesis by (simp add: handle_frame_def)
next
  case (Some seg)
  with assms segment show thesis
    by (auto simp: handle_frame_def Let_def bind_eq_Some_conv split_def)
qed

text \<open>What every answer of the resolver keeps holds of it after any frames.\<close>

lemma frame_resolver:
  assumes "handle_frame from_ethernet tp resolve now frame t = Some (evs, t')"
    and keep: "\<And>r a b o' r'. P r \<Longrightarrow> resolve r a b = Some (o', r') \<Longrightarrow> P r'" and "P (resolver t)"
  shows "P (resolver t')"
  using assms(1)
proof (cases rule: handle_frame_elim)
  case (segment seg key out t1)
  have "P (resolver t1)"
  proof (cases "seg_payload seg = []")
    case True
    with segment(3) assms(3) show ?thesis by (simp add: ingest_def)
  next
    case False
    from ingest_origin [OF segment(3) False] assms(3) keep show ?thesis
      by (auto split: option.splits)
  qed
  with segment(4) show ?thesis by (simp add: evict_stale_def Let_def)
qed (use assms(3) in simp)

lemma thread_resolver:
  assumes "tracker_thread from_ethernet tp resolve frames t = Some (evs, t')"
    and keep: "\<And>r a b o' r'. P r \<Longrightarrow> resolve r a b = Some (o', r') \<Longrightarrow> P r'" and "P (resolver t)"
  shows "P (resolver t')"
  using assms(1,3)
proof (induction frames arbitrary: t evs)
  case (Cons f frames)
  obtain frame now evs1 t1 later where "f = (frame, now)"
    "handle_frame from_ethernet tp resolve now frame t = Some (evs1, t1)"
    "tracker_thread from_ethernet tp resolve frames t1 = Some (later, t')"
    using Cons.prems(1) by (cases f) (auto simp: bind_eq_Some_conv)
  moreover from this have "P (resolver t1)"
    using frame_resolver [where P = P and resolve = resolve] keep Cons.prems(2) by metis
  ultimately show ?case using Cons.IH by blast
qed simp

lemma frame_shown:
  assumes "handle_frame from_ethernet tp resolve now frame t = Some (evs, t2)"
    and "tracker_ok t" and "up_to_date t app" and "app_ok app"
  shows "\<exists>app'. fold_exec (\<lambda>app evt. handle_ui_event evt app) app evs = Some app'
    \<and> tracker_ok t2 \<and> up_to_date t2 app' \<and> app_ok app'"
  using assms(1)
proof (cases rule: handle_frame_elim)
  case skipped
  with assms(2-4) show ?thesis by simp
next
  case (segment seg key out t1)
  obtain app1 where app1: "fold_exec (\<lambda>app evt. handle_ui_event evt app) app
      (case out of Inr (Some state) \<Rightarrow> [HandshakeUpdated state] | Inr None \<Rightarrow> [] | Inl e \<Rightarrow> []) = Some app1"
    and up1: "up_to_date t1 app1" and ok1: "app_ok app1"
    using ingest_up_to_date [OF segment(3) assms(2-4)] by blast
  have t1: "tracker_ok t1" using ingest_ok [OF assms(2) segment(3)] .
  obtain removed where ev: "evict_stale now t1 = (removed, t2)"
    using segment(4) by (cases "evict_stale now t1") simp
  with evict_ok [OF t1, of now] evict_up_to_date [OF up1 t1, of now]
  have t2: "tracker_ok t2" "up_to_date t2 app1" by simp_all
  let ?evicted = "app1\<lparr>app_evicted := usize_saturating_add (app_evicted app1) removed\<rparr>"
  have "up_to_date t2 ?evicted" "app_ok ?evicted"
    using t2 ok1 by (simp_all add: up_to_date_def app_ok_evicted)
  moreover have "handle_ui_event (StaleEvicted removed) app1 = Some ?evicted"
    by (simp add: stale_evicted_eq [OF ok1])
  ultimately show ?thesis
    using segment(5) app1 ev t2 ok1 by (auto simp: fold_exec_append)
qed

lemma thread_shown:
  assumes "tracker_thread from_ethernet tp resolve frames t = Some (evs, t')"
    and "tracker_ok t" and "up_to_date t app" and "app_ok app"
  shows "\<exists>app'. fold_exec (\<lambda>app evt. handle_ui_event evt app) app evs = Some app'
    \<and> up_to_date t' app' \<and> app_ok app'"
  using assms
proof (induction frames arbitrary: t app evs)
  case (Cons fn frames)
  obtain frame now where fn: "fn = (frame, now)" by force
  with Cons.prems(1) obtain evs1 t1 evs2 where
    1: "handle_frame from_ethernet tp resolve now frame t = Some (evs1, t1)"
    and 2: "tracker_thread from_ethernet tp resolve frames t1 = Some (evs2, t')" "evs = evs1 @ evs2"
    by (auto simp: bind_eq_Some_conv)
  obtain app1 where "fold_exec (\<lambda>app evt. handle_ui_event evt app) app evs1 = Some app1"
    and ok1: "tracker_ok t1" "up_to_date t1 app1" "app_ok app1"
    using frame_shown [OF 1 Cons.prems(2-4)] by blast
  with Cons.IH [OF 2(1) ok1] 2(2) show ?case by (auto simp: fold_exec_append)
qed simp

lemma evict_resolver [simp]: "resolver (snd (evict_stale now t)) = resolver t"
  by (simp add: evict_stale_def Let_def)

lemma frame_total:
  assumes "consuming tp" and "returning resolve good" and "good (resolver t)"
  shows "\<exists>evs t'. handle_frame from_ethernet tp resolve now frame t = Some (evs, t') \<and> good (resolver t')"
proof (cases "extract_tcp from_ethernet (frame_bytes frame)")
  case (Some seg)
  let ?key = "canonical (src_ip seg) (src_port seg) (dst_ip seg) (dst_port seg)"
  obtain out t2 where "ingest tp resolve ?key (segment_direction (src_ip seg) (src_port seg) ?key)
      (src_ip seg, src_port seg) (dst_ip seg, dst_port seg) (seg_payload seg) now t = Some (out, t2)"
    and "good (resolver t2)"
    using ingest_total [OF assms] by blast
  with Some evict_resolver [of now t2] show ?thesis
    by (cases "evict_stale now t2") (simp add: handle_frame_def Let_def)
qed (simp add: handle_frame_def assms(3))

lemma thread_total:
  assumes "consuming tp" and "returning resolve good" and "good (resolver t)"
  shows "\<exists>evs t'. tracker_thread from_ethernet tp resolve frames t = Some (evs, t')"
  using assms(3)
proof (induction frames arbitrary: t)
  case (Cons fn frames)
  obtain frame now where fn: "fn = (frame, now)" by force
  obtain evs1 t1 where "handle_frame from_ethernet tp resolve now frame t = Some (evs1, t1)"
    and "good (resolver t1)"
    using frame_total [OF assms(1,2) Cons.prems] by blast
  with Cons.IH show ?case by (fastforce simp: fn)
qed simp

declare exec_bind_weak_cong [cong del]

section \<open>Properties\<close>

lemma tracker_ok_new: "tracker_ok (tracker_new r)"
  unfolding tracker_new_def by (rule tracker_ok_initial)

lemma up_to_date_shown:
  assumes "up_to_date t app" and "app_ok app" and "hm_get (connections t) key = Some conn"
  shows "tc_state conn \<in> set (shown_connections app) \<and> cs_key (tc_state conn) = key"
proof -
  from assms have get: "hm_get (app_connections app) key = Some (tc_state conn)"
    by (simp add: up_to_date_def)
  with assms(2) have "key \<in> set (app_order app)"
    by (simp add: app_ok_def store_ok_def hm_contains_def)
  with get have "tc_state conn \<in> set (shown_connections app)"
    using assms(2) by (force simp: app_ok_def shown_eq)
  with get assms(2) show ?thesis by (simp add: app_ok_def store_ok_def)
qed

text \<open>
  From an empty tracker and an empty list: the thread returns, the interface accepts the events,
  and then knows every connection the tracker holds exactly as the tracker has it.
\<close>

lemma thread_from_start:
  assumes "consuming tp" and "returning resolve good" and "good r"
  shows "\<exists>evs t app. tracker_thread from_ethernet tp resolve frames (tracker_new r) = Some (evs, t)
    \<and> fold_exec (\<lambda>app evt. handle_ui_event evt app) app_new evs = Some app
    \<and> up_to_date t app \<and> app_ok app"
proof -
  have start: "tracker_ok (tracker_new r)" "up_to_date (tracker_new r) app_new" "good (resolver (tracker_new r))"
    by (rule tracker_ok_new)
      (use assms(3) in \<open>simp_all add: up_to_date_def tracker_new_def with_stale_timeout_def hm.get_empty\<close>)
  obtain evs t where "tracker_thread from_ethernet tp resolve frames (tracker_new r) = Some (evs, t)"
    using thread_total [OF assms(1,2) start(3)] by blast
  with thread_shown [OF this start(1,2) app_ok_new] show ?thesis by blast
qed

text \<open>A frame decoder that reads one IPv4 TCP segment from every frame.\<close>

definition sample_ethernet :: etherparse where
  "sample_ethernet bs = Some \<lparr>net = Some (Ipv4 1 2), transport = Some (Tcp 50000 443 bs)\<rparr>"

lemma canonical_of_endpoints:
  "{(a, p), (b, q)} = {(c, m), (d, n)} \<Longrightarrow> canonical a p b q = canonical c m d n"
  using canonical_commute by (auto simp: doubleton_eq_iff)

lemma keys_insert: "set (hm_keys (hm_insert k v m)) = insert k (set (hm_keys m))"
  unfolding hm_keys_def by (rule hm_insert_keys)

lemma keys_evict: "set (hm_keys (connections (snd (evict_stale now t)))) \<subseteq> set (hm_keys (connections t))"
  by (auto simp: evict_stale_def Let_def hm_retain_def hm_keys_def)

lemma frame_keys:
  assumes "handle_frame from_ethernet tp resolve now frame t = Some (evs, t')" and "tracker_ok t"
    and "set (hm_keys (connections t)) \<subseteq> {canonical a p b q}"
    and "\<And>seg. extract_tcp from_ethernet (frame_bytes frame) = Some seg \<Longrightarrow>
      {(src_ip seg, src_port seg), (dst_ip seg, dst_port seg)} = {(a, p), (b, q)}"
  shows "tracker_ok t' \<and> set (hm_keys (connections t')) \<subseteq> {canonical a p b q}
    \<and> (\<forall>s. HandshakeUpdated s \<in> set evs \<longrightarrow> cs_key s = canonical a p b q)"
proof (cases "extract_tcp from_ethernet (frame_bytes frame)")
  case None
  with assms show ?thesis by (simp add: handle_frame_def)
next
  case (Some seg)
  let ?key = "canonical a p b q"
  let ?run = "\<lambda>out t1. ingest tp resolve ?key (segment_direction (src_ip seg) (src_port seg) ?key)
    (src_ip seg, src_port seg) (dst_ip seg, dst_port seg) (seg_payload seg) now t = Some (out, t1)"
  have key: "canonical (src_ip seg) (src_port seg) (dst_ip seg) (dst_port seg) = ?key"
    by (rule canonical_of_endpoints [OF assms(4) [OF Some]])
  from assms(1) obtain out t1 where run: "?run out t1" and t': "t' = snd (evict_stale now t1)"
    and evs: "evs = (case out of Inr (Some state) \<Rightarrow> [HandshakeUpdated state] | Inr None \<Rightarrow> [] | Inl e \<Rightarrow> [])
      @ (if 0 < fst (evict_stale now t1) then [StaleEvicted (fst (evict_stale now t1))] else [])"
    by (auto simp: handle_frame_def Some key Let_def bind_eq_Some_conv split_def)
  have ok1: "tracker_ok t1" using ingest_ok [OF assms(2) run] .
  have "set (hm_keys (connections t1)) \<subseteq> {?key}
    \<and> (\<forall>s. out = Inr (Some s) \<longrightarrow> cs_key s = ?key)"
  proof (cases "seg_payload seg = []")
    case True
    with run assms(3) show ?thesis by (auto simp: ingest_def)
  next
    case False
    obtain conn r' c where "out = Inr (Some (tc_state c))"
      "t1 = t\<lparr>connections := hm_insert ?key c (connections t), resolver := r'\<rparr>"
      by (rule ingest_insert [OF run False])
    with ok1 assms(3) show ?thesis by (auto simp: keys_insert tracker_ok_def conn_ok_def hm_get_insert)
  qed
  with evict_ok [OF ok1, of now] keys_evict [of now t1] show ?thesis
    by (auto simp: t' evs split: sum.splits option.splits if_splits)
qed

text \<open>
  A flow is one connection: when all the TCP segments run between the same two endpoints,
  whoever sends them, the tracker holds at most the one connection of their common key, and
  every update sent to the interface is about it.
\<close>

theorem one_flow_one_connection:
  assumes "\<forall>frame\<in>set (map fst frames). \<forall>seg. extract_tcp from_ethernet (frame_bytes frame) = Some seg \<longrightarrow>
      {(src_ip seg, src_port seg), (dst_ip seg, dst_port seg)} = {(a, p), (b, q)}"
    and "tracker_thread from_ethernet tp resolve frames (tracker_new r) = Some (evs, t)"
  shows "set (hm_keys (connections t)) \<subseteq> {canonical a p b q}
    \<and> (\<forall>s. HandshakeUpdated s \<in> set evs \<longrightarrow> cs_key s = canonical a p b q)"
proof -
  have "set (hm_keys (connections t)) \<subseteq> {canonical a p b q}
    \<and> (\<forall>s. HandshakeUpdated s \<in> set evs \<longrightarrow> cs_key s = canonical a p b q)"
    if "tracker_thread from_ethernet tp resolve frames t0 = Some (evs, t)" "tracker_ok t0"
      "set (hm_keys (connections t0)) \<subseteq> {canonical a p b q}" for t0
    using that assms(1)
  proof (induction frames arbitrary: t0 evs)
    case (Cons fn frames)
    obtain frame now where fn: "fn = (frame, now)" by force
    with Cons.prems(1) obtain evs1 t1 evs2 where
      1: "handle_frame from_ethernet tp resolve now frame t0 = Some (evs1, t1)"
      and 2: "tracker_thread from_ethernet tp resolve frames t1 = Some (evs2, t)"
      and evs: "evs = evs1 @ evs2"
      by (auto simp: bind_eq_Some_conv)
    have "tracker_ok t1 \<and> set (hm_keys (connections t1)) \<subseteq> {canonical a p b q}
      \<and> (\<forall>s. HandshakeUpdated s \<in> set evs1 \<longrightarrow> cs_key s = canonical a p b q)"
      using frame_keys [OF 1 Cons.prems(2,3)] Cons.prems(4) fn by simp
    with Cons.IH [OF 2] Cons.prems(4) evs show ?case by auto
  qed auto
  moreover have "tracker_ok (tracker_new r)" "hm_keys (connections (tracker_new r)) = []"
    by (rule tracker_ok_new, simp add: tracker_new_def with_stale_timeout_def hm_keys_def hm_empty_def)
  ultimately show ?thesis using assms(2) by simp
qed

theorem one_flow_one_connection_witness:
  "\<exists>evs t. tracker_thread sample_ethernet sample_parser NullOriginResolver_resolve
      [(\<lparr>timestamp_secs = 0, timestamp_usecs = 0, frame_bytes = [22, 3, 1]\<rparr>, 7)] (tracker_new ()) = Some (evs, t)
    \<and> set (hm_keys (connections t)) \<subseteq> {canonical (V4 1) 50000 (V4 2) 443}"
proof -
  let ?frames = "[(\<lparr>timestamp_secs = 0, timestamp_usecs = 0, frame_bytes = [22, 3, 1]\<rparr>, 7)]"
  obtain evs t where run: "tracker_thread sample_ethernet sample_parser NullOriginResolver_resolve
      ?frames (tracker_new ()) = Some (evs, t)"
    using thread_from_start [OF consuming_sample_parser null_answers.returning] by blast
  have "\<forall>frame\<in>set (map fst ?frames). \<forall>seg. extract_tcp sample_ethernet (frame_bytes frame) = Some seg \<longrightarrow>
      {(src_ip seg, src_port seg), (dst_ip seg, dst_port seg)} = {(V4 1, 50000), (V4 2, 443)}"
    by (simp add: extract_tcp_def sample_ethernet_def)
  from one_flow_one_connection [OF this run] run show ?thesis by blast
qed

section \<open>What the diagram makes of a label\<close>

lemma label_stage_values:
  "label_stage ''application data'' d = HandshakeStage.ApplicationData"
  "label_stage ''encrypted application data'' d = HandshakeStage.ApplicationData"
  "label_stage ''likely EncryptedExtensions (server fragmented flight)'' d = HandshakeStage.Certificate"
  "label_stage ''likely EncryptedExtensions + Finished (resumed session, no Certificate)'' d = finished_stage d"
  "label_stage ''likely EncryptedExtensions + Certificate + CertificateVerify + Finished'' d = finished_stage d"
  "label_stage ''likely Finished only'' d = finished_stage d"
  "label_stage ''likely Certificate + CertificateVerify + Finished (continued)'' d = finished_stage d"
  "label_stage ''likely NewSessionTicket (post-handshake)'' d = HandshakeStage.ApplicationData"
  "label_stage ''likely 0-RTT early data (PSK session resumption)'' d = HandshakeStage.ApplicationData"
  "label_stage ''likely Finished only (~53B = 32B verify_data + AEAD tag)'' d = finished_stage d"
  "label_stage ''likely Certificate + CertificateVerify + Finished (client auth / mTLS)'' d = finished_stage d"
  "label_stage ''encrypted Finished (client)'' d = finished_stage d"
  "label_stage ''encrypted handshake (post-CCS)'' d = HandshakeStage.Certificate"
  "label_stage ''encrypted NewSessionTicket or Finished (server)'' d = HandshakeStage.ApplicationData"
  "label_stage ''encrypted Finished (server)'' d = finished_stage d"
  by (cases d; code_simp)+

text \<open>
  The stage the diagram lights up for an encrypted record, for every label the tracker can
  give one. In TLS 1.3 the record that completes a flight stands for the Finished of its side,
  a short first server record for the certificate stage, everything later and early data for
  application data. In TLS 1.2 the first encrypted record of the server, its Finished, is
  shown as application data, because its label also says NewSessionTicket.
\<close>

theorem label_stages:
  "label_stage (encrypted_flight_label dir conn n) (to_record_direction dir) =
     (if is_tls12 (handshake (tc_state conn)) then HandshakeStage.ApplicationData
      else case dir of
        Direction.ServerToClient \<Rightarrow>
          if encrypted_records_from_server conn = 1 \<and> n < 200 then HandshakeStage.Certificate
          else if encrypted_records_from_server conn \<in> {1, 2} then HandshakeStage.ServerFinished
          else HandshakeStage.ApplicationData
      | Direction.ClientToServer \<Rightarrow>
          if encrypted_records_from_server conn \<noteq> 0 \<and> encrypted_records_from_client conn = 1
          then HandshakeStage.ClientFinished
          else HandshakeStage.ApplicationData)
   \<and> label_stage (post_ccs_handshake_label Direction.ClientToServer conn) RecordDirection.ClientToServer =
     (if post_ccs_records_from_client conn = 0 then HandshakeStage.ClientFinished
      else HandshakeStage.Certificate)
   \<and> label_stage (post_ccs_handshake_label Direction.ServerToClient conn) RecordDirection.ServerToClient =
     (if post_ccs_records_from_server conn = 0 then HandshakeStage.ApplicationData
      else if post_ccs_records_from_server conn = 1 then HandshakeStage.ServerFinished
      else HandshakeStage.Certificate)"
  by (cases dir) (simp_all add: encrypted_flight_label_def Let_def label_stage_values finished_stage_def)

declare exec_bind_weak_cong [cong del]

section \<open>Idle connections leave\<close>

definition aged :: "u64 \<Rightarrow> u64 \<Rightarrow> TrackedConnection option \<Rightarrow> TrackedConnection option" where
  "aged timeout now c =
     (case c of None \<Rightarrow> None
      | Some conn \<Rightarrow> if u64_saturating_sub now timeout \<le> last_seen_ms (tc_state conn) then Some conn else None)"

lemma ingest_timeout:
  assumes "ingest tp resolve key dir a b seg now t = Some (out, t')"
  shows "stale_timeout_ms t' = stale_timeout_ms t"
proof (cases "seg = []")
  case True
  with assms show ?thesis by (simp add: ingest_def)
next
  case False
  then show ?thesis by (rule ingest_insert [OF assms]) simp
qed

lemma evict_timeout [simp]: "stale_timeout_ms (snd (evict_stale now t)) = stale_timeout_ms t"
  by (simp add: evict_stale_def Let_def)

lemma frame_other_flow:
  assumes "handle_frame from_ethernet tp resolve now frame t = Some (evs, t')" and "tracker_ok t"
    and "\<And>seg. extract_tcp from_ethernet (frame_bytes frame) = Some seg \<Longrightarrow>
      canonical (src_ip seg) (src_port seg) (dst_ip seg) (dst_port seg) \<noteq> key"
  shows "tracker_ok t' \<and> stale_timeout_ms t' = stale_timeout_ms t
    \<and> hm_get (connections t') key =
        (if extract_tcp from_ethernet (frame_bytes frame) = None then hm_get (connections t) key
         else aged (stale_timeout_ms t) now (hm_get (connections t) key))"
  using assms(1)
proof (cases rule: handle_frame_elim)
  case skipped
  with assms(2) show ?thesis by simp
next
  case (segment seg k out t1)
  note run = segment(3)
  have ok1: "tracker_ok t1" using ingest_ok [OF assms(2) run] .
  have same: "stale_timeout_ms t1 = stale_timeout_ms t \<and> hm_get (connections t1) key = hm_get (connections t) key"
  proof (cases "seg_payload seg = []")
    case True
    with run show ?thesis by (simp add: ingest_def)
  next
    case False
    obtain r' c where "t1 = t\<lparr>connections := hm_insert k c (connections t), resolver := r'\<rparr>"
      by (rule ingest_insert [OF run False])
    with assms(3) [OF segment(1)] segment(2) assms(2) show ?thesis by (auto simp: hm_get_insert tracker_ok_def)
  qed
  have "hm_ok (connections t1)" using ok1 by (simp add: tracker_ok_def)
  then have "hm_get (connections t') key = aged (stale_timeout_ms t1) now (hm_get (connections t1) key)"
    by (simp add: segment(4) evict_stale_def Let_def aged_def hm.get_retain)
  with same segment(1,4) evict_ok [OF ok1] show ?thesis by simp
qed

lemma aged_late:
  "unat (last_seen_ms (tc_state conn)) + unat timeout < unat now \<Longrightarrow> aged timeout now (Some conn) = None"
  by (simp add: aged_def u64_saturating_sub_def word_le_nat_alt unat_sub)

lemma idle_run:
  assumes "tracker_thread from_ethernet tp resolve later t = Some (evs, t')" and "tracker_ok t"
    and "\<forall>(frame, now)\<in>set later. \<forall>seg. extract_tcp from_ethernet (frame_bytes frame) = Some seg \<longrightarrow>
      canonical (src_ip seg) (src_port seg) (dst_ip seg) (dst_port seg) \<noteq> key"
    and "hm_get (connections t) key \<in> {None, Some conn}"
    and "hm_get (connections t) key = None \<or> (\<exists>(frame, now)\<in>set later.
      extract_tcp from_ethernet (frame_bytes frame) \<noteq> None
      \<and> unat (last_seen_ms (tc_state conn)) + unat (stale_timeout_ms t) < unat now)"
  shows "hm_get (connections t') key = None"
  using assms
proof (induction later arbitrary: t evs)
  case (Cons fn later)
  obtain frame now where fn: "fn = (frame, now)" by force
  with Cons.prems(1) obtain evs1 t1 evs2 where
    1: "handle_frame from_ethernet tp resolve now frame t = Some (evs1, t1)"
    and 2: "tracker_thread from_ethernet tp resolve later t1 = Some (evs2, t')"
    by (auto simp: bind_eq_Some_conv)
  have other: "\<And>seg. extract_tcp from_ethernet (frame_bytes frame) = Some seg \<Longrightarrow>
      canonical (src_ip seg) (src_port seg) (dst_ip seg) (dst_port seg) \<noteq> key"
    using Cons.prems(3) fn by auto
  note step = frame_other_flow [OF 1 Cons.prems(2) other]
  have get1: "hm_get (connections t1) key \<in> {None, Some conn}"
    and none: "hm_get (connections t) key = None \<Longrightarrow> hm_get (connections t1) key = None"
    using step Cons.prems(4) by (auto simp: aged_def split: if_splits option.splits)
  have "hm_get (connections t1) key = None \<or> (\<exists>(frame, now)\<in>set later.
      extract_tcp from_ethernet (frame_bytes frame) \<noteq> None
      \<and> unat (last_seen_ms (tc_state conn)) + unat (stale_timeout_ms t1) < unat now)"
  proof (cases "hm_get (connections t) key = None")
    case False
    then have some: "hm_get (connections t) key = Some conn" using Cons.prems(4) by auto
    show ?thesis
    proof (cases "extract_tcp from_ethernet (frame_bytes frame) \<noteq> None
        \<and> unat (last_seen_ms (tc_state conn)) + unat (stale_timeout_ms t) < unat now")
      case True
      with step some aged_late [of conn "stale_timeout_ms t" now] show ?thesis by simp
    next
      case no: False
      with Cons.prems(5) False fn have "\<exists>(frame, now)\<in>set later.
          extract_tcp from_ethernet (frame_bytes frame) \<noteq> None
          \<and> unat (last_seen_ms (tc_state conn)) + unat (stale_timeout_ms t) < unat now"
        by auto
      with step show ?thesis by simp
    qed
  qed (simp add: none)
  then show ?case
    using Cons.IH [OF 2 _ _ get1] step Cons.prems(3) by auto
qed auto

lemma thread_timeout:
  "tracker_thread from_ethernet tp resolve frames t = Some (evs, t') \<Longrightarrow> tracker_ok t \<Longrightarrow>
     tracker_ok t' \<and> stale_timeout_ms t' = stale_timeout_ms t"
proof (induction frames arbitrary: t evs)
  case (Cons fn frames)
  obtain frame now where fn: "fn = (frame, now)" by force
  with Cons.prems(1) obtain evs1 t1 evs2 where
    1: "handle_frame from_ethernet tp resolve now frame t = Some (evs1, t1)"
    and 2: "tracker_thread from_ethernet tp resolve frames t1 = Some (evs2, t')"
    by (auto simp: bind_eq_Some_conv)
  have "tracker_ok t1 \<and> stale_timeout_ms t1 = stale_timeout_ms t"
    using 1
  proof (cases rule: handle_frame_elim)
    case (segment seg k out t2)
    then show ?thesis
      using ingest_ok [OF Cons.prems(2) segment(3)] ingest_timeout [OF segment(3)] evict_ok by simp
  qed (use Cons.prems(2) in simp)
  with Cons.IH [OF 2] show ?case by simp
qed simp

text \<open>
  C10. Connections that fall silent are let go: once the tracker holds a connection, and the frames
  after that belong to other flows, and one of them is a TCP segment read more than the timeout
  of five minutes after the connection was last seen, the tracker no longer holds it at the end.
\<close>

theorem idle_connection_leaves:
  assumes "tracker_thread from_ethernet tp resolve frames (tracker_new r) = Some (evs, t)"
    and "hm_get (connections t) key = Some conn"
    and "tracker_thread from_ethernet tp resolve later t = Some (evs', t')"
    and "\<forall>(frame, now)\<in>set later. \<forall>seg. extract_tcp from_ethernet (frame_bytes frame) = Some seg \<longrightarrow>
      canonical (src_ip seg) (src_port seg) (dst_ip seg) (dst_port seg) \<noteq> key"
    and "\<exists>(frame, now)\<in>set later. extract_tcp from_ethernet (frame_bytes frame) \<noteq> None
      \<and> unat (last_seen_ms (tc_state conn)) + 300000 < unat now"
  shows "hm_get (connections t') key = None"
proof -
  have "tracker_ok t \<and> stale_timeout_ms t = 300000"
    using thread_timeout [OF assms(1) tracker_ok_new]
    by (simp add: tracker_new_def with_stale_timeout_def DEFAULT_STALE_TIMEOUT_MS_def)
  with assms(2-5) show ?thesis by (intro idle_run [OF assms(3)]) auto
qed

text \<open>The flow of a segment with a payload is tracked when its turn is over.\<close>

lemma frame_tracks:
  assumes "handle_frame from_ethernet tp resolve now frame t = Some (evs, t')" and "tracker_ok t"
    and "extract_tcp from_ethernet (frame_bytes frame) = Some seg" and "seg_payload seg \<noteq> []"
  shows "\<exists>conn. hm_get (connections t') (canonical (src_ip seg) (src_port seg) (dst_ip seg) (dst_port seg))
      = Some conn \<and> last_seen_ms (tc_state conn) = now"
  using assms(1)
proof (cases rule: handle_frame_elim)
  case (segment s k out t1)
  with assms(3) have seg: "s = seg" by simp
  have k: "k = canonical (src_ip seg) (src_port seg) (dst_ip seg) (dst_port seg)"
    using segment(2) seg by simp
  obtain conn where conn: "hm_get (connections t1) k = Some conn" "last_seen_ms (tc_state conn) = now"
    using ingest_frame [OF segment(3)] assms(4) seg by blast
  have cutoff: "u64_saturating_sub now (stale_timeout_ms t1) \<le> now"
    by (simp add: u64_saturating_sub_def word_le_nat_alt unat_sub)
  have "tracker_ok t1" using ingest_ok [OF assms(2) segment(3)] .
  then have "hm_get (connections t') k = Some conn"
    using conn cutoff by (simp add: segment(4) tracker_ok_def evict_stale_def Let_def hm.get_retain)
  with conn(2) show ?thesis by (simp add: k)
qed (use assms(3) in simp)

text \<open>A frame decoder that reads the destination from the first byte.\<close>

definition two_flows :: etherparse where
  "two_flows bs = (case bs of [] \<Rightarrow> None
     | b # _ \<Rightarrow> Some \<lparr>net = Some (Ipv4 1 (ucast b)), transport = Some (Tcp 50000 443 bs)\<rparr>)"

theorem idle_connection_leaves_witness:
  "\<exists>evs t evs' t'. tracker_thread two_flows sample_parser NullOriginResolver_resolve
        [(\<lparr>timestamp_secs = 0, timestamp_usecs = 0, frame_bytes = [22]\<rparr>, 7)] (tracker_new ()) = Some (evs, t)
    \<and> hm_get (connections t) (canonical (V4 1) 50000 (V4 22) 443) \<noteq> None
    \<and> tracker_thread two_flows sample_parser NullOriginResolver_resolve
        [(\<lparr>timestamp_secs = 0, timestamp_usecs = 0, frame_bytes = [23]\<rparr>, 300008)] t = Some (evs', t')
    \<and> hm_get (connections t') (canonical (V4 1) 50000 (V4 22) 443) = None"
proof -
  let ?key = "canonical (V4 1) 50000 (V4 22) 443"
  let ?f = "\<lambda>b. \<lparr>timestamp_secs = 0, timestamp_usecs = 0, frame_bytes = [b]\<rparr>"
  have seg: "extract_tcp two_flows [b] = Some \<lparr>src_ip = V4 1, dst_ip = V4 (ucast b), src_port = 50000,
      dst_port = 443, seg_payload = [b]\<rparr>" for b
    by (simp add: two_flows_def extract_tcp_def)
  obtain evs t where 1: "tracker_thread two_flows sample_parser NullOriginResolver_resolve
      [(?f 22, 7)] (tracker_new ()) = Some (evs, t)"
    using thread_total [OF consuming_sample_parser null_answers.returning] by blast
  then obtain evs1 where run1: "handle_frame two_flows sample_parser NullOriginResolver_resolve 7 (?f 22)
      (tracker_new ()) = Some (evs1, t)"
    by (auto simp: bind_eq_Some_conv)
  have "extract_tcp two_flows (frame_bytes (?f 22)) = Some \<lparr>src_ip = V4 1, dst_ip = V4 22, src_port = 50000,
      dst_port = 443, seg_payload = [22]\<rparr>"
    by (simp add: seg)
  from frame_tracks [OF run1 tracker_ok_new this] obtain conn where
    conn: "hm_get (connections t) ?key = Some conn" "last_seen_ms (tc_state conn) = 7"
    by auto
  have "tracker_ok t" using thread_timeout [OF 1 tracker_ok_new] by simp
  then obtain evs' t' where 2: "tracker_thread two_flows sample_parser NullOriginResolver_resolve
      [(?f 23, 300008)] t = Some (evs', t')"
    using thread_total [OF consuming_sample_parser null_answers.returning] by blast
  have "hm_get (connections t') ?key = None"
    by (rule idle_connection_leaves [OF 1 conn(1) 2])
      (simp_all add: conn(2) seg canonical_def is_tls_server_port_def TLS_WELL_KNOWN_PORTS_def)
  with 1 conn(1) 2 show ?thesis by blast
qed

end
