(* ===== verification/Live.thy ===== *)
theory Live
  imports Pipeline Error_Model
begin

text \<open>
  From the command line to the threads: \<open>src/src/main.rs\<close>, \<open>src/src/cli.rs\<close>,
  \<open>src/src/capture/interfaces.rs\<close>, \<open>src/src/capture/live.rs\<close>, and \<open>run_live\<close> and
  \<open>run_event_loop\<close> of \<open>src/src/ui/mod.rs\<close>. The \<open>pcap\<close> crate is a record of functions, what
  the terminal and the thread library answer is a record of results; both are arguments. An
  error text is what \<open>to_string\<close> gives for the error of the library.
\<close>

declare exec_bind_weak_cong [cong del]

section \<open>Capture\<close>

datatype PcapResult = Packet int int bytes | TimeoutExpired | NoMorePackets | PcapError string

record ('i, 'h) pcap =
  pcap_list :: "string + (string \<times> string option) list"
  pcap_lookup :: "string + string option"
  pcap_from_device :: "string \<Rightarrow> string + 'i"
  pcap_open :: "'i \<Rightarrow> bool \<Rightarrow> nat \<Rightarrow> nat \<Rightarrow> bool \<Rightarrow> string + 'h"
  pcap_filter :: "'h \<Rightarrow> string \<Rightarrow> string + 'h"
  pcap_next :: "'h \<Rightarrow> PcapResult \<times> 'h"

record Interface =
  if_name :: string
  if_description :: "string option"

definition list_interfaces :: "('i, 'h) pcap \<Rightarrow> Error + Interface list" where
  "list_interfaces p =
     (case pcap_list p of
        Inl e \<Rightarrow> Inl (Capture e)
      | Inr devices \<Rightarrow> Inr (map (\<lambda>(name, desc).
          \<lparr>if_name = name,
           if_description = (case desc of
               None \<Rightarrow> None
             | Some d \<Rightarrow> if d \<noteq> [] then Some d else None)\<rparr>) devices))"

text \<open>No promiscuous mode, the full packet, a timeout of 100 ms, immediate mode.\<close>

definition source_open :: "('i, 'h) pcap \<Rightarrow> string \<Rightarrow> string \<Rightarrow> Error + 'h" where
  "source_open p interface bpf =
     (case pcap_from_device p interface of
        Inl e \<Rightarrow> Inl (Capture e)
      | Inr inactive \<Rightarrow>
          (case pcap_open p inactive False 65535 100 True of
             Inl e \<Rightarrow> Inl (Capture e)
           | Inr h \<Rightarrow>
               (case pcap_filter p h bpf of
                  Inl e \<Rightarrow> Inl (Capture (''BPF `'' @ bpf @ ''`: '' @ e))
                | Inr h \<Rightarrow> Inr h)))"

definition source_open_default :: "('i, 'h) pcap \<Rightarrow> string \<Rightarrow> Error + 'h" where
  "source_open_default p bpf =
     (case pcap_lookup p of
        Inl e \<Rightarrow> Inl (Capture e)
      | Inr None \<Rightarrow> Inl (Capture ''no default network device found'')
      | Inr (Some name) \<Rightarrow> source_open p name bpf)"

text \<open>\<open>u64::try_from(v).unwrap_or(0)\<close> and the same for \<open>u32\<close>\<close>

definition u64_or_zero :: "int \<Rightarrow> u64" where
  "u64_or_zero v = (if 0 \<le> v \<and> v < 2 ^ 64 then word_of_int v else 0)"

definition u32_or_zero :: "int \<Rightarrow> u32" where
  "u32_or_zero v = (if 0 \<le> v \<and> v < 2 ^ 32 then word_of_int v else 0)"

definition next_frame :: "('i, 'h) pcap \<Rightarrow> 'h \<Rightarrow> (Error + Frame option) \<times> 'h" where
  "next_frame p h =
     (case pcap_next p h of (res, h) \<Rightarrow>
        (case res of
           Packet tv_sec tv_usec data \<Rightarrow>
             Inr (Some \<lparr>timestamp_secs = u64_or_zero tv_sec, timestamp_usecs = u32_or_zero tv_usec,
                        frame_bytes = data\<rparr>)
         | TimeoutExpired \<Rightarrow> Inr None
         | NoMorePackets \<Rightarrow> Inr None
         | PcapError e \<Rightarrow> Inl (Capture e), h))"

text \<open>
  The capture thread. It may run forever: a list says, for the turns it has had so far, what
  it reads from the shutdown flag and whether the receiver of the frames is gone. The answer
  is the frames it sent, what it logged, and whether it is still running.
\<close>

record CaptureTurn =
  sees_shutdown :: bool
  receiver_gone :: bool

fun capture_loop ::
  "('i, 'h) pcap \<Rightarrow> CaptureTurn list \<Rightarrow> 'h \<Rightarrow> Frame list \<times> string list \<times> bool" where
  "capture_loop p [] h = ([], [], True)"
| "capture_loop p (t # ts) h =
     (if sees_shutdown t then ([], [], False)
      else case next_frame p h of
          (Inr (Some frame), h) \<Rightarrow>
            if receiver_gone t then ([], [], False)
            else (case capture_loop p ts h of (fs, errs, running) \<Rightarrow> (frame # fs, errs, running))
        | (Inr None, h) \<Rightarrow> capture_loop p ts h
        | (Inl e, h) \<Rightarrow> ([], [''capture: '' @ Error_to_string e], False))"

record Args =
  arg_interface :: "string option"
  arg_list_interfaces :: bool
  arg_bpf :: string
  arg_log_level :: string

definition DEFAULT_BPF :: string where
  "DEFAULT_BPF = ''tcp port 443''"

definition capture_thread ::
  "('i, 'h) pcap \<Rightarrow> Args \<Rightarrow> CaptureTurn list \<Rightarrow> Frame list \<times> string list \<times> bool" where
  "capture_thread p args turns =
     (case (case arg_interface args of
              Some name \<Rightarrow> source_open p name (arg_bpf args)
            | None \<Rightarrow> source_open_default p (arg_bpf args)) of
        Inl e \<Rightarrow> ([], [''capture: '' @ Error_to_string e], False)
      | Inr h \<Rightarrow> capture_loop p turns h)"

section \<open>The event loop of the interface\<close>

text \<open>
  One turn: the updates that are pending, whether drawing fails, and what polling and reading
  the keyboard give. \<open>still_running\<close> is a loop that has had all the turns of the list.
\<close>

record UiTurn =
  pending_events :: "UiEvent list"
  draw_error :: "string option"
  poll_result :: "string + bool"
  read_result :: "string + TermEvent"

datatype LoopEnd = Returned "Error + unit" App | StillRunning App

fun run_event_loop :: "UiTurn list \<Rightarrow> App \<Rightarrow> LoopEnd exec" where
  "run_event_loop [] app = Some (StillRunning app)"
| "run_event_loop (t # ts) app = do {
     app \<leftarrow> fold_exec (\<lambda>app evt. handle_ui_event evt app) app (pending_events t);
     (case draw_error t of
        Some e \<Rightarrow> Some (Returned (Inl (Ui e)) app)
      | None \<Rightarrow>
          (case poll_result t of
             Inl e \<Rightarrow> Some (Returned (Inl (Ui e)) app)
           | Inr ready \<Rightarrow>
               (case (if ready then map_sum id Some (read_result t) else Inr None) of
                  Inl e \<Rightarrow> Some (Returned (Inl (Ui e)) app)
                | Inr polled \<Rightarrow> do {
                    step \<leftarrow> loop_turn [] polled app;
                    (case step of
                       Quit app \<Rightarrow> Some (Returned (Inr ()) app)
                     | Continue app \<Rightarrow> run_event_loop ts app)
                  })))
   }"

section \<open>Running live\<close>

text \<open>What the thread library and the terminal answer; \<open>None\<close> is success.\<close>

record LiveWorld =
  spawn_capture :: "string option"
  spawn_tracker :: "string option"
  enable_raw :: "string option"
  enter_alternate :: "string option"
  new_terminal :: "string option"
  disable_raw :: "string option"
  leave_alternate :: "string option"
  ui_turns :: "UiTurn list"
  capture_turns :: "CaptureTurn list"

record TermState =
  raw_mode :: bool
  alternate_screen :: bool

text \<open>
  What \<open>run_live\<close> leaves behind: its result, if it has returned, the terminal, whether the
  threads were told to stop and joined, and what the capture thread logged.
\<close>

record LiveOutcome =
  live_result :: "(Error + unit) option"
  live_term :: TermState
  live_joined :: bool
  live_log :: "string list"

definition early_return :: "Error \<Rightarrow> TermState \<Rightarrow> string list \<Rightarrow> LiveOutcome" where
  "early_return e term log =
     \<lparr>live_result = Some (Inl e), live_term = term, live_joined = False, live_log = log\<rparr>"

definition teardown :: "LiveWorld \<Rightarrow> TermState \<Rightarrow> TermState" where
  "teardown w term =
     (let term = (if disable_raw w = None then term\<lparr>raw_mode := False\<rparr> else term)
      in if leave_alternate w = None then term\<lparr>alternate_screen := False\<rparr> else term)"

definition run_live :: "('i, 'h) pcap \<Rightarrow> LiveWorld \<Rightarrow> Args \<Rightarrow> LiveOutcome exec" where
  "run_live p w args =
     (let term = \<lparr>raw_mode = False, alternate_screen = False\<rparr>
      in case spawn_capture w of
        Some e \<Rightarrow> Some (early_return (Ui (''failed to spawn capture thread: '' @ e)) term [])
      | None \<Rightarrow>
          (case capture_thread p args (capture_turns w) of (_, log, _) \<Rightarrow>
             (case spawn_tracker w of
                Some e \<Rightarrow> Some (early_return (Ui (''failed to spawn tracker thread: '' @ e)) term log)
              | None \<Rightarrow>
                  (case enable_raw w of
                     Some e \<Rightarrow> Some (early_return (Ui e) term log)
                   | None \<Rightarrow>
                       let term = term\<lparr>raw_mode := True\<rparr> in
                       (case enter_alternate w of
                          Some e \<Rightarrow> Some (early_return (Ui e) term log)
                        | None \<Rightarrow>
                            let term = term\<lparr>alternate_screen := True\<rparr> in
                            (case new_terminal w of
                               Some e \<Rightarrow> Some (early_return (Ui e) term log)
                             | None \<Rightarrow> do {
                                 ended \<leftarrow> run_event_loop (ui_turns w) app_new;
                                 Some (case ended of
                                     StillRunning _ \<Rightarrow> \<lparr>live_result = None, live_term = term,
                                       live_joined = False, live_log = log\<rparr>
                                   | Returned outcome _ \<Rightarrow>
                                       \<lparr>live_result = Some (map_sum
                                          (\<lambda>e. Ui (''running the UI event loop: '' @ Error_to_string e)) id outcome),
                                        live_term = teardown w term, live_joined = True,
                                        live_log = log\<rparr>)
                               }))))))"

section \<open>The command line\<close>

text \<open>A library error with the context the caller attached.\<close>

type_synonym anyhow = "string \<times> Error"

definition print_interfaces :: "('i, 'h) pcap \<Rightarrow> string list \<times> (anyhow + unit)" where
  "print_interfaces p =
     (case list_interfaces p of
        Inl e \<Rightarrow> ([], Inl (''enumerating network interfaces'', e))
      | Inr interfaces \<Rightarrow>
          (map (\<lambda>i. if_name i @ [CHR 0x09]
             @ (case if_description i of None \<Rightarrow> [] | Some d \<Rightarrow> d)) interfaces, Inr ()))"

text \<open>What a run prints on standard output, and its result once there is one.\<close>

definition run ::
  "('i, 'h) pcap \<Rightarrow> LiveWorld \<Rightarrow> Args \<Rightarrow> (string list \<times> (anyhow + unit) option) exec" where
  "run p w args =
     (if arg_list_interfaces args
      then Some (case print_interfaces p of (out, res) \<Rightarrow> (out, Some res))
      else map_option (\<lambda>o1. ([], map_option (map_sum (\<lambda>e. (''running the terminal UI'', e)) id)
             (live_result o1))) (run_live p w args))"

definition permission_denied_hint :: string where
  "permission_denied_hint =
     ''hint: live capture needs raw-socket privileges. Grant them once with:'' @ [CHR 0x0A]
     @ ''  sudo setcap cap_net_raw,cap_net_admin=eip $(command -v seehandshake)'' @ [CHR 0x0A]
     @ ''then re-run. Re-apply setcap after every upgrade, since capabilities live on ''
     @ ''the inode and are cleared when the binary is replaced.''"

record ProcessEnd =
  out_lines :: "string list"
  err_lines :: "string list"
  exit_status :: u8

text \<open>\<open>main\<close> after the arguments are parsed; \<open>init_logging\<close> gives an error text or succeeds.\<close>

definition main ::
  "('i, 'h) pcap \<Rightarrow> LiveWorld \<Rightarrow> (string \<Rightarrow> string option) \<Rightarrow> Args \<Rightarrow> ProcessEnd option exec" where
  "main p w init_logging args =
     (case init_logging (arg_log_level args) of
        Some e \<Rightarrow> Some (Some \<lparr>out_lines = [],
          err_lines = [''seehandshake: failed to initialize logging: '' @ e], exit_status = 1\<rparr>)
      | None \<Rightarrow> do {
          (out, res) \<leftarrow> run p w args;
          Some (case res of
              None \<Rightarrow> None
            | Some (Inr _) \<Rightarrow> Some \<lparr>out_lines = out, err_lines = [], exit_status = 0\<rparr>
            | Some (Inl (ctx, e)) \<Rightarrow> Some \<lparr>out_lines = out,
                err_lines = (''seehandshake: '' @ ctx @ '': '' @ Error_to_string e)
                  # (if is_permission_denied e then [permission_denied_hint] else []),
                exit_status = exit_code e\<rparr>)
        })"

declare exec_bind_weak_cong [cong del]

section \<open>The event loop returns\<close>

lemma run_event_loop_total:
  "app_ok app \<Longrightarrow> \<exists>e. run_event_loop turns app = Some e"
proof (induction turns arbitrary: app)
  case (Cons t turns)
  obtain app1 where 1: "fold_exec (\<lambda>app evt. handle_ui_event evt app) app (pending_events t) = Some app1"
    and ok: "app_ok app1"
    using handle_ui_events_ok [OF Cons.prems] by blast
  have "\<exists>e. Option.bind (loop_turn [] polled app1) (\<lambda>step. case step of
      Quit app \<Rightarrow> Some (Returned (Inr ()) app) | Continue app \<Rightarrow> run_event_loop turns app) = Some e" for polled
    using loop_turn_ok [OF ok, of "[]" polled] Cons.IH by (auto split: LoopStep.split)
  then show ?case
    using 1 by (simp split: option.split sum.split)
qed simp

lemma run_live_total: "\<exists>o1. run_live p w args = Some o1"
  using run_event_loop_total [OF app_ok_new, of "ui_turns w"]
  by (auto simp: run_live_def Let_def split: option.split prod.split)

section \<open>What a live run comes to\<close>

text \<open>The result, the terminal and whether the threads were joined, for an end of the event loop.\<close>

definition live_ending :: "LiveWorld \<Rightarrow> LoopEnd \<Rightarrow> (Error + unit) option \<times> TermState \<times> bool" where
  "live_ending w ended =
     (let off = \<lparr>raw_mode = False, alternate_screen = False\<rparr>;
          raw_on = \<lparr>raw_mode = True, alternate_screen = False\<rparr>;
          on = \<lparr>raw_mode = True, alternate_screen = True\<rparr>
      in case (spawn_capture w, spawn_tracker w, enable_raw w, enter_alternate w, new_terminal w) of
        (Some e, _, _, _, _) \<Rightarrow> (Some (Inl (Ui (''failed to spawn capture thread: '' @ e))), off, False)
      | (None, Some e, _, _, _) \<Rightarrow> (Some (Inl (Ui (''failed to spawn tracker thread: '' @ e))), off, False)
      | (None, None, Some e, _, _) \<Rightarrow> (Some (Inl (Ui e)), off, False)
      | (None, None, None, Some e, _) \<Rightarrow> (Some (Inl (Ui e)), raw_on, False)
      | (None, None, None, None, Some e) \<Rightarrow> (Some (Inl (Ui e)), on, False)
      | (None, None, None, None, None) \<Rightarrow>
          (case ended of
             StillRunning _ \<Rightarrow> (None, on, False)
           | Returned (Inl e) _ \<Rightarrow>
               (Some (Inl (Ui (''running the UI event loop: '' @ Error_to_string e))), teardown w on, True)
           | Returned (Inr _) _ \<Rightarrow> (Some (Inr ()), teardown w on, True)))"

lemma run_live_ending:
  "\<exists>ended log. run_event_loop (ui_turns w) app_new = Some ended
    \<and> run_live p w args = Some (case live_ending w ended of (res, term, joined) \<Rightarrow>
        \<lparr>live_result = res, live_term = term, live_joined = joined, live_log = log\<rparr>)"
proof -
  obtain ended where ended: "run_event_loop (ui_turns w) app_new = Some ended"
    using run_event_loop_total [OF app_ok_new] by blast
  moreover obtain f l r where "capture_thread p args (capture_turns w) = (f, l, r)"
    by (rule prod_cases3)
  ultimately have "run_live p w args = Some (case live_ending w ended of (res, term, joined) \<Rightarrow>
        \<lparr>live_result = res, live_term = term, live_joined = joined,
         live_log = (if spawn_capture w = None then l else [])\<rparr>)"
    unfolding run_live_def live_ending_def early_return_def Let_def
    by (simp split: option.split LoopEnd.split sum.split)
  with ended show ?thesis by blast
qed

lemma live_ending_error: "fst (live_ending w ended) = Some (Inl e) \<Longrightarrow> \<exists>msg. e = Ui msg"
  by (auto simp: live_ending_def Let_def split: option.splits LoopEnd.splits sum.splits)

section \<open>Exit codes\<close>

lemma live_result_any_capture:
  "map_option live_result (run_live p w args) = map_option live_result (run_live p' w args)"
  using run_live_ending [of w p args] run_live_ending [of w p' args] by (auto split: prod.splits)

lemma live_error_ui:
  assumes "run_live p w args = Some o1" and "live_result o1 = Some (Inl e)"
  shows "\<exists>msg. e = Ui msg"
proof -
  obtain ended log where "run_live p w args = Some (case live_ending w ended of (res, term, joined) \<Rightarrow>
        \<lparr>live_result = res, live_term = term, live_joined = joined, live_log = log\<rparr>)"
    using run_live_ending by blast
  with assms show ?thesis
    using live_ending_error [of w ended e] by (cases "live_ending w ended") auto
qed

lemma hint_is_no_message: "permission_denied_hint \<noteq> ''seehandshake: '' @ msg"
  by (simp add: permission_denied_hint_def)

text \<open>
  C9. Nothing that goes wrong with the capture of a live run reaches the caller: how the process
  ends does not depend on libpcap at all, it exits with 0 or 1, and the permission hint is never
  printed. A run without the capture privilege ends like one that had it.
\<close>

theorem live_exit_ignores_capture:
  assumes "\<not> arg_list_interfaces args" and "main p w init_logging args = Some (Some e)"
  shows "main p' w init_logging args = Some (Some e)
    \<and> exit_status e \<in> {0, 1} \<and> permission_denied_hint \<notin> set (err_lines e)"
proof -
  have "run p w args = run p' w args"
    using assms(1) live_result_any_capture [of p w args p']
    by (auto simp: run_def map_option_case split: option.splits)
  then have "main p w init_logging args = main p' w init_logging args"
    unfolding main_def by (rule arg_cong)
  moreover have "exit_status e \<in> {0, 1} \<and> permission_denied_hint \<notin> set (err_lines e)"
  proof (cases "init_logging (arg_log_level args)")
    case (Some msg)
    with assms(2) show ?thesis using hint_is_no_message [of "''failed to initialize logging: '' @ msg"]
      by (auto simp: main_def)
  next
    case None
    obtain o1 where o1: "run_live p w args = Some o1" using run_live_ending by blast
    with assms None obtain res where res: "live_result o1 = Some res"
      by (cases "live_result o1") (auto simp: main_def run_def)
    show ?thesis
    proof (cases res)
      case (Inl err)
      then obtain msg where "err = Ui msg" using live_error_ui [OF o1] res by blast
      with assms None o1 res Inl
      have "err_lines e = [''seehandshake: '' @ ''running the terminal UI'' @ '': '' @ Error_to_string err]"
        "exit_status e = 1"
        by (simp_all add: main_def run_def exit_code_def del: append_Cons, auto)
      then show ?thesis
        using hint_is_no_message [of "''running the terminal UI'' @ '': '' @ Error_to_string err"]
        by (simp del: append_Cons)
    next
      case (Inr u)
      with assms None o1 res have "e = \<lparr>out_lines = [], err_lines = [], exit_status = 0\<rparr>"
        by (simp add: main_def run_def)
      then show ?thesis by simp
    qed
  qed
  ultimately show ?thesis using assms(2) by simp
qed


text \<open>A libpcap that may not capture, and a user who quits at once.\<close>

definition no_privilege :: "(unit, unit) pcap" where
  "no_privilege = \<lparr>pcap_list = Inl ''socket: Operation not permitted'', pcap_lookup = Inr (Some ''eth0''),
     pcap_from_device = (\<lambda>_. Inr ()), pcap_open = (\<lambda>_ _ _ _ _. Inl ''socket: Operation not permitted''),
     pcap_filter = (\<lambda>h _. Inr h), pcap_next = (\<lambda>h. (TimeoutExpired, h))\<rparr>"

definition quit_at_once :: LiveWorld where
  "quit_at_once = \<lparr>spawn_capture = None, spawn_tracker = None, enable_raw = None, enter_alternate = None,
     new_terminal = None, disable_raw = None, leave_alternate = None,
     ui_turns = [\<lparr>pending_events = [], draw_error = None, poll_result = Inr True,
       read_result = Inr (KeyPress (KeyChar CHR ''q''))\<rparr>], capture_turns = []\<rparr>"

definition plain_args :: Args where
  "plain_args = \<lparr>arg_interface = None, arg_list_interfaces = False, arg_bpf = DEFAULT_BPF, arg_log_level = ''warn''\<rparr>"

lemma quit_run: "run_live no_privilege quit_at_once plain_args = Some
    \<lparr>live_result = Some (Inr ()), live_term = \<lparr>raw_mode = False, alternate_screen = False\<rparr>,
     live_joined = True, live_log = [''capture: '' @ ''packet capture error: '' @ ''socket: Operation not permitted'']\<rparr>"
proof -
  have "run_event_loop (ui_turns quit_at_once) app_new = Some (Returned (Inr ()) app_new)"
    by (simp add: quit_at_once_def loop_turn_def)
  moreover have "capture_thread no_privilege plain_args (capture_turns quit_at_once)
      = ([], [''capture: '' @ ''packet capture error: '' @ ''socket: Operation not permitted''], False)"
    by (simp add: capture_thread_def source_open_default_def source_open_def no_privilege_def plain_args_def)
  moreover have "spawn_capture quit_at_once = None" "spawn_tracker quit_at_once = None"
    "enable_raw quit_at_once = None" "enter_alternate quit_at_once = None" "new_terminal quit_at_once = None"
    "disable_raw quit_at_once = None" "leave_alternate quit_at_once = None"
    by (simp_all add: quit_at_once_def)
  ultimately show ?thesis by (simp add: run_live_def teardown_def)
qed

theorem live_exit_ignores_capture_witness:
  "map_option live_log (run_live no_privilege quit_at_once plain_args)
     = Some [''capture: '' @ ''packet capture error: '' @ ''socket: Operation not permitted'']
   \<and> main no_privilege quit_at_once (\<lambda>_. None) plain_args
     = Some (Some \<lparr>out_lines = [], err_lines = [], exit_status = 0\<rparr>)
   \<and> (\<forall>p' :: (unit, unit) pcap. main p' quit_at_once (\<lambda>_. None) plain_args
     = Some (Some \<lparr>out_lines = [], err_lines = [], exit_status = 0\<rparr>))"
proof -
  have args: "\<not> arg_list_interfaces plain_args" by (simp add: plain_args_def)
  then have main: "main no_privilege quit_at_once (\<lambda>_. None) plain_args
      = Some (Some \<lparr>out_lines = [], err_lines = [], exit_status = 0\<rparr>)"
    by (simp add: main_def run_def quit_run)
  have "main p' quit_at_once (\<lambda>_. None) plain_args
      = Some (Some \<lparr>out_lines = [], err_lines = [], exit_status = 0\<rparr>)" for p' :: "(unit, unit) pcap"
    using live_exit_ignores_capture [OF args main, of p'] by blast
  with main show ?thesis by (simp add: quit_run)
qed

text \<open>
  C40. Listing the interfaces does report: it prints one line per device with its name and
  description and exits with 0; when libpcap fails it prints its message, exits with 77 and the
  hint when the message is about permission, and with 1 otherwise.
\<close>

theorem listing_reports:
  assumes "arg_list_interfaces args" and "init_logging (arg_log_level args) = None"
  shows "main p w init_logging args = Some (Some (case pcap_list p of
      Inr devices \<Rightarrow> \<lparr>out_lines = map (\<lambda>(name, desc). name @ [CHR 0x09]
          @ (case desc of None \<Rightarrow> [] | Some d \<Rightarrow> d)) devices, err_lines = [], exit_status = 0\<rparr>
    | Inl msg \<Rightarrow> (let denied = contains msg ''permission'' \<or> contains msg ''Operation not permitted''
            \<or> contains msg ''Permission denied''
        in \<lparr>out_lines = [],
            err_lines = (''seehandshake: enumerating network interfaces: packet capture error: '' @ msg)
              # (if denied then [permission_denied_hint] else []),
            exit_status = if denied then 77 else 1\<rparr>)))"
proof (cases "pcap_list p")
  case (Inl msg)
  with assms show ?thesis
    by (simp add: main_def run_def print_interfaces_def list_interfaces_def exit_code_def Let_def)
next
  case (Inr devices)
  have "map (\<lambda>i. if_name i @ [CHR 0x09] @ (case if_description i of None \<Rightarrow> [] | Some d \<Rightarrow> d))
      (map (\<lambda>(name, desc). \<lparr>if_name = name, if_description = (case desc of
          None \<Rightarrow> None | Some d \<Rightarrow> if d \<noteq> [] then Some d else None)\<rparr>) devices)
    = map (\<lambda>(name, desc). name @ [CHR 0x09] @ (case desc of None \<Rightarrow> [] | Some d \<Rightarrow> d)) devices"
    by (auto split: option.splits if_splits)
  with Inr assms show ?thesis
    by (simp add: main_def run_def print_interfaces_def list_interfaces_def del: map_map)
qed

theorem listing_reports_witness:
  "\<exists>e. main no_privilege quit_at_once (\<lambda>_. None) (plain_args\<lparr>arg_list_interfaces := True\<rparr>) = Some (Some e)
    \<and> exit_status e = 77"
proof -
  have "contains ''socket: Operation not permitted'' ''Operation not permitted''" by code_simp
  then show ?thesis
    using listing_reports [of "plain_args\<lparr>arg_list_interfaces := True\<rparr>" "\<lambda>_. None" no_privilege quit_at_once]
    by (simp add: no_privilege_def Let_def)
qed

section \<open>The terminal\<close>

text \<open>
  C39. How the terminal is left when a live run returns and the terminal accepts the commands of
  the teardown: the threads were joined exactly when all five steps of the set-up succeeded (both
  threads started, raw mode turned on, the alternate screen entered, the terminal created), so
  that a failure of any of them returns without joining a thread that was started; and raw mode
  is still on in exactly one situation: both threads started, raw mode was turned on, and
  entering the alternate screen or creating the terminal failed.
\<close>

theorem terminal_left:
  assumes "run_live p w args = Some o1" and "live_result o1 \<noteq> None"
    and "disable_raw w = None" and "leave_alternate w = None"
  shows "(live_joined o1 \<longleftrightarrow> {spawn_capture w, spawn_tracker w, enable_raw w, enter_alternate w,
        new_terminal w} = {None})
    \<and> (raw_mode (live_term o1) \<longleftrightarrow> spawn_capture w = None \<and> spawn_tracker w = None
      \<and> enable_raw w = None \<and> \<not> (enter_alternate w = None \<and> new_terminal w = None))"
proof -
  obtain ended log where o1: "o1 = (case live_ending w ended of (res, term, joined) \<Rightarrow>
        \<lparr>live_result = res, live_term = term, live_joined = joined, live_log = log\<rparr>)"
    using run_live_ending [of w p args] assms(1) by auto
  show ?thesis
    using assms(2-4) unfolding o1 live_ending_def teardown_def Let_def
    by (simp split: option.splits LoopEnd.splits sum.splits)
qed

theorem terminal_left_witness:
  "raw_mode (live_term (the (run_live no_privilege quit_at_once plain_args))) = False"
proof -
  have "disable_raw quit_at_once = None" "leave_alternate quit_at_once = None" "new_terminal quit_at_once = None"
    "enter_alternate quit_at_once = None"
    by (simp_all add: quit_at_once_def)
  with terminal_left [OF quit_run] show ?thesis by (simp add: quit_run)
qed

section \<open>The whole session\<close>

text \<open>What events do to the connections the interface knows; keys other than \<open>w\<close> do nothing.\<close>

definition store_event :: "(ConnectionKey, ConnectionState) hmap \<Rightarrow> UiEvent \<Rightarrow> (ConnectionKey, ConnectionState) hmap" where
  "store_event m e = (case e of HandshakeUpdated s \<Rightarrow> hm_insert (cs_key s) s m | StaleEvicted n \<Rightarrow> m)"

lemma event_store:
  assumes "app_ok app" and "handle_ui_event e app = Some app'"
  shows "app_connections app' = store_event (app_connections app) e"
  using assms updated_connections [of _ app app']
  by (cases e) (auto simp: store_event_def stale_evicted_eq)

lemma events_store:
  "app_ok app \<Longrightarrow> fold_exec (\<lambda>app evt. handle_ui_event evt app) app evts = Some app'
     \<Longrightarrow> app_connections app' = foldl store_event (app_connections app) evts"
proof (induction evts arbitrary: app)
  case (Cons e evts)
  obtain app1 where 1: "handle_ui_event e app = Some app1" "app_ok app1"
    using handle_ui_event_ok [OF Cons.prems(1)] by blast
  with Cons.prems(2) Cons.IH [OF 1(2)] event_store [OF Cons.prems(1) 1(1)] show ?case by simp
qed simp

lemma key_keeps_store:
  assumes "dispatch_key code app = Some app'" and "code \<noteq> KeyChar CHR ''w''"
  shows "app_connections app' = app_connections app"
  using assms
  by (cases code)
    (auto simp: toggle_education_def toggle_diagram_def toggle_middle_mode_def focus_left_def focus_right_def
      focus_cycle_def advance_past_metadata_row_def on_records_row_changed_def on_connection_changed_def
      select_prev_def select_next_def connection_prev_def connection_next_def record_prev_def record_next_def
      section_prev_def section_next_def bind_eq_Some_conv Let_def
      split: if_splits PaneFocus.splits option.splits)

lemma tick_connections [simp]: "app_connections (tick app) = app_connections app"
  by (simp add: tick_def)

text \<open>A turn in which drawing and the keyboard work, and the user neither quits nor wipes.\<close>

definition quiet :: "UiTurn \<Rightarrow> bool" where
  "quiet t \<longleftrightarrow> draw_error t = None \<and> (\<exists>ready. poll_result t = Inr ready
     \<and> (ready \<longrightarrow> (\<exists>e. read_result t = Inr e
         \<and> e \<noteq> KeyPress (KeyChar CHR ''q'') \<and> e \<noteq> KeyPress (KeyChar CHR ''w''))))"

lemma quiet_turn:
  assumes "app_ok app" and "polled \<noteq> Some (KeyPress (KeyChar CHR ''q''))"
    and "polled \<noteq> Some (KeyPress (KeyChar CHR ''w''))"
  shows "\<exists>app'. loop_turn [] polled app = Some (Continue app') \<and> app_ok app'
    \<and> app_connections app' = app_connections app"
proof (cases "\<exists>code. polled = Some (KeyPress code)")
  case True
  then obtain code where code: "polled = Some (KeyPress code)" by blast
  obtain app1 where 1: "dispatch_key code app = Some app1" "app_ok app1"
    using dispatch_ok [OF assms(1)] by blast
  then have "app_connections app1 = app_connections app"
    using key_keeps_store code assms(3) by blast
  with 1 code assms(2) show ?thesis
    by (simp add: loop_turn_def app_ok_flags)
next
  case False
  with assms(1) show ?thesis
    by (auto simp: loop_turn_def app_ok_flags split: option.splits TermEvent.splits)
qed

lemma quiet_loop:
  "app_ok app \<Longrightarrow> list_all quiet turns \<Longrightarrow> \<exists>app'. run_event_loop turns app = Some (StillRunning app')
     \<and> app_ok app' \<and> app_connections app'
         = foldl store_event (app_connections app) (concat (map pending_events turns))"
proof (induction turns arbitrary: app)
  case (Cons t turns)
  obtain app1 where 1: "fold_exec (\<lambda>app evt. handle_ui_event evt app) app (pending_events t) = Some app1"
    "app_ok app1"
    using handle_ui_events_ok [OF Cons.prems(1)] by blast
  note store1 = events_store [OF Cons.prems(1) 1(1)]
  from Cons.prems(2) obtain ready where t: "draw_error t = None" "poll_result t = Inr ready"
    "ready \<Longrightarrow> \<exists>e. read_result t = Inr e \<and> e \<noteq> KeyPress (KeyChar CHR ''q'') \<and> e \<noteq> KeyPress (KeyChar CHR ''w'')"
    by (auto simp: quiet_def)
  obtain polled where polled: "(if ready then map_sum id Some (read_result t) else Inr None) = Inr polled"
    "polled \<noteq> Some (KeyPress (KeyChar CHR ''q''))" "polled \<noteq> Some (KeyPress (KeyChar CHR ''w''))"
    using t(3) by (cases ready) auto
  obtain app2 where 2: "loop_turn [] polled app1 = Some (Continue app2)" "app_ok app2"
    "app_connections app2 = app_connections app1"
    using quiet_turn [OF 1(2) polled(2,3)] by blast
  have "run_event_loop (t # turns) app = run_event_loop turns app2"
    using 1 t(1,2) polled(1) 2(1) by simp
  with Cons.IH [OF 2(2)] Cons.prems(2) 2(3) store1 show ?case by simp
qed simp

text \<open>
  The whole session, with a resolver that returns: for every sequence of frames the tracker
  thread returns, and in whatever
  portions its events reach the event loop and whatever keys the user presses in between, other
  than to quit or to wipe the list, the loop never panics or fails, and once it has taken all the
  events the interface shows every connection of the tracker in its latest state.
\<close>

theorem session_shows_tracker:
  assumes "consuming tp" and "returning resolve good" and "good r"
  shows "\<exists>evs t. tracker_thread from_ethernet tp resolve frames (tracker_new r) = Some (evs, t)
    \<and> (\<forall>turns. concat (map pending_events turns) = evs \<longrightarrow> list_all quiet turns \<longrightarrow>
        (\<exists>app. run_event_loop turns app_new = Some (StillRunning app)
          \<and> (\<forall>key conn. hm_get (connections t) key = Some conn \<longrightarrow>
               tc_state conn \<in> set (shown_connections app) \<and> cs_key (tc_state conn) = key)))"
proof -
  obtain evs t app where run: "tracker_thread from_ethernet tp resolve frames (tracker_new r) = Some (evs, t)"
    "fold_exec (\<lambda>app evt. handle_ui_event evt app) app_new evs = Some app" and up: "up_to_date t app"
    using thread_from_start [OF assms, of from_ethernet frames] by blast
  have store: "app_connections app = foldl store_event (app_connections app_new) evs"
    using events_store [OF app_ok_new run(2)] .
  have "\<exists>app'. run_event_loop turns app_new = Some (StillRunning app')
      \<and> (\<forall>key conn. hm_get (connections t) key = Some conn \<longrightarrow>
           tc_state conn \<in> set (shown_connections app') \<and> cs_key (tc_state conn) = key)"
    if turns: "concat (map pending_events turns) = evs" "list_all quiet turns" for turns
  proof -
    obtain app' where app': "run_event_loop turns app_new = Some (StillRunning app')" "app_ok app'"
      "app_connections app' = foldl store_event (app_connections app_new) evs"
      using quiet_loop [OF app_ok_new turns(2)] turns(1) by blast
    then have "up_to_date t app'" using up store by (simp add: up_to_date_def)
    with app' show ?thesis using up_to_date_shown by blast
  qed
  with run(1) show ?thesis by blast
qed

theorem session_shows_tracker_witness:
  "\<exists>evs t. tracker_thread sample_ethernet sample_parser NullOriginResolver_resolve
      [(\<lparr>timestamp_secs = 0, timestamp_usecs = 0, frame_bytes = [22, 3, 1]\<rparr>, 7)] (tracker_new ()) = Some (evs, t)
    \<and> (\<exists>app. run_event_loop [\<lparr>pending_events = evs, draw_error = None, poll_result = Inr True,
          read_result = Inr (KeyPress Tab)\<rparr>] app_new = Some (StillRunning app))"
proof -
  let ?frames = "[(\<lparr>timestamp_secs = 0, timestamp_usecs = 0, frame_bytes = [22, 3, 1]\<rparr>, 7)]"
  obtain evs t where *: "tracker_thread sample_ethernet sample_parser NullOriginResolver_resolve ?frames (tracker_new ())
      = Some (evs, t)"
    "\<And>turns. concat (map pending_events turns) = evs \<Longrightarrow> list_all quiet turns \<Longrightarrow>
        \<exists>app. run_event_loop turns app_new = Some (StillRunning app)"
    using session_shows_tracker [OF consuming_sample_parser null_answers.returning, where r = "()" and from_ethernet = sample_ethernet and frames = ?frames]
    by blast
  let ?turn = "\<lparr>pending_events = evs, draw_error = None, poll_result = Inr True, read_result = Inr (KeyPress Tab)\<rparr>"
  have "list_all quiet [?turn]" unfolding quiet_def by simp (rule exI [of _ True], simp)
  with *(1) *(2) [of "[?turn]"] show ?thesis by auto
qed

end
