(* ===== verification/Threads.thy ===== *)
theory Threads
  imports Live
begin

text \<open>
  The threads of \<open>run_live\<close> (\<open>src/src/ui/mod.rs\<close>) as they really run: the capture thread, the
  tracker thread and the thread of the interface, which also starts and joins the other two,
  connected by two channels and a shutdown flag, with every interleaving of their steps. A step
  is what a thread does between two accesses to something shared; what happens between them
  (a turn of the tracker on a frame, one turn of the event loop after the updates are drained)
  is the function that models it in \<open>Pipeline\<close> and \<open>Live\<close>. The relaxed atomic flag is read and
  written in the order of the steps.

  The theorems connect this system to the sequential functions: whatever the schedule, the
  tracker has done what \<open>tracker_thread\<close> does with the frames handled so far, and the interface
  what \<open>run_event_loop\<close> does with the updates taken so far.
\<close>

section \<open>Channels\<close>

text \<open>\<open>mpsc::channel\<close>: unbounded, with the number of live senders and whether the receiver is alive.\<close>

record 'a Channel =
  ch_queue :: "'a list"
  ch_senders :: nat
  ch_receiver :: bool

definition channel :: "'a Channel" where
  "channel = \<lparr>ch_queue = [], ch_senders = 1, ch_receiver = True\<rparr>"

text \<open>\<open>send\<close>: \<open>None\<close> is the error that the receiver is gone.\<close>

definition send :: "'a \<Rightarrow> 'a Channel \<Rightarrow> 'a Channel option" where
  "send x c = (if ch_receiver c then Some (c\<lparr>ch_queue := ch_queue c @ [x]\<rparr>) else None)"

datatype 'a Received = Message 'a "'a Channel" | Empty | Disconnected

definition receive :: "'a Channel \<Rightarrow> 'a Received" where
  "receive c = (case ch_queue c of
       x # xs \<Rightarrow> Message x (c\<lparr>ch_queue := xs\<rparr>)
     | [] \<Rightarrow> if ch_senders c = 0 then Disconnected else Empty)"

definition clone_sender :: "'a Channel \<Rightarrow> 'a Channel" where
  "clone_sender c = c\<lparr>ch_senders := Suc (ch_senders c)\<rparr>"

definition drop_sender :: "'a Channel \<Rightarrow> 'a Channel" where
  "drop_sender c = c\<lparr>ch_senders := ch_senders c - 1\<rparr>"

definition drop_receiver :: "'a Channel \<Rightarrow> 'a Channel" where
  "drop_receiver c = c\<lparr>ch_queue := [], ch_receiver := False\<rparr>"

section \<open>The state of the system\<close>

text \<open>Where each thread is; the point it has reached carries the variables it needs from there.\<close>

datatype 'h CapturePc =
    CaptureUnspawned
  | CaptureOpening
  | CaptureChecking 'h
  | CapturePolling 'h
  | CaptureSending Frame 'h
  | CaptureEnded

datatype TrackerPc =
    TrackerUnspawned
  | TrackerReceiving
  | TrackerSending "UiEvent list"
  | TrackerEnded
  | TrackerPanicked

datatype MainPc =
    SpawningCapture
  | SpawningTracker
  | EnablingRawMode
  | EnteringAlternate
  | CreatingTerminal
  | Draining App
  | Drawing App
  | TearingDown "Error + unit"
  | Signalling "Error + unit"
  | JoiningCapture "Error + unit"
  | JoiningTracker "Error + unit"
  | MainReturned "Error + unit"
  | MainPanicked

text \<open>
  The fields from \<open>sys_frames_sent\<close> on are a history: nothing reads them. \<open>sys_drained\<close> is what
  the current turn of the event loop has taken from its channel, \<open>sys_turns\<close> the turns before.
\<close>

record ('h, 'r) System =
  sys_capture :: "'h CapturePc"
  sys_tracker :: TrackerPc
  sys_main :: MainPc
  sys_frames :: "Frame Channel"
  sys_events :: "UiEvent Channel"
  sys_shutdown :: bool
  sys_connections :: "'r ConnectionTracker"
  sys_term :: TermState
  sys_log :: "string list"
  sys_frames_sent :: "Frame list"
  sys_handled :: "(Frame \<times> u64) list"
  sys_events_sent :: "UiEvent list"
  sys_drained :: "UiEvent list"
  sys_turns :: "UiTurn list"

text \<open>What does not change in a run: the libraries, the resolver, the arguments, the terminal.\<close>

record ('i, 'h, 'r) Setting =
  set_pcap :: "('i, 'h) pcap"
  set_ethernet :: etherparse
  set_tls :: tls_parser
  set_resolve :: "'r OriginResolver"
  set_args :: Args
  set_world :: LiveWorld

definition sys_init :: "'r \<Rightarrow> ('h, 'r) System" where
  "sys_init r =
     \<lparr>sys_capture = CaptureUnspawned, sys_tracker = TrackerUnspawned, sys_main = SpawningCapture,
      sys_frames = channel, sys_events = channel, sys_shutdown = False,
      sys_connections = tracker_new r, sys_term = \<lparr>raw_mode = False, alternate_screen = False\<rparr>,
      sys_log = [], sys_frames_sent = [], sys_handled = [], sys_events_sent = [],
      sys_drained = [], sys_turns = []\<rparr>"

section \<open>The steps of the threads\<close>

text \<open>\<open>None\<close>: the thread cannot move, because it has ended or because it blocks.\<close>

definition capture_ends :: "string list \<Rightarrow> ('h, 'r) System \<Rightarrow> ('h, 'r) System" where
  "capture_ends errs s = s\<lparr>sys_capture := CaptureEnded, sys_frames := drop_sender (sys_frames s),
     sys_log := sys_log s @ errs\<rparr>"

definition capture_step :: "('i, 'h, 'r) Setting \<Rightarrow> ('h, 'r) System \<Rightarrow> ('h, 'r) System option" where
  "capture_step g s =
     (case sys_capture s of
        CaptureUnspawned \<Rightarrow> None
      | CaptureOpening \<Rightarrow>
          (case (case arg_interface (set_args g) of
                   Some name \<Rightarrow> source_open (set_pcap g) name (arg_bpf (set_args g))
                 | None \<Rightarrow> source_open_default (set_pcap g) (arg_bpf (set_args g))) of
             Inl e \<Rightarrow> Some (capture_ends [''capture: '' @ Error_to_string e] s)
           | Inr h \<Rightarrow> Some (s\<lparr>sys_capture := CaptureChecking h\<rparr>))
      | CaptureChecking h \<Rightarrow>
          Some (if sys_shutdown s then capture_ends [] s else s\<lparr>sys_capture := CapturePolling h\<rparr>)
      | CapturePolling h \<Rightarrow>
          (case next_frame (set_pcap g) h of
             (Inr (Some frame), h) \<Rightarrow> Some (s\<lparr>sys_capture := CaptureSending frame h\<rparr>)
           | (Inr None, h) \<Rightarrow> Some (s\<lparr>sys_capture := CaptureChecking h\<rparr>)
           | (Inl e, h) \<Rightarrow> Some (capture_ends [''capture: '' @ Error_to_string e] s))
      | CaptureSending frame h \<Rightarrow>
          (case send frame (sys_frames s) of
             None \<Rightarrow> Some (capture_ends [] s)
           | Some c \<Rightarrow> Some (s\<lparr>sys_capture := CaptureChecking h, sys_frames := c,
                            sys_frames_sent := sys_frames_sent s @ [frame]\<rparr>))
      | CaptureEnded \<Rightarrow> None)"

text \<open>The tracker thread drops its end of both channels when it ends or panics.\<close>

definition tracker_ends :: "TrackerPc \<Rightarrow> ('h, 'r) System \<Rightarrow> ('h, 'r) System" where
  "tracker_ends pc s = s\<lparr>sys_tracker := pc, sys_frames := drop_receiver (sys_frames s),
     sys_events := drop_sender (sys_events s)\<rparr>"

definition tracker_step ::
  "('i, 'h, 'r) Setting \<Rightarrow> u64 \<Rightarrow> ('h, 'r) System \<Rightarrow> ('h, 'r) System option" where
  "tracker_step g now s =
     (case sys_tracker s of
        TrackerUnspawned \<Rightarrow> None
      | TrackerReceiving \<Rightarrow>
          (case receive (sys_frames s) of
             Empty \<Rightarrow> None
           | Disconnected \<Rightarrow> Some (tracker_ends TrackerEnded s)
           | Message frame c \<Rightarrow>
               (case handle_frame (set_ethernet g) (set_tls g) (set_resolve g) now frame (sys_connections s) of
                  None \<Rightarrow> Some (tracker_ends TrackerPanicked (s\<lparr>sys_frames := c\<rparr>))
                | Some (evs, t) \<Rightarrow>
                    Some (s\<lparr>sys_tracker := TrackerSending evs, sys_frames := c, sys_connections := t,
                            sys_handled := sys_handled s @ [(frame, now)]\<rparr>)))
      | TrackerSending [] \<Rightarrow> Some (s\<lparr>sys_tracker := TrackerReceiving\<rparr>)
      | TrackerSending (e # es) \<Rightarrow>
          (case send e (sys_events s) of
             Some c \<Rightarrow> Some (s\<lparr>sys_tracker := TrackerSending es, sys_events := c,
                             sys_events_sent := sys_events_sent s @ [e]\<rparr>)
           | None \<Rightarrow> (case e of
                 HandshakeUpdated _ \<Rightarrow> Some (tracker_ends TrackerEnded s)
               | StaleEvicted _ \<Rightarrow> Some (s\<lparr>sys_tracker := TrackerSending es\<rparr>)))
      | TrackerEnded \<Rightarrow> None
      | TrackerPanicked \<Rightarrow> None)"

text \<open>\<open>run_live\<close> returns: its locals are dropped, with them the channel of the updates.\<close>

definition main_returns :: "Error + unit \<Rightarrow> ('h, 'r) System \<Rightarrow> ('h, 'r) System" where
  "main_returns res s = s\<lparr>sys_main := MainReturned res, sys_events := drop_receiver (sys_events s)\<rparr>"

text \<open>
  A step of the calling thread; the argument is what drawing and the keyboard answer in this
  turn of the event loop. A failure before the loop drops \<open>ui_tx\<close> as well, and what was moved
  into a closure that was not spawned.
\<close>

definition main_step ::
  "('i, 'h, 'r) Setting \<Rightarrow> UiTurn \<Rightarrow> ('h, 'r) System \<Rightarrow> ('h, 'r) System option" where
  "main_step g turn s =
     (let w = set_world g;
          fail = (\<lambda>e s. Some (main_returns (Inl e) (s\<lparr>sys_events := drop_sender (sys_events s)\<rparr>)))
      in case sys_main s of
        SpawningCapture \<Rightarrow>
          (case spawn_capture w of
             Some e \<Rightarrow> fail (Ui (''failed to spawn capture thread: '' @ e))
               (s\<lparr>sys_frames := drop_receiver (drop_sender (sys_frames s))\<rparr>)
           | None \<Rightarrow> Some (s\<lparr>sys_capture := CaptureOpening, sys_main := SpawningTracker\<rparr>))
      | SpawningTracker \<Rightarrow>
          (case spawn_tracker w of
             Some e \<Rightarrow> fail (Ui (''failed to spawn tracker thread: '' @ e))
               (s\<lparr>sys_frames := drop_receiver (sys_frames s)\<rparr>)
           | None \<Rightarrow> Some (s\<lparr>sys_tracker := TrackerReceiving, sys_events := clone_sender (sys_events s),
                             sys_main := EnablingRawMode\<rparr>))
      | EnablingRawMode \<Rightarrow>
          (case enable_raw w of
             Some e \<Rightarrow> fail (Ui e) s
           | None \<Rightarrow> Some (s\<lparr>sys_term := (sys_term s)\<lparr>raw_mode := True\<rparr>, sys_main := EnteringAlternate\<rparr>))
      | EnteringAlternate \<Rightarrow>
          (case enter_alternate w of
             Some e \<Rightarrow> fail (Ui e) s
           | None \<Rightarrow> Some (s\<lparr>sys_term := (sys_term s)\<lparr>alternate_screen := True\<rparr>,
                             sys_main := CreatingTerminal\<rparr>))
      | CreatingTerminal \<Rightarrow>
          (case new_terminal w of
             Some e \<Rightarrow> fail (Ui e) s
           | None \<Rightarrow> Some (s\<lparr>sys_main := Draining app_new\<rparr>))
      | Draining app \<Rightarrow>
          (case receive (sys_events s) of
             Message e c \<Rightarrow>
               Some (s\<lparr>sys_events := c, sys_drained := sys_drained s @ [e],
                       sys_main := (case handle_ui_event e app of
                           Some app \<Rightarrow> Draining app | None \<Rightarrow> MainPanicked)\<rparr>)
           | _ \<Rightarrow> Some (s\<lparr>sys_main := Drawing app\<rparr>))
      | Drawing app \<Rightarrow>
          Some (s\<lparr>sys_turns := sys_turns s @ [turn\<lparr>pending_events := sys_drained s\<rparr>], sys_drained := [],
                  sys_main := (case run_event_loop [turn\<lparr>pending_events := []\<rparr>] app of
                      None \<Rightarrow> MainPanicked
                    | Some (StillRunning app) \<Rightarrow> Draining app
                    | Some (Returned res _) \<Rightarrow> TearingDown res)\<rparr>)
      | TearingDown res \<Rightarrow> Some (s\<lparr>sys_term := teardown w (sys_term s), sys_main := Signalling res\<rparr>)
      | Signalling res \<Rightarrow>
          Some (s\<lparr>sys_shutdown := True, sys_events := drop_sender (sys_events s),
                  sys_main := JoiningCapture res\<rparr>)
      | JoiningCapture res \<Rightarrow>
          (if sys_capture s = CaptureEnded then Some (s\<lparr>sys_main := JoiningTracker res\<rparr>) else None)
      | JoiningTracker res \<Rightarrow>
          (if sys_tracker s \<in> {TrackerEnded, TrackerPanicked}
           then Some (main_returns (map_sum
                  (\<lambda>e. Ui (''running the UI event loop: '' @ Error_to_string e)) id res) s)
           else None)
      | MainReturned res \<Rightarrow> None
      | MainPanicked \<Rightarrow> None)"

text \<open>Any thread that can move may be the next to do so.\<close>

inductive sys_step :: "('i, 'h, 'r) Setting \<Rightarrow> ('h, 'r) System \<Rightarrow> ('h, 'r) System \<Rightarrow> bool"
  for g :: "('i, 'h, 'r) Setting" where
    capture_moves: "capture_step g s = Some s' \<Longrightarrow> sys_step g s s'"
  | tracker_moves: "tracker_step g now s = Some s' \<Longrightarrow> sys_step g s s'"
  | main_moves: "main_step g turn s = Some s' \<Longrightarrow> sys_step g s s'"

inductive sys_reachable :: "('i, 'h, 'r) Setting \<Rightarrow> 'r \<Rightarrow> ('h, 'r) System \<Rightarrow> bool"
  for g :: "('i, 'h, 'r) Setting" and r :: 'r where
    sys_start: "sys_reachable g r (sys_init r)"
  | sys_next: "sys_reachable g r s \<Longrightarrow> sys_step g s s' \<Longrightarrow> sys_reachable g r s'"

inductive_cases sys_stepE: "sys_step g s s'"

declare run_event_loop.simps [simp del]

section \<open>Who is alive\<close>

text \<open>The calling thread has started both threads and not yet returned; it is joining them; it has returned.\<close>

fun in_session :: "MainPc \<Rightarrow> bool" where
  "in_session SpawningCapture = False"
| "in_session SpawningTracker = False"
| "in_session (MainReturned res) = False"
| "in_session MainPanicked = False"
| "in_session _ = True"

fun joining :: "MainPc \<Rightarrow> bool" where
  "joining (JoiningCapture res) = True"
| "joining (JoiningTracker res) = True"
| "joining _ = False"

fun returned :: "MainPc \<Rightarrow> bool" where
  "returned (MainReturned res) = True"
| "returned _ = False"

fun receiving :: "TrackerPc \<Rightarrow> bool" where
  "receiving TrackerReceiving = True"
| "receiving (TrackerSending es) = True"
| "receiving _ = False"

abbreviation finished :: "TrackerPc \<Rightarrow> bool" where
  "finished pc \<equiv> pc = TrackerEnded \<or> pc = TrackerPanicked"

definition sys_control :: "('h, 'r) System \<Rightarrow> bool" where
  "sys_control s \<longleftrightarrow>
     (sys_main s = SpawningCapture \<longrightarrow> sys_capture s = CaptureUnspawned \<and> sys_tracker s = TrackerUnspawned)
   \<and> (sys_main s = SpawningTracker \<longrightarrow> sys_capture s \<noteq> CaptureUnspawned \<and> sys_tracker s = TrackerUnspawned)
   \<and> (in_session (sys_main s) \<longrightarrow> sys_capture s \<noteq> CaptureUnspawned \<and> sys_tracker s \<noteq> TrackerUnspawned)
   \<and> (joining (sys_main s) \<longrightarrow> sys_shutdown s)
   \<and> (sys_shutdown s \<longrightarrow> joining (sys_main s) \<or> returned (sys_main s))
   \<and> (\<forall>res. sys_main s = JoiningTracker res \<longrightarrow> sys_capture s = CaptureEnded)
   \<and> ch_senders (sys_frames s)
        = (if sys_capture s = CaptureEnded \<or> sys_capture s = CaptureUnspawned \<and> returned (sys_main s) then 0 else 1)
   \<and> ch_receiver (sys_events s) = (\<not> returned (sys_main s))
   \<and> ch_receiver (sys_frames s)
        = (receiving (sys_tracker s) \<or> sys_tracker s = TrackerUnspawned \<and> \<not> returned (sys_main s))
   \<and> (\<not> ch_receiver (sys_frames s) \<longrightarrow> ch_queue (sys_frames s) = [])
   \<and> (\<not> ch_receiver (sys_events s) \<longrightarrow> ch_queue (sys_events s) = [])"

lemmas channel_defs = channel_def send_def receive_def clone_sender_def drop_sender_def drop_receiver_def

lemmas end_defs = capture_ends_def tracker_ends_def main_returns_def

text \<open>The kinds of step of each thread.\<close>

lemma capture_stepE:
  assumes "capture_step g s = Some s'"
  obtains (moves) pc where "sys_capture s \<noteq> CaptureUnspawned" "sys_capture s \<noteq> CaptureEnded"
      "pc \<noteq> CaptureUnspawned" "pc \<noteq> CaptureEnded" "s' = s\<lparr>sys_capture := pc\<rparr>"
  | (sends) frame h where "sys_capture s = CaptureSending frame h" "ch_receiver (sys_frames s)"
      "s' = s\<lparr>sys_capture := CaptureChecking h,
         sys_frames := (sys_frames s)\<lparr>ch_queue := ch_queue (sys_frames s) @ [frame]\<rparr>,
         sys_frames_sent := sys_frames_sent s @ [frame]\<rparr>"
  | (ends) errs where "sys_capture s \<noteq> CaptureUnspawned" "sys_capture s \<noteq> CaptureEnded"
      "s' = capture_ends errs s"
proof (cases "sys_capture s")
  case CaptureOpening
  with assms moves ends show thesis by (auto simp: capture_step_def split: option.splits sum.splits)
next
  case (CaptureChecking h)
  with assms moves ends show thesis by (auto simp: capture_step_def split: if_splits)
next
  case (CapturePolling h)
  with assms moves ends show thesis
    by (auto simp: capture_step_def split: prod.splits sum.splits option.splits)
next
  case (CaptureSending frame h)
  with assms sends ends show thesis by (auto simp: capture_step_def send_def split: if_splits)
qed (use assms in \<open>simp_all add: capture_step_def\<close>)

lemma tracker_stepE:
  assumes "tracker_step g now s = Some s'"
  obtains (handles) frame rest evs t where "sys_tracker s = TrackerReceiving"
      "ch_queue (sys_frames s) = frame # rest"
      "handle_frame (set_ethernet g) (set_tls g) (set_resolve g) now frame (sys_connections s) = Some (evs, t)"
      "s' = s\<lparr>sys_tracker := TrackerSending evs, sys_frames := (sys_frames s)\<lparr>ch_queue := rest\<rparr>,
         sys_connections := t, sys_handled := sys_handled s @ [(frame, now)]\<rparr>"
  | (panics) frame rest where "sys_tracker s = TrackerReceiving" "ch_queue (sys_frames s) = frame # rest"
      "handle_frame (set_ethernet g) (set_tls g) (set_resolve g) now frame (sys_connections s) = None"
      "s' = tracker_ends TrackerPanicked (s\<lparr>sys_frames := (sys_frames s)\<lparr>ch_queue := rest\<rparr>\<rparr>)"
  | (ends) "sys_tracker s = TrackerReceiving" "ch_queue (sys_frames s) = []" "ch_senders (sys_frames s) = 0"
      "s' = tracker_ends TrackerEnded s"
  | (idle) "sys_tracker s = TrackerSending []" "s' = s\<lparr>sys_tracker := TrackerReceiving\<rparr>"
  | (sends) e es where "sys_tracker s = TrackerSending (e # es)" "ch_receiver (sys_events s)"
      "s' = s\<lparr>sys_tracker := TrackerSending es,
         sys_events := (sys_events s)\<lparr>ch_queue := ch_queue (sys_events s) @ [e]\<rparr>,
         sys_events_sent := sys_events_sent s @ [e]\<rparr>"
  | (hangs_up) e es where "sys_tracker s = TrackerSending (e # es)" "\<not> ch_receiver (sys_events s)"
      "s' = tracker_ends TrackerEnded s"
  | (loses) e es where "sys_tracker s = TrackerSending (e # es)" "\<not> ch_receiver (sys_events s)"
      "s' = s\<lparr>sys_tracker := TrackerSending es\<rparr>"
proof (cases "sys_tracker s")
  case TrackerReceiving
  with assms handles panics ends show thesis
    by (auto simp: tracker_step_def receive_def split: list.splits if_splits option.splits)
next
  case (TrackerSending es)
  with assms idle sends hangs_up loses show thesis
    by (cases es) (auto simp: tracker_step_def send_def split: if_splits UiEvent.splits)
qed (use assms in \<open>simp_all add: tracker_step_def\<close>)

lemma drain_stepE:
  assumes "main_step g turn s = Some s'" and "sys_main s = Draining app"
  obtains (drained) "ch_queue (sys_events s) = []" "s' = s\<lparr>sys_main := Drawing app\<rparr>"
  | (takes) e rest where "ch_queue (sys_events s) = e # rest"
      "s' = s\<lparr>sys_events := (sys_events s)\<lparr>ch_queue := rest\<rparr>, sys_drained := sys_drained s @ [e],
         sys_main := (case handle_ui_event e app of Some app \<Rightarrow> Draining app | None \<Rightarrow> MainPanicked)\<rparr>"
  using assms by (cases "ch_queue (sys_events s)")
    (auto simp: main_step_def receive_def Let_def split: if_splits)

lemma draw_stepE:
  assumes "main_step g turn s = Some s'" and "sys_main s = Drawing app"
  obtains pc where "s' = s\<lparr>sys_turns := sys_turns s @ [turn\<lparr>pending_events := sys_drained s\<rparr>],
      sys_drained := [], sys_main := pc\<rparr>"
    and "pc = (case run_event_loop [turn\<lparr>pending_events := []\<rparr>] app of
        None \<Rightarrow> MainPanicked
      | Some (StillRunning app) \<Rightarrow> Draining app
      | Some (Returned res _) \<Rightarrow> TearingDown res)"
  using assms by (simp add: main_step_def Let_def)

lemma capture_control:
  assumes "capture_step g s = Some s'" and "sys_control s"
  shows "sys_control s'"
  using assms(1)
proof (cases rule: capture_stepE)
  case moves
  with assms(2) show ?thesis by (simp add: sys_control_def)
next
  case sends
  with assms(2) show ?thesis by (simp add: sys_control_def)
next
  case ends
  with assms(2) show ?thesis by (simp add: sys_control_def end_defs drop_sender_def)
qed

lemma tracker_control:
  assumes "tracker_step g now s = Some s'" and "sys_control s"
  shows "sys_control s'"
  using assms(1)
proof (cases rule: tracker_stepE)
  case handles
  with assms(2) show ?thesis by (simp add: sys_control_def)
next
  case panics
  with assms(2) show ?thesis by (simp add: sys_control_def end_defs drop_sender_def drop_receiver_def)
next
  case ends
  with assms(2) show ?thesis by (simp add: sys_control_def end_defs drop_sender_def drop_receiver_def)
next
  case idle
  with assms(2) show ?thesis by (simp add: sys_control_def)
next
  case sends
  with assms(2) show ?thesis by (simp add: sys_control_def) blast
next
  case hangs_up
  with assms(2) show ?thesis by (simp add: sys_control_def end_defs drop_sender_def drop_receiver_def)
next
  case loses
  with assms(2) show ?thesis by (simp add: sys_control_def end_defs drop_sender_def drop_receiver_def)
qed

text \<open>Setting up the terminal, and giving up on it.\<close>

lemma setup_control:
  assumes "sys_control s" and "in_session (sys_main s)" and "\<not> joining (sys_main s)"
    and "in_session pc" and "\<not> joining pc"
  shows "sys_control (s\<lparr>sys_term := t, sys_main := pc\<rparr>)"
proof -
  have "\<not> returned (sys_main s)" using assms(2) by (cases "sys_main s") simp_all
  moreover have "pc \<noteq> SpawningCapture" "pc \<noteq> SpawningTracker" "pc \<noteq> JoiningTracker res" "\<not> returned pc" for res
    using assms(4,5) by (cases pc; simp)+
  ultimately show ?thesis using assms by (simp add: sys_control_def)
qed

lemma failure_control:
  assumes "sys_control s" and "in_session (sys_main s)" and "\<not> joining (sys_main s)"
  shows "sys_control (main_returns res (s\<lparr>sys_events := drop_sender (sys_events s)\<rparr>))"
  using assms by (simp add: sys_control_def end_defs drop_sender_def drop_receiver_def)

lemma main_control:
  assumes "main_step g turn s = Some s'" and "sys_control s"
  shows "sys_control s'"
proof (cases "sys_main s")
  case SpawningCapture
  with assms show ?thesis
    by (auto simp: main_step_def sys_control_def end_defs drop_sender_def drop_receiver_def split: option.splits)
next
  case SpawningTracker
  with assms show ?thesis
    by (auto simp: main_step_def sys_control_def end_defs drop_sender_def drop_receiver_def clone_sender_def
        split: option.splits)
next
  case EnablingRawMode
  show ?thesis
  proof (cases "enable_raw (set_world g)")
    case None
    with assms(1) EnablingRawMode have "s' = s\<lparr>sys_term := (sys_term s)\<lparr>raw_mode := True\<rparr>, sys_main := EnteringAlternate\<rparr>"
      by (simp add: main_step_def Let_def)
    with setup_control [OF assms(2), of "EnteringAlternate" "(sys_term s)\<lparr>raw_mode := True\<rparr>"] EnablingRawMode show ?thesis by simp
  next
    case (Some e)
    with assms(1) EnablingRawMode have "s' = main_returns (Inl (Ui e)) (s\<lparr>sys_events := drop_sender (sys_events s)\<rparr>)"
      by (simp add: main_step_def Let_def)
    with failure_control [OF assms(2)] EnablingRawMode show ?thesis by simp
  qed
next
  case EnteringAlternate
  show ?thesis
  proof (cases "enter_alternate (set_world g)")
    case None
    with assms(1) EnteringAlternate have "s' = s\<lparr>sys_term := (sys_term s)\<lparr>alternate_screen := True\<rparr>, sys_main := CreatingTerminal\<rparr>"
      by (simp add: main_step_def Let_def)
    with setup_control [OF assms(2), of "CreatingTerminal" "(sys_term s)\<lparr>alternate_screen := True\<rparr>"] EnteringAlternate show ?thesis by simp
  next
    case (Some e)
    with assms(1) EnteringAlternate have "s' = main_returns (Inl (Ui e)) (s\<lparr>sys_events := drop_sender (sys_events s)\<rparr>)"
      by (simp add: main_step_def Let_def)
    with failure_control [OF assms(2)] EnteringAlternate show ?thesis by simp
  qed
next
  case CreatingTerminal
  show ?thesis
  proof (cases "new_terminal (set_world g)")
    case None
    with assms(1) CreatingTerminal have "s' = s\<lparr>sys_main := Draining app_new\<rparr>"
      by (simp add: main_step_def Let_def)
    with setup_control [OF assms(2), of "Draining app_new" "sys_term s"] CreatingTerminal show ?thesis by simp
  next
    case (Some e)
    with assms(1) CreatingTerminal have "s' = main_returns (Inl (Ui e)) (s\<lparr>sys_events := drop_sender (sys_events s)\<rparr>)"
      by (simp add: main_step_def Let_def)
    with failure_control [OF assms(2)] CreatingTerminal show ?thesis by simp
  qed
next
  case (Draining app)
  from assms(1) Draining show ?thesis
  proof (cases rule: drain_stepE)
    case drained
    with assms(2) Draining show ?thesis by (simp add: sys_control_def)
  next
    case (takes e rest)
    with assms(2) Draining show ?thesis
      by (cases "handle_ui_event e app") (simp_all add: sys_control_def)
  qed
next
  case (Drawing app)
  from assms(1) Drawing show ?thesis
  proof (cases rule: draw_stepE)
    case (1 pc)
    then have "pc = MainPanicked \<or> (\<exists>app. pc = Draining app) \<or> (\<exists>res. pc = TearingDown res)"
      by (simp split: option.split LoopEnd.split)
    with assms(2) Drawing 1(1) show ?thesis by (elim disjE exE) (simp_all add: sys_control_def)
  qed
next
  case (TearingDown res)
  with assms(1) have "s' = s\<lparr>sys_term := teardown (set_world g) (sys_term s), sys_main := Signalling res\<rparr>"
    by (simp add: main_step_def Let_def)
  with assms(2) TearingDown show ?thesis by (simp add: sys_control_def)
next
  case (Signalling res)
  with assms(1) have "s' = s\<lparr>sys_shutdown := True, sys_events := drop_sender (sys_events s),
      sys_main := JoiningCapture res\<rparr>"
    by (simp add: main_step_def Let_def)
  with assms(2) Signalling show ?thesis by (simp add: sys_control_def drop_sender_def)
next
  case (JoiningCapture res)
  with assms(1) have "s' = s\<lparr>sys_main := JoiningTracker res\<rparr>" "sys_capture s = CaptureEnded"
    by (simp_all add: main_step_def Let_def split: if_splits)
  with assms(2) JoiningCapture show ?thesis by (simp add: sys_control_def)
next
  case (JoiningTracker res)
  with assms(1) obtain res' where "s' = main_returns res' s" "finished (sys_tracker s)"
    by (auto simp: main_step_def Let_def split: if_splits)
  with assms(2) JoiningTracker show ?thesis by (auto simp: sys_control_def end_defs drop_receiver_def)
qed (use assms(1) in \<open>simp_all add: main_step_def Let_def\<close>)

lemma sys_controlD:
  assumes "sys_control s"
  shows control_unspawned: "sys_main s = SpawningCapture \<or> sys_main s = SpawningTracker \<Longrightarrow>
      sys_tracker s = TrackerUnspawned"
    and control_spawned: "in_session (sys_main s) \<Longrightarrow> sys_tracker s \<noteq> TrackerUnspawned"
    and control_senders: "ch_senders (sys_frames s) = 0 \<Longrightarrow> sys_capture s = CaptureEnded \<or> returned (sys_main s)"
    and control_events: "ch_receiver (sys_events s) \<longleftrightarrow> \<not> returned (sys_main s)"
    and control_frames: "ch_receiver (sys_frames s) \<longleftrightarrow>
      receiving (sys_tracker s) \<or> sys_tracker s = TrackerUnspawned \<and> \<not> returned (sys_main s)"
  using assms unfolding sys_control_def by (blast, blast, metis One_nat_def zero_neq_one, blast, blast)

lemma step_control: "sys_step g s s' \<Longrightarrow> sys_control s \<Longrightarrow> sys_control s'"
  by (elim sys_stepE) (blast intro: capture_control tracker_control main_control)+

lemma init_control: "sys_control (sys_init r)"
  by (simp add: sys_control_def sys_init_def channel_def)

lemma reachable_control: "sys_reachable g r s \<Longrightarrow> sys_control s"
  by (induction rule: sys_reachable.induct) (blast intro: init_control step_control)+

section \<open>Shutting down\<close>

text \<open>
  The steps the system can still make once the flag is set: a frame in the channel costs the
  tracker four (receive it, send at most two updates, go back to receiving).
\<close>

fun capture_work :: "'h CapturePc \<Rightarrow> nat" where
  "capture_work CaptureUnspawned = 0"
| "capture_work CaptureOpening = 2"
| "capture_work (CaptureChecking h) = 1"
| "capture_work (CapturePolling h) = 7"
| "capture_work (CaptureSending frame h) = 6"
| "capture_work CaptureEnded = 0"

fun tracker_work :: "TrackerPc \<Rightarrow> nat" where
  "tracker_work TrackerReceiving = 1"
| "tracker_work (TrackerSending es) = length es + 2"
| "tracker_work _ = 0"

fun main_work :: "MainPc \<Rightarrow> nat" where
  "main_work (JoiningCapture res) = 2"
| "main_work (JoiningTracker res) = 1"
| "main_work _ = 0"

definition shutdown_work :: "('h, 'r) System \<Rightarrow> nat" where
  "shutdown_work s = capture_work (sys_capture s) + 4 * length (ch_queue (sys_frames s))
     + tracker_work (sys_tracker s) + main_work (sys_main s)"

lemma frame_events:
  assumes "handle_frame from_ethernet tp resolve now frame t = Some (evs, t')"
  shows "length evs \<le> 2"
  using assms
proof (cases rule: handle_frame_elim)
  case (segment seg key out t1)
  then show ?thesis by (auto split: sum.split option.split)
qed simp

lemma capture_shuts_down:
  assumes "capture_step g s = Some s'" and "sys_shutdown s"
  shows "shutdown_work s' < shutdown_work s \<and> sys_shutdown s' \<and> sys_main s' = sys_main s"
proof (cases "sys_capture s")
  case CaptureOpening
  with assms show ?thesis
    by (auto simp: capture_step_def shutdown_work_def end_defs drop_sender_def split: option.splits sum.splits)
next
  case (CaptureChecking h)
  with assms show ?thesis
    by (auto simp: capture_step_def shutdown_work_def end_defs drop_sender_def)
next
  case (CapturePolling h)
  with assms show ?thesis
    by (auto simp: capture_step_def shutdown_work_def end_defs drop_sender_def
        split: prod.splits sum.splits option.splits)
next
  case (CaptureSending frame h)
  with assms show ?thesis
    by (auto simp: capture_step_def send_def shutdown_work_def end_defs drop_sender_def split: if_splits)
qed (use assms in \<open>simp_all add: capture_step_def\<close>)

lemma tracker_shuts_down:
  assumes "tracker_step g now s = Some s'"
  shows "shutdown_work s' < shutdown_work s \<and> sys_shutdown s' = sys_shutdown s \<and> sys_main s' = sys_main s"
  using assms
proof (cases rule: tracker_stepE)
  case (handles frame rest evs t)
  then show ?thesis using frame_events [OF handles(3)] by (simp add: shutdown_work_def)
qed (simp_all add: shutdown_work_def end_defs drop_sender_def drop_receiver_def)

text \<open>What \<open>run_live\<close> makes of the end of the event loop.\<close>

definition live_outcome :: "Error + unit \<Rightarrow> Error + unit" where
  "live_outcome res = map_sum (\<lambda>e. Ui (''running the UI event loop: '' @ Error_to_string e)) id res"

text \<open>The calling thread on its way out with the result \<open>res\<close>.\<close>

definition leaving :: "Error + unit \<Rightarrow> ('h, 'r) System \<Rightarrow> bool" where
  "leaving res s \<longleftrightarrow> sys_shutdown s
     \<and> sys_main s \<in> {JoiningCapture res, JoiningTracker res, MainReturned (live_outcome res)}"

lemma main_shuts_down:
  assumes "main_step g turn s = Some s'" and "leaving res s"
  shows "shutdown_work s' < shutdown_work s \<and> leaving res s'"
  using assms by (auto simp: main_step_def leaving_def shutdown_work_def end_defs drop_receiver_def
      live_outcome_def split: if_splits)

lemma step_shuts_down:
  assumes "sys_step g s s'" and "leaving res s"
  shows "shutdown_work s' < shutdown_work s \<and> leaving res s'"
  using assms(1)
proof (cases rule: sys_step.cases)
  case capture_moves
  with capture_shuts_down assms(2) show ?thesis by (force simp: leaving_def)
next
  case (tracker_moves now)
  with tracker_shuts_down assms(2) show ?thesis by (force simp: leaving_def)
next
  case (main_moves turn)
  with main_shuts_down assms(2) show ?thesis by blast
qed

text \<open>While the calling thread waits, some thread can move: there is no deadlock.\<close>

lemma capture_moves_on:
  assumes "sys_capture s \<noteq> CaptureUnspawned" and "sys_capture s \<noteq> CaptureEnded"
  shows "\<exists>s'. capture_step g s = Some s'"
  using assms by (cases "sys_capture s")
    (auto simp: capture_step_def split: option.split sum.split prod.split)

lemma tracker_moves_on:
  assumes "sys_tracker s \<noteq> TrackerUnspawned" and "\<not> finished (sys_tracker s)"
    and "ch_senders (sys_frames s) = 0"
  shows "\<exists>s'. tracker_step g now s = Some s'"
proof (cases "sys_tracker s")
  case (TrackerSending es)
  then show ?thesis
    by (cases es) (auto simp: tracker_step_def split: option.split UiEvent.split)
qed (use assms in \<open>auto simp: tracker_step_def receive_def split: list.split option.split\<close>)

lemma joining_moves_on:
  assumes "sys_control s" and "joining (sys_main s)"
  shows "\<exists>s'. sys_step g s s'"
proof -
  have spawned: "sys_capture s \<noteq> CaptureUnspawned" "sys_tracker s \<noteq> TrackerUnspawned"
    using assms by (cases "sys_main s"; simp add: sys_control_def)+
  show ?thesis
  proof (cases "sys_capture s = CaptureEnded \<and> finished (sys_tracker s)")
    case True
    with assms(2) have "\<exists>s'. main_step g turn s = Some s'" for turn
      by (cases "sys_main s") (auto simp: main_step_def Let_def)
    then show ?thesis by (blast intro: main_moves)
  next
    case False
    show ?thesis
    proof (cases "sys_capture s = CaptureEnded")
      case True
      with assms(1) have "ch_senders (sys_frames s) = 0" by (simp add: sys_control_def)
      with tracker_moves_on [OF spawned(2)] True False show ?thesis by (blast intro: tracker_moves)
    next
      case no: False
      with capture_moves_on [OF spawned(1)] show ?thesis by (blast intro: capture_moves)
    qed
  qed
qed

text \<open>A schedule: at every moment some thread moves, unless none can.\<close>

definition schedule :: "('i, 'h, 'r) Setting \<Rightarrow> (nat \<Rightarrow> ('h, 'r) System) \<Rightarrow> bool" where
  "schedule g sched \<longleftrightarrow> (\<forall>i. sys_step g (sched i) (sched (Suc i))
     \<or> (\<forall>s'. \<not> sys_step g (sched i) s') \<and> sched (Suc i) = sched i)"

lemma leaving_returns:
  assumes "schedule g sched" and "sys_control (sched i)" and "leaving res (sched i)"
    and "shutdown_work (sched i) \<le> n"
  shows "sys_main (sched (i + n)) = MainReturned (live_outcome res)"
  using assms(2-4)
proof (induction n arbitrary: i)
  case 0
  then show ?case by (auto simp: leaving_def shutdown_work_def)
next
  case (Suc n)
  show ?case
  proof (cases "sys_step g (sched i) (sched (Suc i))")
    case True
    with step_shuts_down [OF True Suc.prems(2)] step_control [OF True Suc.prems(1)] Suc.prems(3)
    show ?thesis using Suc.IH [of "Suc i"] by simp
  next
    case False
    with assms(1) have stuck: "\<forall>s'. \<not> sys_step g (sched i) s'"
      by (auto simp: schedule_def)
    have same: "sched (i + k) = sched i" for k
    proof (induction k)
      case (Suc k)
      with stuck assms(1) show ?case
        unfolding schedule_def by (metis add_Suc_right)
    qed simp
    have "\<not> joining (sys_main (sched i))"
      using joining_moves_on [OF Suc.prems(1)] stuck by blast
    with Suc.prems(2) same [of "Suc n"] show ?thesis by (auto simp: leaving_def)
  qed
qed

end
