(* ===== verification/Thread_History.thy ===== *)
theory Thread_History
  imports Threads
begin

text \<open>
  What the threads of \<open>Threads\<close> have done in a reachable system, compared with the sequential
  functions: the frames handled, the updates sent and taken, and how far the calling thread has
  got. Each step keeps these four histories; the properties of the concurrent program follow.
\<close>

section \<open>What the threads have done so far\<close>

lemma tracker_thread_snoc:
  assumes "tracker_thread from_ethernet tp resolve frames t = Some (evs, t1)"
    and "handle_frame from_ethernet tp resolve now frame t1 = Some (evs', t')"
  shows "tracker_thread from_ethernet tp resolve (frames @ [(frame, now)]) t = Some (evs @ evs', t')"
  using assms(1)
proof (induction frames arbitrary: t evs)
  case Nil
  with assms(2) show ?case by simp
next
  case (Cons fn frames)
  then show ?case by (cases fn) (auto simp: bind_eq_Some_conv)
qed

lemma event_loop_append:
  "run_event_loop (ts @ us) app = Option.bind (run_event_loop ts app)
     (\<lambda>e. case e of StillRunning app \<Rightarrow> run_event_loop us app | Returned res app \<Rightarrow> Some (Returned res app))"
proof (induction ts arbitrary: app)
  case (Cons t ts)
  show ?case
    by (simp add: run_event_loop.simps Cons.IH split: option.split sum.split LoopStep.split bind_split)
qed (simp add: run_event_loop.simps)

lemma event_loop_drained:
  assumes "fold_exec (\<lambda>app evt. handle_ui_event evt app) app0 drained = Some app"
  shows "run_event_loop [t\<lparr>pending_events := drained\<rparr>] app0 = run_event_loop [t\<lparr>pending_events := []\<rparr>] app"
  using assms by (cases "draw_error t"; cases "poll_result t") (simp_all add: run_event_loop.simps)

text \<open>The updates a turn of the tracker still has to send.\<close>

fun to_send :: "TrackerPc \<Rightarrow> UiEvent list" where
  "to_send (TrackerSending es) = es"
| "to_send _ = []"

text \<open>The frames: what was sent is what was handled and what is in the channel.\<close>

definition frames_history :: "('h, 'r) System \<Rightarrow> bool" where
  "frames_history s \<longleftrightarrow>
     (\<exists>lost. sys_frames_sent s = map fst (sys_handled s) @ ch_queue (sys_frames s) @ lost
        \<and> (ch_receiver (sys_frames s) \<longrightarrow> lost = [])
        \<and> (sys_tracker s = TrackerEnded \<and> \<not> returned (sys_main s) \<longrightarrow> lost = []))"

text \<open>The tracker: it has run on the frames handled, and its updates are sent, or still to be sent.\<close>

definition tracker_history :: "('i, 'h, 'r) Setting \<Rightarrow> 'r \<Rightarrow> ('h, 'r) System \<Rightarrow> bool" where
  "tracker_history g r s \<longleftrightarrow>
     (\<exists>evs. tracker_thread (set_ethernet g) (set_tls g) (set_resolve g) (sys_handled s) (tracker_new r)
          = Some (evs, sys_connections s)
        \<and> (\<not> returned (sys_main s) \<longrightarrow> evs = sys_events_sent s @ to_send (sys_tracker s)))"

text \<open>The updates: what was sent is what the event loop has taken and what is in the channel.\<close>

definition events_history :: "('h, 'r) System \<Rightarrow> bool" where
  "events_history s \<longleftrightarrow> \<not> returned (sys_main s) \<longrightarrow>
     sys_events_sent s = concat (map pending_events (sys_turns s)) @ sys_drained s @ ch_queue (sys_events s)"

lemma capture_history:
  assumes "capture_step g s = Some s'" and "sys_control s"
    and "frames_history s" and "tracker_history g r s" and "events_history s"
  shows "frames_history s' \<and> tracker_history g r s' \<and> events_history s'"
  using assms(1)
proof (cases rule: capture_stepE)
  case (sends frame h)
  with assms(2-5) show ?thesis
    by (auto simp: frames_history_def tracker_history_def events_history_def)
qed (use assms(2-5) in \<open>auto simp: frames_history_def tracker_history_def events_history_def end_defs
      drop_sender_def\<close>)

lemma tracker_keeps_history:
  assumes "tracker_step g now s = Some s'" and "sys_control s"
    and "frames_history s" and "tracker_history g r s" and "events_history s"
  shows "frames_history s' \<and> tracker_history g r s' \<and> events_history s'"
  using assms(1)
proof (cases rule: tracker_stepE)
  case (handles frame rest evs t)
  obtain evs0 where "tracker_thread (set_ethernet g) (set_tls g) (set_resolve g) (sys_handled s) (tracker_new r)
      = Some (evs0, sys_connections s)" "\<not> returned (sys_main s) \<longrightarrow> evs0 = sys_events_sent s"
    using assms(4) handles(1) by (auto simp: tracker_history_def)
  with tracker_thread_snoc [OF _ handles(3)] have "tracker_history g r s'"
    by (auto simp: tracker_history_def handles(4))
  moreover have "ch_receiver (sys_frames s)" using assms(2) handles(1) by (simp add: sys_control_def)
  ultimately show ?thesis
    using assms(3,5) handles by (auto simp: frames_history_def events_history_def)
next
  case (panics frame rest)
  with assms(2-5) show ?thesis
    by (auto simp: sys_control_def frames_history_def tracker_history_def events_history_def end_defs
        drop_sender_def drop_receiver_def)
next
  case ends
  moreover from ends have "ch_receiver (sys_frames s)" using assms(2) by (simp add: sys_control_def)
  ultimately show ?thesis using assms(3-5)
    by (auto simp: frames_history_def tracker_history_def events_history_def end_defs
        drop_sender_def drop_receiver_def)
next
  case idle
  with assms(2-5) show ?thesis
    by (auto simp: sys_control_def frames_history_def tracker_history_def events_history_def)
next
  case (sends e es)
  with assms(2-5) show ?thesis
    by (auto simp: sys_control_def frames_history_def tracker_history_def events_history_def)
next
  case (hangs_up e es)
  with assms(2) have "returned (sys_main s)" by (auto simp: sys_control_def)
  with hangs_up assms(3-5) show ?thesis
    by (auto simp: frames_history_def tracker_history_def events_history_def end_defs
        drop_sender_def drop_receiver_def)
next
  case (loses e es)
  with assms(2) have "returned (sys_main s)" by (auto simp: sys_control_def)
  with loses assms(2-5) show ?thesis
    by (auto simp: frames_history_def tracker_history_def events_history_def)
qed

lemma event_loop_ok:
  "app_ok app \<Longrightarrow> run_event_loop ts app = Some (StillRunning app') \<Longrightarrow> app_ok app'"
proof (induction ts arbitrary: app)
  case (Cons t ts)
  obtain app1 where 1: "fold_exec (\<lambda>app evt. handle_ui_event evt app) app (pending_events t) = Some app1"
    and ok: "app_ok app1"
    using handle_ui_events_ok [OF Cons.prems(1)] by blast
  from Cons.prems(2) 1 obtain polled step where polled: "loop_turn [] polled app1 = Some step"
    and rest: "(case step of Quit app \<Rightarrow> Some (Returned (Inr ()) app) | Continue app \<Rightarrow> run_event_loop ts app)
      = Some (StillRunning app')"
    by (auto simp: run_event_loop.simps bind_eq_Some_conv split: option.splits sum.splits)
  then obtain app2 where 2: "step = Continue app2" "run_event_loop ts app2 = Some (StillRunning app')"
    by (cases step) auto
  with polled loop_turn_ok [OF ok, of "[]" polled] have "app_ok app2" by auto
  with Cons.IH 2(2) show ?case by blast
qed (simp add: run_event_loop.simps)

definition term_off :: TermState where
  "term_off = \<lparr>raw_mode = False, alternate_screen = False\<rparr>"

definition term_on :: TermState where
  "term_on = \<lparr>raw_mode = True, alternate_screen = True\<rparr>"

text \<open>The event loop is inside the turn after \<open>turns\<close>, has taken \<open>drained\<close> in it, and is at \<open>app\<close>.\<close>

definition looped :: "UiTurn list \<Rightarrow> UiEvent list \<Rightarrow> App \<Rightarrow> bool" where
  "looped turns drained app \<longleftrightarrow> (\<exists>app0. run_event_loop turns app_new = Some (StillRunning app0)
     \<and> app_ok app0 \<and> fold_exec (\<lambda>app evt. handle_ui_event evt app) app0 drained = Some app)"

text \<open>How far the terminal is set up, or torn down, and what the event loop has come to.\<close>

definition set_up :: "LiveWorld \<Rightarrow> bool" where
  "set_up w \<longleftrightarrow> spawn_capture w = None \<and> spawn_tracker w = None \<and> enable_raw w = None
     \<and> enter_alternate w = None \<and> new_terminal w = None"

definition loop_ended :: "LiveWorld \<Rightarrow> ('h, 'r) System \<Rightarrow> Error + unit \<Rightarrow> bool" where
  "loop_ended w s res \<longleftrightarrow> set_up w \<and> sys_drained s = []
     \<and> (\<exists>app. run_event_loop (sys_turns s) app_new = Some (Returned res app))"

definition main_history :: "('i, 'h, 'r) Setting \<Rightarrow> ('h, 'r) System \<Rightarrow> bool" where
  "main_history g s \<longleftrightarrow>
     (let w = set_world g; fresh = (sys_turns s = [] \<and> sys_drained s = [])
      in case sys_main s of
        SpawningCapture \<Rightarrow> fresh \<and> sys_term s = term_off
      | SpawningTracker \<Rightarrow> fresh \<and> sys_term s = term_off \<and> spawn_capture w = None
      | EnablingRawMode \<Rightarrow> fresh \<and> sys_term s = term_off \<and> spawn_capture w = None \<and> spawn_tracker w = None
      | EnteringAlternate \<Rightarrow> fresh \<and> sys_term s = term_off\<lparr>raw_mode := True\<rparr> \<and> spawn_capture w = None
          \<and> spawn_tracker w = None \<and> enable_raw w = None
      | CreatingTerminal \<Rightarrow> fresh \<and> sys_term s = term_on \<and> spawn_capture w = None
          \<and> spawn_tracker w = None \<and> enable_raw w = None \<and> enter_alternate w = None
      | Draining app \<Rightarrow> set_up w \<and> sys_term s = term_on \<and> looped (sys_turns s) (sys_drained s) app
      | Drawing app \<Rightarrow> set_up w \<and> sys_term s = term_on \<and> looped (sys_turns s) (sys_drained s) app
      | TearingDown res \<Rightarrow> sys_term s = term_on \<and> loop_ended w s res
      | Signalling res \<Rightarrow> sys_term s = teardown w term_on \<and> loop_ended w s res
      | JoiningCapture res \<Rightarrow> sys_term s = teardown w term_on \<and> loop_ended w s res
      | JoiningTracker res \<Rightarrow> sys_term s = teardown w term_on \<and> loop_ended w s res
      | MainReturned res \<Rightarrow> (\<exists>ended. run_event_loop (sys_turns s) app_new = Some ended
          \<and> live_ending w ended = (Some res, sys_term s, sys_shutdown s))
      | MainPanicked \<Rightarrow> False)"

lemma capture_main_history:
  assumes "capture_step g s = Some s'" and "main_history g s"
  shows "main_history g s'"
  using assms(1)
  by (cases rule: capture_stepE) (use assms(2) in
      \<open>simp_all add: main_history_def loop_ended_def end_defs cong: MainPc.case_cong\<close>)

lemma tracker_main_history:
  assumes "tracker_step g now s = Some s'" and "main_history g s"
  shows "main_history g s'"
  using assms(1)
  by (cases rule: tracker_stepE) (use assms(2) in
      \<open>simp_all add: main_history_def loop_ended_def end_defs cong: MainPc.case_cong\<close>)

lemma looped_ok: "looped turns drained app \<Longrightarrow> app_ok app"
  unfolding looped_def using handle_ui_events_ok by (metis option.inject)

lemma looped_takes:
  assumes "looped turns drained app" and "handle_ui_event e app = Some app'"
  shows "looped turns (drained @ [e]) app'"
  using assms by (auto simp: looped_def fold_exec_append)

lemma looped_turn:
  assumes "looped turns drained app"
  shows "run_event_loop (turns @ [t\<lparr>pending_events := drained\<rparr>]) app_new
    = run_event_loop [t\<lparr>pending_events := []\<rparr>] app"
  using assms event_loop_drained [of _ drained app t] by (auto simp: looped_def event_loop_append)

lemma looped_start: "looped [] [] app_new"
  by (simp add: looped_def app_ok_new run_event_loop.simps)

lemma live_ending_outcome:
  "set_up w \<Longrightarrow> live_ending w (Returned res app) = (Some (live_outcome res), teardown w term_on, True)"
  by (cases res) (simp_all add: live_ending_def set_up_def live_outcome_def term_on_def)

lemma main_keeps_history:
  assumes "main_step g turn s = Some s'" and "sys_control s" and "main_history g s"
  shows "main_history g s'"
proof (cases "sys_main s")
  case (Draining app)
  then have l: "set_up (set_world g)" "sys_term s = term_on" "looped (sys_turns s) (sys_drained s) app"
    using assms(3) by (simp_all add: main_history_def)
  from assms(1) Draining show ?thesis
  proof (cases rule: drain_stepE)
    case drained
    with l show ?thesis by (simp add: main_history_def)
  next
    case (takes e rest)
    obtain app' where "handle_ui_event e app = Some app'"
      using handle_ui_event_ok [OF looped_ok [OF l(3)]] by blast
    with l takes looped_takes show ?thesis by (simp add: main_history_def)
  qed
next
  case (Drawing app)
  then have l: "set_up (set_world g)" "sys_term s = term_on" "looped (sys_turns s) (sys_drained s) app"
    using assms(3) by (simp_all add: main_history_def)
  obtain e where e: "run_event_loop [turn\<lparr>pending_events := []\<rparr>] app = Some e"
    using run_event_loop_total [OF looped_ok [OF l(3)]] by blast
  note after = looped_turn [OF l(3), of turn, unfolded e]
  from assms(1) Drawing show ?thesis
  proof (cases rule: draw_stepE)
    case (1 pc)
    show ?thesis
    proof (cases e)
      case (Returned res app')
      with 1 e l after show ?thesis by (simp add: main_history_def loop_ended_def)
    next
      case (StillRunning app')
      have "app_ok app'" using event_loop_ok [OF looped_ok [OF l(3)]] e StillRunning by blast
      with StillRunning 1 e l after show ?thesis by (simp add: main_history_def looped_def)
    qed
  qed
next
  case (JoiningTracker res)
  with assms(1) have s': "s' = main_returns (live_outcome res) s"
    by (auto simp: main_step_def Let_def live_outcome_def split: if_splits)
  from JoiningTracker assms(3) obtain app where l: "set_up (set_world g)"
    "sys_term s = teardown (set_world g) term_on" "run_event_loop (sys_turns s) app_new = Some (Returned res app)"
    by (auto simp: main_history_def loop_ended_def Let_def)
  moreover have "sys_shutdown s" using assms(2) JoiningTracker by (simp add: sys_control_def)
  ultimately show ?thesis
    using live_ending_outcome [OF l(1), of res app] by (simp add: s' main_history_def end_defs)
next
  case (TearingDown res)
  with assms(1,3) show ?thesis by (auto simp: main_step_def Let_def main_history_def loop_ended_def)
next
  case (Signalling res)
  with assms(1,3) show ?thesis by (auto simp: main_step_def Let_def main_history_def loop_ended_def)
next
  case (JoiningCapture res)
  with assms(1,3) show ?thesis
    by (auto simp: main_step_def Let_def main_history_def loop_ended_def split: if_splits)
qed (use assms in \<open>auto simp: main_step_def Let_def main_history_def end_defs live_ending_def term_off_def
      term_on_def set_up_def looped_start run_event_loop.simps sys_control_def split: option.splits\<close>)

lemma main_histories:
  assumes "main_step g turn s = Some s'" and "sys_control s" and "main_history g s"
    and "frames_history s" and "tracker_history g r s" and "events_history s"
  shows "frames_history s' \<and> tracker_history g r s' \<and> events_history s'"
proof (cases "sys_main s")
  case (Draining app)
  from assms(1) Draining show ?thesis
  proof (cases rule: drain_stepE)
    case drained
    with assms(4-6) Draining show ?thesis
      by (simp add: frames_history_def tracker_history_def events_history_def)
  next
    case (takes e rest)
    with assms(4-6) Draining show ?thesis
      by (cases "handle_ui_event e app") (simp_all add: frames_history_def tracker_history_def events_history_def)
  qed
next
  case (Drawing app)
  from assms(1) Drawing show ?thesis
  proof (cases rule: draw_stepE)
    case (1 pc)
    then have "\<not> returned pc" by (auto split: option.splits LoopEnd.splits)
    with 1(1) assms(4-6) Drawing show ?thesis
      by (simp add: frames_history_def tracker_history_def events_history_def)
  qed
next
  case (TearingDown res)
  with assms(1,4-6) show ?thesis
    by (auto simp: main_step_def Let_def frames_history_def tracker_history_def events_history_def)
next
  case (Signalling res)
  with assms(1,4-6) show ?thesis
    by (auto simp: main_step_def Let_def frames_history_def tracker_history_def events_history_def drop_sender_def)
next
  case (JoiningCapture res)
  with assms(1,4-6) show ?thesis
    by (auto simp: main_step_def Let_def frames_history_def tracker_history_def events_history_def split: if_splits)
next
  case (JoiningTracker res)
  with assms(1,4-6) show ?thesis
    by (auto simp: main_step_def Let_def frames_history_def tracker_history_def events_history_def end_defs
        drop_receiver_def split: if_splits)
qed (use assms in \<open>auto simp: main_step_def Let_def frames_history_def tracker_history_def events_history_def
      sys_control_def end_defs drop_sender_def drop_receiver_def clone_sender_def split: option.splits\<close>)

text \<open>Everything that holds of every reachable system.\<close>

definition sys_ok :: "('i, 'h, 'r) Setting \<Rightarrow> 'r \<Rightarrow> ('h, 'r) System \<Rightarrow> bool" where
  "sys_ok g r s \<longleftrightarrow> sys_control s \<and> main_history g s \<and> frames_history s \<and> tracker_history g r s
     \<and> events_history s"

lemma init_ok: "sys_ok g r (sys_init r)"
  by (simp add: sys_ok_def init_control)
    (simp add: sys_init_def main_history_def frames_history_def tracker_history_def events_history_def
      channel_def term_off_def Let_def)

lemma step_ok: "sys_step g s s' \<Longrightarrow> sys_ok g r s \<Longrightarrow> sys_ok g r s'"
  unfolding sys_ok_def
  by (elim sys_stepE)
    (blast intro: capture_control capture_main_history capture_history
      tracker_control tracker_main_history tracker_keeps_history
      main_control main_keeps_history main_histories
      dest: capture_history tracker_keeps_history main_histories)+

lemma reachable_sys_ok: "sys_reachable g r s \<Longrightarrow> sys_ok g r s"
  by (induction rule: sys_reachable.induct) (blast intro: init_ok step_ok)+

section \<open>A way for the interface to catch up\<close>

text \<open>From every state inside the event loop, some schedule leads to one where it is about to draw
  everything the tracker has done: the tracker sends, then the loop drains.\<close>

lemma sending_done:
  assumes "sys_tracker s = TrackerSending evs" and "ch_receiver (sys_events s)"
  shows "\<exists>s'. (sys_step g)\<^sup>*\<^sup>* s s' \<and> sys_tracker s' = TrackerReceiving \<and> sys_main s' = sys_main s
    \<and> sys_turns s' = sys_turns s \<and> sys_connections s' = sys_connections s"
  using assms
proof (induction evs arbitrary: s)
  case Nil
  then have "tracker_step g now s = Some (s\<lparr>sys_tracker := TrackerReceiving\<rparr>)" for now
    by (simp add: tracker_step_def)
  then have "sys_step g s (s\<lparr>sys_tracker := TrackerReceiving\<rparr>)" by (rule tracker_moves)
  then show ?case by (intro exI [of _ "s\<lparr>sys_tracker := TrackerReceiving\<rparr>"]) auto
next
  case (Cons e es)
  let ?s1 = "s\<lparr>sys_tracker := TrackerSending es,
    sys_events := (sys_events s)\<lparr>ch_queue := ch_queue (sys_events s) @ [e]\<rparr>,
    sys_events_sent := sys_events_sent s @ [e]\<rparr>"
  have "tracker_step g now s = Some ?s1" for now
    using Cons.prems by (simp add: tracker_step_def send_def)
  then have 1: "sys_step g s ?s1" by (rule tracker_moves)
  obtain s' where "(sys_step g)\<^sup>*\<^sup>* ?s1 s'" "sys_tracker s' = TrackerReceiving" "sys_main s' = sys_main s"
    "sys_turns s' = sys_turns s" "sys_connections s' = sys_connections s"
    using Cons.IH [of ?s1] Cons.prems(2) by auto
  with 1 show ?case by (meson converse_rtranclp_into_rtranclp)
qed

lemma draining_done:
  assumes "ch_queue (sys_events s) = evs" and "sys_main s = Draining app" and "app_ok app"
  shows "\<exists>s' app'. (sys_step g)\<^sup>*\<^sup>* s s' \<and> sys_main s' = Drawing app' \<and> ch_queue (sys_events s') = []
    \<and> sys_tracker s' = sys_tracker s \<and> sys_turns s' = sys_turns s \<and> sys_connections s' = sys_connections s"
  using assms
proof (induction evs arbitrary: s app)
  case Nil
  then have "main_step g turn s = Some (s\<lparr>sys_main := Drawing app\<rparr>)" for turn
    by (simp add: main_step_def receive_def)
  then have "sys_step g s (s\<lparr>sys_main := Drawing app\<rparr>)" by (rule main_moves)
  with Nil show ?case by (intro exI [of _ "s\<lparr>sys_main := Drawing app\<rparr>"]) auto
next
  case (Cons e es)
  obtain app1 where app1: "handle_ui_event e app = Some app1" "app_ok app1"
    using handle_ui_event_ok [OF Cons.prems(3)] by blast
  let ?s1 = "s\<lparr>sys_events := (sys_events s)\<lparr>ch_queue := es\<rparr>, sys_drained := sys_drained s @ [e],
    sys_main := Draining app1\<rparr>"
  have "main_step g turn s = Some ?s1" for turn
    using Cons.prems app1 by (simp add: main_step_def receive_def)
  then have 1: "sys_step g s ?s1" by (rule main_moves)
  obtain s' app' where "(sys_step g)\<^sup>*\<^sup>* ?s1 s'" "sys_main s' = Drawing app'" "ch_queue (sys_events s') = []"
    "sys_tracker s' = sys_tracker s" "sys_turns s' = sys_turns s" "sys_connections s' = sys_connections s"
    using Cons.IH [of ?s1 app1] app1(2) by auto
  with 1 show ?case by (meson converse_rtranclp_into_rtranclp)
qed

lemma reachable_steps: "(sys_step g)\<^sup>*\<^sup>* s s' \<Longrightarrow> sys_reachable g r s \<Longrightarrow> sys_reachable g r s'"
proof (induction rule: rtranclp_induct)
  case (step s1 s2)
  show ?case by (rule sys_next [OF step.IH [OF step.prems] step.hyps(2)])
qed

lemma draining_ok:
  assumes "sys_reachable g r s" and "sys_main s = Draining app"
  shows "app_ok app"
proof -
  have "looped (sys_turns s) (sys_drained s) app"
    using reachable_sys_ok [OF assms(1)] assms(2) by (simp add: sys_ok_def main_history_def)
  then show ?thesis by (rule looped_ok)
qed

lemma can_catch_up:
  assumes "sys_reachable g r s" and "sys_main s = Draining app" and "sys_tracker s = TrackerSending evs"
  shows "\<exists>s' app'. sys_reachable g r s' \<and> sys_main s' = Drawing app' \<and> sys_tracker s' = TrackerReceiving
    \<and> ch_queue (sys_events s') = [] \<and> sys_turns s' = sys_turns s \<and> sys_connections s' = sys_connections s"
proof -
  have "ch_receiver (sys_events s)"
    using control_events [OF reachable_control [OF assms(1)]] assms(2) by simp
  then obtain s1 where 1: "(sys_step g)\<^sup>*\<^sup>* s s1" "sys_tracker s1 = TrackerReceiving" "sys_main s1 = Draining app"
    "sys_turns s1 = sys_turns s" "sys_connections s1 = sys_connections s"
    using sending_done [OF assms(3)] assms(2) by fastforce
  obtain s' app' where 2: "(sys_step g)\<^sup>*\<^sup>* s1 s'" "sys_main s' = Drawing app'" "ch_queue (sys_events s') = []"
    "sys_tracker s' = sys_tracker s1" "sys_turns s' = sys_turns s1" "sys_connections s' = sys_connections s1"
    using draining_done [OF refl 1(3) draining_ok [OF assms(1,2)]] by blast
  have "sys_reachable g r s'"
    by (rule reachable_steps [OF 2(1) reachable_steps [OF 1(1) assms(1)]])
  with 1 2 show ?thesis by auto
qed

section \<open>A sample run\<close>

text \<open>A schedule, and the system it leads to.\<close>

datatype ThreadMove = CaptureMoves | TrackerMoves u64 | MainMoves UiTurn

fun run_moves :: "('i, 'h, 'r) Setting \<Rightarrow> ThreadMove list \<Rightarrow> ('h, 'r) System \<Rightarrow> ('h, 'r) System option" where
  "run_moves g [] s = Some s"
| "run_moves g (m # ms) s =
     Option.bind (case m of
         CaptureMoves \<Rightarrow> capture_step g s
       | TrackerMoves now \<Rightarrow> tracker_step g now s
       | MainMoves turn \<Rightarrow> main_step g turn s) (run_moves g ms)"

lemma run_moves_reachable:
  "run_moves g ms s = Some s' \<Longrightarrow> sys_reachable g r s \<Longrightarrow> sys_reachable g r s'"
proof (induction ms arbitrary: s)
  case (Cons m ms)
  then obtain s1 where 1: "run_moves g ms s1 = Some s'" "sys_step g s s1"
    by (cases m) (auto simp: bind_eq_Some_conv intro: sys_step.intros)
  show ?case by (rule Cons.IH [OF 1(1) sys_next [OF Cons.prems(2) 1(2)]])
qed simp

text \<open>One frame arrives; the user presses a key.\<close>

definition one_packet :: "(unit, nat) pcap" where
  "one_packet = \<lparr>pcap_list = Inr [], pcap_lookup = Inr (Some ''eth0''), pcap_from_device = (\<lambda>_. Inr ()),
     pcap_open = (\<lambda>_ _ _ _ _. Inr 0), pcap_filter = (\<lambda>h _. Inr h),
     pcap_next = (\<lambda>h. if h = 0 then (Packet 0 0 [22, 3, 1], 1) else (TimeoutExpired, h))\<rparr>"

definition key_turn :: "char \<Rightarrow> UiTurn" where
  "key_turn c = \<lparr>pending_events = [], draw_error = None, poll_result = Inr True,
     read_result = Inr (KeyPress (KeyChar c))\<rparr>"

definition sample_setting :: "'r OriginResolver \<Rightarrow> (unit, nat, 'r) Setting" where
  "sample_setting resolve = \<lparr>set_pcap = one_packet, set_ethernet = sample_ethernet, set_tls = sample_parser,
     set_resolve = resolve, set_args = plain_args, set_world = quit_at_once\<rparr>"

definition sample_frame :: Frame where
  "sample_frame = \<lparr>timestamp_secs = 0, timestamp_usecs = 0, frame_bytes = [22, 3, 1]\<rparr>"

text \<open>The system once the frame is in the channel and the event loop has begun.\<close>

definition sample_ready :: "'r \<Rightarrow> (nat, 'r) System" where
  "sample_ready r = (sys_init r)\<lparr>sys_capture := CaptureChecking 1, sys_tracker := TrackerReceiving,
     sys_main := Draining app_new, sys_frames := channel\<lparr>ch_queue := [sample_frame]\<rparr>,
     sys_events := clone_sender channel, sys_term := term_on, sys_frames_sent := [sample_frame]\<rparr>"

definition ready_moves :: "ThreadMove list" where
  "ready_moves = replicate 5 (MainMoves (key_turn CHR ''e'')) @ replicate 4 CaptureMoves"

lemma ready_run:
  assumes "set_pcap g = one_packet" and "set_args g = plain_args" and "set_world g = quit_at_once"
  shows "run_moves g ready_moves (sys_init r) = Some (sample_ready r)"
proof -
  have five: "replicate 5 m = [m, m, m, m, m]" and four: "replicate 4 m = [m, m, m, m]" for m :: ThreadMove
    by (simp_all add: numeral_eq_Suc)
  show ?thesis
    by (simp add: assms ready_moves_def five four main_step_def capture_step_def sys_init_def
        sample_ready_def quit_at_once_def plain_args_def one_packet_def source_open_default_def source_open_def
        next_frame_def sample_frame_def u64_or_zero_def u32_or_zero_def send_def channel_def clone_sender_def
        term_on_def Let_def)
qed

lemma ready_reachable: "sys_reachable (sample_setting resolve) r (sample_ready r)"
  by (rule run_moves_reachable [OF ready_run sys_start]) (simp_all add: sample_setting_def)

lemma ready_fields [simp]:
  "sys_tracker (sample_ready r) = TrackerReceiving" "sys_main (sample_ready r) = Draining app_new"
  "ch_queue (sys_frames (sample_ready r)) = [sample_frame]" "sys_turns (sample_ready r) = []"
  "ch_queue (sys_events (sample_ready r)) = []" "sys_connections (sample_ready r) = tracker_new r"
  by (simp_all add: sample_ready_def sys_init_def channel_def clone_sender_def)

lemma sample_segment:
  "extract_tcp sample_ethernet (frame_bytes sample_frame) = Some \<lparr>src_ip = V4 1, dst_ip = V4 2,
     src_port = 50000, dst_port = 443, seg_payload = [22, 3, 1]\<rparr>"
  by (simp add: extract_tcp_def sample_ethernet_def sample_frame_def)

text \<open>The frame is handled and the update shown.\<close>

lemma sample_shown:
  "\<exists>s app conn. sys_reachable (sample_setting NullOriginResolver_resolve) () s \<and> sys_main s = Drawing app
     \<and> sys_tracker s = TrackerReceiving \<and> ch_queue (sys_events s) = [] \<and> sys_turns s = []
     \<and> hm_get (connections (sys_connections s)) (canonical (V4 1) 50000 (V4 2) 443) = Some conn"
proof -
  let ?g = "sample_setting NullOriginResolver_resolve" and ?s = "sample_ready ()"
  have g: "set_ethernet ?g = sample_ethernet" "set_tls ?g = sample_parser"
    "set_resolve ?g = NullOriginResolver_resolve"
    by (simp_all add: sample_setting_def)
  obtain evs t where run: "handle_frame sample_ethernet sample_parser NullOriginResolver_resolve 7 sample_frame
      (tracker_new ()) = Some (evs, t)"
    using frame_total [OF consuming_sample_parser null_answers.returning] by blast
  obtain conn where conn: "hm_get (connections t) (canonical (V4 1) 50000 (V4 2) 443) = Some conn"
    using frame_tracks [OF run tracker_ok_new sample_segment] by auto
  let ?s1 = "?s\<lparr>sys_tracker := TrackerSending evs, sys_frames := (sys_frames ?s)\<lparr>ch_queue := []\<rparr>,
    sys_connections := t, sys_handled := sys_handled ?s @ [(sample_frame, 7)]\<rparr>"
  have "tracker_step ?g 7 ?s = Some ?s1"
    using run by (simp add: tracker_step_def receive_def g)
  then have r1: "sys_reachable ?g () ?s1"
    by (intro sys_next [OF ready_reachable] tracker_moves)
  have "sys_main ?s1 = Draining app_new" "sys_tracker ?s1 = TrackerSending evs" by simp_all
  from can_catch_up [OF r1 this] conn show ?thesis by fastforce
qed

text \<open>The user quits before a frame has come: the threads see the flag and end.\<close>

definition quit_moves :: "ThreadMove list" where
  "quit_moves = [MainMoves (key_turn CHR ''q''), MainMoves (key_turn CHR ''q''), MainMoves (key_turn CHR ''q''),
     MainMoves (key_turn CHR ''q''), MainMoves (key_turn CHR ''q''), CaptureMoves,
     MainMoves (key_turn CHR ''q''), MainMoves (key_turn CHR ''q''), MainMoves (key_turn CHR ''q''),
     MainMoves (key_turn CHR ''q'')]"

definition quit_state :: "'r \<Rightarrow> (nat, 'r) System" where
  "quit_state r = (sys_init r)\<lparr>sys_capture := CaptureChecking 0, sys_tracker := TrackerReceiving,
     sys_main := JoiningCapture (Inr ()), sys_events := drop_sender (clone_sender channel), sys_shutdown := True,
     sys_turns := [key_turn CHR ''q'']\<rparr>"

lemma quit_turn: "run_event_loop [key_turn CHR ''q''] app = Some (Returned (Inr ()) app)"
  by (simp add: run_event_loop.simps key_turn_def loop_turn_def)

lemma quit_steps: "run_moves (sample_setting resolve) quit_moves (sys_init r) = Some (quit_state r)"
  using quit_turn [of app_new] unfolding key_turn_def
  by (simp add: quit_moves_def key_turn_def main_step_def capture_step_def sample_setting_def sys_init_def
      quit_state_def quit_at_once_def plain_args_def one_packet_def source_open_default_def source_open_def
      receive_def channel_def clone_sender_def drop_sender_def teardown_def term_on_def Let_def)

lemma quit_reachable: "sys_reachable (sample_setting resolve) r (quit_state r)"
  by (rule run_moves_reachable [OF quit_steps sys_start])

text \<open>Schedules exist from every state.\<close>

lemma schedule_from: "\<exists>sched. schedule g sched \<and> sched 0 = s"
proof -
  let ?next = "\<lambda>s s'. sys_step g s s' \<or> (\<forall>s'. \<not> sys_step g s s') \<and> s' = s"
  have "\<exists>f. \<forall>n. (n = 0 \<longrightarrow> f n = s) \<and> ?next (f n) (f (Suc n))"
    by (rule dependent_nat_choice) auto
  then show ?thesis by (auto simp: schedule_def)
qed

section \<open>Properties\<close>

lemma world_turns: "live_ending (w\<lparr>ui_turns := ts\<rparr>) ended = live_ending w ended"
  by (simp add: live_ending_def Let_def teardown_def split: option.split LoopEnd.split sum.split)

lemma returned_is_live:
  assumes "sys_ok g r s" and "sys_main s = MainReturned res"
  shows "\<exists>o1. run_live (set_pcap g) ((set_world g)\<lparr>ui_turns := sys_turns s\<rparr>) (set_args g) = Some o1
    \<and> live_result o1 = Some res \<and> live_term o1 = sys_term s \<and> live_joined o1 = sys_shutdown s"
proof -
  obtain ended where e: "run_event_loop (sys_turns s) app_new = Some ended"
    "live_ending (set_world g) ended = (Some res, sys_term s, sys_shutdown s)"
    using assms by (auto simp: sys_ok_def main_history_def)
  obtain ended' log where "run_event_loop (sys_turns s) app_new = Some ended'"
    "run_live (set_pcap g) ((set_world g)\<lparr>ui_turns := sys_turns s\<rparr>) (set_args g)
      = Some (case live_ending (set_world g) ended' of (res, term, joined) \<Rightarrow>
        \<lparr>live_result = res, live_term = term, live_joined = joined, live_log = log\<rparr>)"
    using run_live_ending [of "(set_world g)\<lparr>ui_turns := sys_turns s\<rparr>" "set_pcap g" "set_args g"]
    by (auto simp: world_turns)
  with e show ?thesis by simp
qed

text \<open>
  C6. The threads do what the sequential functions say, under every schedule. When the program has
  got as far as the system \<open>s\<close>, the tracker has exactly the connections \<open>tracker_thread\<close> gives for
  the frames handled so far, which are the first frames that were captured, in order; until
  \<open>run_live\<close> returns, the updates of that run are, in order and each once, those the event loop
  has taken, those in the channel and those not yet sent; and if it has returned, result and
  terminal are those of the function \<open>run_live\<close> on the turns the event loop has had.
\<close>

theorem threads_refine:
  assumes "sys_reachable g r s"
  shows "\<exists>evs. tracker_thread (set_ethernet g) (set_tls g) (set_resolve g) (sys_handled s) (tracker_new r)
        = Some (evs, sys_connections s)
    \<and> (\<exists>later. sys_frames_sent s = map fst (sys_handled s) @ later)
    \<and> (case sys_main s of
         MainReturned res \<Rightarrow> \<exists>o1. run_live (set_pcap g) ((set_world g)\<lparr>ui_turns := sys_turns s\<rparr>) (set_args g)
             = Some o1 \<and> live_result o1 = Some res \<and> live_term o1 = sys_term s
       | _ \<Rightarrow> evs = concat (map pending_events (sys_turns s)) @ sys_drained s
             @ ch_queue (sys_events s) @ to_send (sys_tracker s))"
proof -
  have ok: "sys_ok g r s" by (rule reachable_sys_ok [OF assms])
  obtain evs where evs: "tracker_thread (set_ethernet g) (set_tls g) (set_resolve g) (sys_handled s)
      (tracker_new r) = Some (evs, sys_connections s)"
    "\<not> returned (sys_main s) \<Longrightarrow> evs = sys_events_sent s @ to_send (sys_tracker s)"
    using ok by (auto simp: sys_ok_def tracker_history_def)
  have sent: "\<not> returned (sys_main s) \<Longrightarrow> sys_events_sent s
      = concat (map pending_events (sys_turns s)) @ sys_drained s @ ch_queue (sys_events s)"
    using ok by (simp add: sys_ok_def events_history_def)
  have "\<exists>later. sys_frames_sent s = map fst (sys_handled s) @ later"
    using ok by (auto simp: sys_ok_def frames_history_def)
  with evs sent returned_is_live [OF ok] show ?thesis
    by (intro exI [of _ evs]) (auto split: MainPc.split)
qed

theorem threads_refine_witness:
  "\<exists>evs. tracker_thread sample_ethernet sample_parser NullOriginResolver_resolve (sys_handled (sample_ready ()))
      (tracker_new ()) = Some (evs, tracker_new ())
    \<and> (\<exists>later. [sample_frame] = map fst (sys_handled (sample_ready ())) @ later)"
  using threads_refine [OF ready_reachable, of NullOriginResolver_resolve "()"]
  by (auto simp: sample_setting_def) (auto simp: sample_ready_def)

lemma quiet_store:
  assumes "looped turns drained app" and "list_all quiet turns"
  shows "app_ok app \<and> app_connections app
    = foldl store_event (app_connections app_new) (concat (map pending_events turns) @ drained)"
proof -
  from assms(1) obtain app0 where 0: "run_event_loop turns app_new = Some (StillRunning app0)" "app_ok app0"
    "fold_exec (\<lambda>app evt. handle_ui_event evt app) app0 drained = Some app"
    by (auto simp: looped_def)
  with quiet_loop [OF app_ok_new assms(2)] events_store [OF 0(2,3)] looped_ok [OF assms(1)]
  show ?thesis by simp
qed

lemma caught_up_shows:
  assumes "tracker_thread eth tp resolve handled (tracker_new r) = Some (evs, t)"
    and "looped turns drained app" and "list_all quiet turns"
    and "evs = concat (map pending_events turns) @ drained"
    and "hm_get (connections t) key = Some conn"
  shows "tc_state conn \<in> set (shown_connections app) \<and> cs_key (tc_state conn) = key"
proof -
  have "up_to_date (tracker_new r) app_new"
    by (simp add: up_to_date_def tracker_new_def with_stale_timeout_def hm.get_empty)
  then obtain app' where app': "fold_exec (\<lambda>app evt. handle_ui_event evt app) app_new evs = Some app'"
    "up_to_date t app'"
    using thread_shown [OF assms(1) tracker_ok_new _ app_ok_new] by blast
  note store = quiet_store [OF assms(2,3)]
  have "app_connections app = app_connections app'"
    using events_store [OF app_ok_new app'(1)] store assms(4) by simp
  with app'(2) have "up_to_date t app" by (simp add: up_to_date_def)
  with store assms(5) show ?thesis using up_to_date_shown by blast
qed

text \<open>
  C7. The interface catches up, whatever the schedule: whenever the event loop is about to draw, the
  channel of the updates is empty and the tracker waits for a frame, every connection the
  tracker holds is shown in its latest state, unless the user has wiped the list before.
\<close>

theorem interface_catches_up:
  assumes "sys_reachable g r s" and "sys_main s = Drawing app" and "list_all quiet (sys_turns s)"
    and "ch_queue (sys_events s) = []" and "sys_tracker s = TrackerReceiving"
    and "hm_get (connections (sys_connections s)) key = Some conn"
  shows "tc_state conn \<in> set (shown_connections app) \<and> cs_key (tc_state conn) = key"
proof -
  have ok: "sys_ok g r s" by (rule reachable_sys_ok [OF assms(1)])
  obtain evs where evs: "tracker_thread (set_ethernet g) (set_tls g) (set_resolve g) (sys_handled s)
      (tracker_new r) = Some (evs, sys_connections s)"
    "evs = concat (map pending_events (sys_turns s)) @ sys_drained s"
    using ok assms(2,4,5) by (auto simp: sys_ok_def tracker_history_def events_history_def)
  have "looped (sys_turns s) (sys_drained s) app"
    using ok assms(2) by (simp add: sys_ok_def main_history_def)
  then show ?thesis using caught_up_shows [OF evs(1) _ assms(3) evs(2) assms(6)] by blast
qed

theorem interface_catches_up_witness:
  "\<exists>s app conn. sys_reachable (sample_setting NullOriginResolver_resolve) () s \<and> sys_main s = Drawing app
    \<and> hm_get (connections (sys_connections s)) (canonical (V4 1) 50000 (V4 2) 443) = Some conn
    \<and> tc_state conn \<in> set (shown_connections app)"
proof -
  obtain s app conn where s: "sys_reachable (sample_setting NullOriginResolver_resolve) () s"
    "sys_main s = Drawing app" "sys_tracker s = TrackerReceiving" "ch_queue (sys_events s) = []" "sys_turns s = []"
    and conn: "hm_get (connections (sys_connections s)) (canonical (V4 1) 50000 (V4 2) 443) = Some conn"
    using sample_shown by blast
  have "list_all quiet (sys_turns s)" using s(5) by simp
  from interface_catches_up [OF s(1,2) this s(4,3) conn] s conn show ?thesis by blast
qed

text \<open>
  C8. Quitting ends the program: from the moment the shutdown flag is set, every schedule leads
  to the return of \<open>run_live\<close> with the result of the event loop, within as many steps as are
  counted by \<open>shutdown_work\<close>. No thread can keep the others from it and none is left waiting.
\<close>

theorem quit_returns:
  assumes "sys_reachable g r (sched 0)" and "sys_main (sched 0) = JoiningCapture res"
    and "schedule g sched"
  shows "sys_main (sched (shutdown_work (sched 0))) = MainReturned (live_outcome res)"
proof -
  have c: "sys_control (sched 0)" by (rule reachable_control [OF assms(1)])
  with assms(2) have "leaving res (sched 0)" by (simp add: leaving_def sys_control_def)
  with leaving_returns [OF assms(3) c] show ?thesis by simp
qed

theorem quit_returns_witness:
  "\<exists>sched. schedule (sample_setting NullOriginResolver_resolve) sched \<and> sched 0 = quit_state ()
    \<and> sys_main (sched (shutdown_work (quit_state ()))) = MainReturned (live_outcome (Inr ()))"
proof -
  obtain sched where sched: "schedule (sample_setting NullOriginResolver_resolve) sched" "sched 0 = quit_state ()"
    using schedule_from by blast
  have "sys_reachable (sample_setting NullOriginResolver_resolve) () (sched 0)"
    "sys_main (sched 0) = JoiningCapture (Inr ())"
    using sched(2) quit_reachable by (simp_all add: quit_state_def)
  from quit_returns [OF this sched(1)] sched show ?thesis by metis
qed

text \<open>
  Nothing is lost on the way out: when \<open>run_live\<close> has returned through its last line and the
  tracker thread has not panicked, every frame that was captured has been handled, both channels
  are closed, and both threads are gone.
\<close>

theorem exit_handles_all:
  assumes "sys_reachable g r s" and "sys_main s = JoiningTracker res" and "sys_tracker s = TrackerEnded"
  shows "map fst (sys_handled s) = sys_frames_sent s \<and> sys_capture s = CaptureEnded
    \<and> ch_queue (sys_frames s) = [] \<and> ch_senders (sys_frames s) = 0"
proof -
  have ok: "sys_ok g r s" by (rule reachable_sys_ok [OF assms(1)])
  with assms(2,3) have "sys_capture s = CaptureEnded" "ch_senders (sys_frames s) = 0"
    "\<not> ch_receiver (sys_frames s)" "ch_queue (sys_frames s) = []"
    by (auto simp: sys_ok_def sys_control_def)
  with ok assms(2,3) show ?thesis by (auto simp: sys_ok_def frames_history_def)
qed

theorem exit_handles_all_witness:
  "\<exists>s. sys_reachable (sample_setting NullOriginResolver_resolve) () s \<and> sys_main s = JoiningTracker (Inr ())
    \<and> map fst (sys_handled s) = sys_frames_sent s"
proof -
  let ?g = "sample_setting NullOriginResolver_resolve"
  obtain s where run: "run_moves ?g [CaptureMoves, MainMoves (key_turn CHR ''e''), TrackerMoves 7] (quit_state ())
      = Some s" and s: "sys_main s = JoiningTracker (Inr ())" "sys_tracker s = TrackerEnded"
    by (simp add: quit_state_def sys_init_def capture_step_def main_step_def tracker_step_def receive_def end_defs
        channel_defs)
  have "sys_reachable ?g () s" by (rule run_moves_reachable [OF run quit_reachable])
  with exit_handles_all [OF this s] s(1) show ?thesis by blast
qed

lemma leaving_path:
  "sys_control s \<Longrightarrow> leaving res s \<Longrightarrow> shutdown_work s = n \<Longrightarrow>
     \<exists>s'. (sys_step g)\<^sup>*\<^sup>* s s' \<and> sys_main s' = MainReturned (live_outcome res)"
proof (induction n arbitrary: s rule: less_induct)
  case (less n)
  show ?case
  proof (cases "joining (sys_main s)")
    case True
    then obtain s1 where 1: "sys_step g s s1" using joining_moves_on less.prems(1) by blast
    with step_shuts_down [OF 1 less.prems(2)] step_control [OF 1 less.prems(1)] less.prems(3)
    obtain s2 where "(sys_step g)\<^sup>*\<^sup>* s1 s2" "sys_main s2 = MainReturned (live_outcome res)"
      using less.IH by blast
    with 1 show ?thesis by (meson converse_rtranclp_into_rtranclp)
  next
    case False
    with less.prems(2) have "sys_main s = MainReturned (live_outcome res)" by (auto simp: leaving_def)
    then show ?thesis by blast
  qed
qed

text \<open>The tracker thread ends on its own only after the capture thread.\<close>

definition ends_in_order :: "('h, 'r) System \<Rightarrow> bool" where
  "ends_in_order s \<longleftrightarrow>
     (sys_tracker s = TrackerEnded \<and> \<not> returned (sys_main s) \<longrightarrow> sys_capture s = CaptureEnded)"

lemma main_step_frame:
  assumes "main_step g turn s = Some s'"
  shows "(sys_tracker s \<noteq> TrackerUnspawned \<longrightarrow> sys_main s \<noteq> SpawningTracker \<longrightarrow> sys_tracker s' = sys_tracker s)
    \<and> (sys_main s \<noteq> SpawningCapture \<longrightarrow> sys_capture s' = sys_capture s)
    \<and> sys_events_sent s' = sys_events_sent s \<and> sys_frames_sent s' = sys_frames_sent s
    \<and> sys_connections s' = sys_connections s \<and> \<not> returned (sys_main s)"
proof (cases "sys_main s")
  case (Draining app)
  from assms Draining show ?thesis by (cases rule: drain_stepE) (simp_all add: Draining)
next
  case (Drawing app)
  from assms Drawing show ?thesis by (cases rule: draw_stepE) (simp add: Drawing)
qed (use assms in \<open>auto simp: main_step_def Let_def end_defs split: option.splits if_splits\<close>)

lemma step_in_order:
  assumes "sys_step g s s'" and "sys_control s" and "ends_in_order s"
  shows "ends_in_order s'"
  using assms(1)
proof (cases rule: sys_step.cases)
  case capture_moves
  then show ?thesis
    by (cases rule: capture_stepE) (use assms(3) in \<open>auto simp: ends_in_order_def end_defs\<close>)
next
  case (tracker_moves now)
  then show ?thesis
  proof (cases rule: tracker_stepE)
    case ends
    have "sys_capture s = CaptureEnded \<or> returned (sys_main s)"
      by (rule control_senders [OF assms(2) ends(3)])
    then show ?thesis by (auto simp: ends_in_order_def end_defs ends(4))
  next
    case hangs_up
    have "returned (sys_main s)" using control_events [OF assms(2)] hangs_up(2) by simp
    then show ?thesis by (simp add: ends_in_order_def end_defs hangs_up(3))
  qed (auto simp: ends_in_order_def end_defs)
next
  case (main_moves turn)
  note frame = main_step_frame [OF main_moves]
  show ?thesis
  proof (cases "sys_main s = SpawningCapture \<or> sys_main s = SpawningTracker")
    case True
    have "sys_tracker s = TrackerUnspawned" using control_unspawned [OF assms(2)] True by blast
    with True main_moves have "sys_tracker s' \<noteq> TrackerEnded"
      by (elim disjE; cases "spawn_capture (set_world g)"; cases "spawn_tracker (set_world g)")
        (auto simp: main_step_def Let_def end_defs)
    then show ?thesis by (simp add: ends_in_order_def)
  next
    case False
    show ?thesis
    proof (cases "sys_tracker s = TrackerUnspawned")
      case True
      then have "\<not> in_session (sys_main s)" using control_spawned [OF assms(2)] by blast
      with False frame main_moves show ?thesis by (cases "sys_main s") (simp_all add: main_step_def Let_def)
    next
      case spawned: False
      with False frame assms(3) show ?thesis by (simp add: ends_in_order_def)
    qed
  qed
qed

lemma reachable_in_order: "sys_reachable g r s \<Longrightarrow> ends_in_order s"
proof (induction rule: sys_reachable.induct)
  case sys_start
  then show ?case by (simp add: ends_in_order_def sys_init_def)
next
  case (sys_next s s')
  show ?case by (rule step_in_order [OF sys_next(2) reachable_control [OF sys_next(1)] sys_next(3)])
qed

text \<open>
  The branches for a receiver that has hung up are dead as long as nothing panics: until
  \<open>run_live\<close> returns, no update of the tracker is refused, and no frame of the capture thread is
  refused unless the tracker thread has panicked.
\<close>

theorem sends_succeed:
  assumes "sys_reachable g r s" and "\<not> returned (sys_main s)"
  shows "send e (sys_events s) \<noteq> None
    \<and> (sys_capture s = CaptureSending frame h \<and> sys_tracker s \<noteq> TrackerPanicked \<longrightarrow>
         send frame (sys_frames s) \<noteq> None)"
proof -
  have ok: "sys_control s" by (rule reachable_control [OF assms(1)])
  then have "ch_receiver (sys_events s)" using control_events assms(2) by blast
  moreover have "ch_receiver (sys_frames s)"
    if "sys_capture s = CaptureSending frame h" "sys_tracker s \<noteq> TrackerPanicked"
  proof -
    have "sys_tracker s \<noteq> TrackerEnded"
      using reachable_in_order [OF assms(1)] that(1) assms(2) by (simp add: ends_in_order_def)
    with that(2) have "receiving (sys_tracker s) \<or> sys_tracker s = TrackerUnspawned"
      by (cases "sys_tracker s") simp_all
    with control_frames [OF ok] assms(2) show ?thesis by simp
  qed
  ultimately show ?thesis by (auto simp: send_def)
qed

theorem sends_succeed_witness:
  "\<not> returned (sys_main (sample_ready ())) \<and> send (StaleEvicted 1) (sys_events (sample_ready ())) \<noteq> None"
proof -
  have "\<not> returned (sys_main (sample_ready ()))" by simp
  with sends_succeed [OF ready_reachable this, of "StaleEvicted 1"] show ?thesis by blast
qed

lemma panic_step:
  assumes "sys_step g s s'" and "sys_control s" and "sys_tracker s = TrackerPanicked"
  shows "sys_control s' \<and> sys_tracker s' = TrackerPanicked \<and> sys_events_sent s' = sys_events_sent s
    \<and> sys_frames_sent s' = sys_frames_sent s \<and> sys_connections s' = sys_connections s"
  using assms(1)
proof (cases rule: sys_step.cases)
  case capture_moves
  have "\<not> ch_receiver (sys_frames s)" using control_frames [OF assms(2)] assms(3) by simp
  from capture_moves show ?thesis
    by (cases rule: capture_stepE)
      (use assms(3) capture_control [OF capture_moves assms(2)] \<open>\<not> ch_receiver (sys_frames s)\<close>
        in \<open>simp_all add: end_defs\<close>)
next
  case (tracker_moves now)
  with assms(3) show ?thesis by (simp add: tracker_step_def)
next
  case (main_moves turn)
  moreover have "sys_main s \<noteq> SpawningTracker" using control_unspawned [OF assms(2)] assms(3) by auto
  ultimately show ?thesis
    using main_step_frame [OF main_moves] assms(3) main_control [OF main_moves assms(2)] by simp
qed

text \<open>
  C29. A panic of the tracker thread is silent: from then on, under every schedule, no update and no
  frame is sent any more and the connections stay as they are, while the calling thread goes on as
  if the network had gone quiet; quitting then still succeeds with the result of the event loop.
\<close>

theorem tracker_panic_silences:
  assumes "sys_reachable g r s" and "sys_tracker s = TrackerPanicked" and "(sys_step g)\<^sup>*\<^sup>* s s'"
  shows "sys_tracker s' = TrackerPanicked \<and> sys_events_sent s' = sys_events_sent s
    \<and> sys_frames_sent s' = sys_frames_sent s \<and> sys_connections s' = sys_connections s
    \<and> (sys_main s' = JoiningCapture res \<longrightarrow>
         (\<exists>s2. (sys_step g)\<^sup>*\<^sup>* s' s2 \<and> sys_main s2 = MainReturned (live_outcome res)))"
proof -
  have "sys_control s' \<and> sys_tracker s' = TrackerPanicked \<and> sys_events_sent s' = sys_events_sent s
    \<and> sys_frames_sent s' = sys_frames_sent s \<and> sys_connections s' = sys_connections s"
    using assms(3)
  proof (induction rule: rtranclp_induct)
    case base
    then show ?case using assms(2) reachable_control [OF assms(1)] by simp
  next
    case (step s1 s2)
    then show ?case using panic_step [OF step(2)] by simp
  qed
  moreover have "\<exists>s2. (sys_step g)\<^sup>*\<^sup>* s' s2 \<and> sys_main s2 = MainReturned (live_outcome res)"
    if "sys_control s'" "sys_main s' = JoiningCapture res"
    using leaving_path [of s' res _ g] that by (simp add: leaving_def sys_control_def)
  ultimately show ?thesis by blast
qed

text \<open>A resolver that panics on the first question.\<close>

definition panicking_resolver :: "unit OriginResolver" where
  "panicking_resolver r a b = None"

theorem tracker_panic_silences_witness:
  "\<exists>s. sys_reachable (sample_setting panicking_resolver) () s \<and> sys_tracker s = TrackerPanicked
    \<and> sys_frames_sent s = [sample_frame] \<and> sys_handled s = []"
proof -
  let ?g = "sample_setting panicking_resolver" and ?s = "sample_ready ()"
  have "handle_frame (set_ethernet ?g) (set_tls ?g) (set_resolve ?g) 7 sample_frame (tracker_new ()) = None"
    by (simp add: handle_frame_def sample_setting_def sample_segment Let_def ingest_def ingest_entry_def
        tracker_new_def with_stale_timeout_def hm.get_empty panicking_resolver_def)
  then obtain s where "tracker_step ?g 7 ?s = Some s" and s: "sys_tracker s = TrackerPanicked"
    and sent: "sys_frames_sent s = [sample_frame]" "sys_handled s = []"
    by (simp add: tracker_step_def receive_def end_defs) (simp add: sample_ready_def sys_init_def)
  then have r: "sys_reachable ?g () s" by (intro sys_next [OF ready_reachable] tracker_moves)
  from tracker_panic_silences [OF r s rtranclp.rtrancl_refl] r sent show ?thesis by blast
qed

text \<open>With a resolver that returns, the tracker thread does not panic.\<close>

lemma never_panics:
  assumes "consuming (set_tls g)" and "returning (set_resolve g) good" and "good r"
    and "sys_reachable g r s"
  shows "sys_tracker s \<noteq> TrackerPanicked \<and> good (resolver (sys_connections s))"
  using assms(4)
proof (induction rule: sys_reachable.induct)
  case sys_start
  then show ?case using assms(3) by (simp add: sys_init_def tracker_new_def with_stale_timeout_def)
next
  case (sys_next s s')
  have total: "\<exists>evs t. handle_frame (set_ethernet g) (set_tls g) (set_resolve g) now frame (sys_connections s)
      = Some (evs, t) \<and> good (resolver t)" for now frame
    using frame_total [OF assms(1,2)] sys_next(3) by blast
  from sys_next(2) show ?case
  proof (cases rule: sys_step.cases)
    case capture_moves
    then show ?thesis by (cases rule: capture_stepE) (use sys_next(3) in \<open>simp_all add: end_defs\<close>)
  next
    case (tracker_moves now)
    then show ?thesis
    proof (cases rule: tracker_stepE)
      case (handles frame rest evs t)
      then show ?thesis using total [of now frame] by auto
    next
      case (panics frame rest)
      then show ?thesis using total [of now frame] by simp
    qed (use sys_next(3) in \<open>simp_all add: end_defs\<close>)
  next
    case (main_moves turn)
    note frame = main_step_frame [OF main_moves]
    show ?thesis
    proof (cases "sys_main s = SpawningTracker")
      case True
      with main_moves sys_next(3) show ?thesis
        by (cases "spawn_tracker (set_world g)") (auto simp: main_step_def Let_def end_defs)
    next
      case False
      have "sys_tracker s' \<noteq> TrackerPanicked"
      proof (cases "sys_tracker s = TrackerUnspawned")
        case True
        with main_moves False show ?thesis
          using control_spawned [OF reachable_control [OF sys_next(1)]]
          by (cases "sys_main s"; cases "spawn_capture (set_world g)")
            (auto simp: main_step_def Let_def end_defs)
      next
        case spawned: False
        with False frame sys_next(3) show ?thesis by simp
      qed
      with frame sys_next(3) show ?thesis by simp
    qed
  qed
qed

end
