(* ===== verification/Origin_Linux.thy ===== *)
theory Origin_Linux
  imports Origin Hash_Map Hex_Util
begin

text \<open>
  \<open>src/src/origin/linux.rs\<close>: attribution through \<open>/proc\<close>. What the file system answers is
  the argument \<open>fs\<close>, taken to be the same during one walk; a read that fails is \<open>None\<close>. The
  clock gives milliseconds. Text is UTF-8 bytes, as everywhere.
\<close>

definition CACHE_TTL_MS :: nat where
  "CACHE_TTL_MS = 500"

definition CMDLINE_MAX_LEN :: usize where
  "CMDLINE_MAX_LEN = 256"

record SocketRow =
  inode :: u64
  row_uid :: u32

record ProcRow =
  proc_pid :: u32
  proc_comm :: string
  proc_cmdline :: string
  proc_uid :: u32

type_synonym SocketTable = "(SocketAddr \<times> SocketAddr, SocketRow) hmap"
type_synonym ProcTable = "(u64, ProcRow) hmap"

record Snapshot =
  taken_at :: nat
  sockets :: SocketTable
  procs :: ProcTable

record LinuxProcResolver =
  cache :: "Snapshot option"
  ttl :: nat

text \<open>One directory below \<open>/proc\<close>: its name, the targets of \<open>fd/*\<close> and three files.\<close>

record PidDir =
  dir_name :: "string option"
  fd_links :: "string option option list option"
  comm_file :: "string option"
  cmdline_file :: "bytes option"
  status_file :: "string option"

record ProcFs =
  net_tcp :: "string option"
  net_tcp6 :: "string option"
  proc_dirs :: "PidDir list option"

definition LinuxProcResolver_new :: LinuxProcResolver where
  "LinuxProcResolver_new = \<lparr>cache = None, ttl = CACHE_TTL_MS\<rparr>"

section \<open>Text of the standard library\<close>

text \<open>\<open>str::lines\<close>: a carriage return before the newline is not part of the line.\<close>

definition strip_cr :: "string \<Rightarrow> string" where
  "strip_cr l = (if l \<noteq> [] \<and> last l = CHR 0x0D then butlast l else l)"

fun text_lines_from :: "string \<Rightarrow> string \<Rightarrow> string list" where
  "text_lines_from cur [] = (if cur = [] then [] else [cur])"
| "text_lines_from cur (c # cs) =
     (if c = CHR 0x0A then strip_cr cur # text_lines_from [] cs
      else text_lines_from (cur @ [c]) cs)"

definition text_lines :: "string \<Rightarrow> string list" where
  "text_lines s = text_lines_from [] s"

text \<open>\<open>str::split_ascii_whitespace\<close>\<close>

definition is_ascii_ws :: "char \<Rightarrow> bool" where
  "is_ascii_ws c \<longleftrightarrow> c \<in> {CHR 0x09, CHR 0x0A, CHR 0x0C, CHR 0x0D, CHR '' ''}"

fun words_from :: "string \<Rightarrow> string \<Rightarrow> string list" where
  "words_from cur [] = (if cur = [] then [] else [cur])"
| "words_from cur (c # cs) =
     (if is_ascii_ws c
      then (if cur = [] then words_from [] cs else cur # words_from [] cs)
      else words_from (cur @ [c]) cs)"

definition split_ascii_whitespace :: "string \<Rightarrow> string list" where
  "split_ascii_whitespace s = words_from [] s"

text \<open>\<open>str::split_once\<close> at a character.\<close>

fun split_once :: "char \<Rightarrow> string \<Rightarrow> (string \<times> string) option" where
  "split_once d [] = None"
| "split_once d (c # cs) =
     (if c = d then Some ([], cs)
      else map_option (\<lambda>(a, b). (c # a, b)) (split_once d cs))"

definition strip_prefix :: "string \<Rightarrow> string \<Rightarrow> string option" where
  "strip_prefix pre s = (if take (length pre) s = pre then Some (drop (length pre) s) else None)"

definition strip_suffix :: "string \<Rightarrow> string \<Rightarrow> string option" where
  "strip_suffix suf s =
     (if length suf \<le> length s \<and> drop (length s - length suf) s = suf
      then Some (take (length s - length suf) s) else None)"

text \<open>
  \<open>from_str_radix\<close> and \<open>parse\<close> of the unsigned types: an optional plus sign, then at least one
  digit of the radix, no overflow of the type with values below \<open>bound\<close>.
\<close>

definition digit_value :: "char \<Rightarrow> nat option" where
  "digit_value c =
     (let n = of_char c :: nat in
      if 48 \<le> n \<and> n \<le> 57 then Some (n - 48)
      else if 65 \<le> n \<and> n \<le> 70 then Some (n - 55)
      else if 97 \<le> n \<and> n \<le> 102 then Some (n - 87)
      else None)"

fun digits_value :: "nat \<Rightarrow> nat \<Rightarrow> nat \<Rightarrow> string \<Rightarrow> nat option" where
  "digits_value radix bound acc [] = Some acc"
| "digits_value radix bound acc (c # cs) =
     (case digit_value c of
        None \<Rightarrow> None
      | Some d \<Rightarrow>
          if d < radix \<and> acc * radix + d < bound
          then digits_value radix bound (acc * radix + d) cs else None)"

definition from_str_radix :: "nat \<Rightarrow> nat \<Rightarrow> string \<Rightarrow> nat option" where
  "from_str_radix radix bound s =
     (let ds = (case s of [] \<Rightarrow> [] | c # cs \<Rightarrow> if c = CHR ''+'' then cs else s)
      in if ds = [] then None else digits_value radix bound 0 ds)"

definition parse_u32 :: "string \<Rightarrow> u32 option" where
  "parse_u32 s = map_option word_of_nat (from_str_radix 10 (2 ^ 32) s)"

definition parse_u64 :: "string \<Rightarrow> u64 option" where
  "parse_u64 s = map_option word_of_nat (from_str_radix 10 (2 ^ 64) s)"

definition u16_from_hex :: "string \<Rightarrow> u16 option" where
  "u16_from_hex s = map_option word_of_nat (from_str_radix 16 (2 ^ 16) s)"

definition u32_from_hex :: "string \<Rightarrow> u32 option" where
  "u32_from_hex s = map_option word_of_nat (from_str_radix 16 (2 ^ 32) s)"

text \<open>\<open>str::trim\<close>: the encodings of the characters with the property \<open>White_Space\<close>.\<close>

definition white_space :: "string list" where
  "white_space = map (\<lambda>n. [char_of n]) [9 :: nat, 10, 11, 12, 13, 32]
     @ map (map char_of) ([[0xC2, 0x85], [0xC2, 0xA0], [0xE1, 0x9A, 0x80]] :: nat list list)
     @ map (\<lambda>n. map char_of [0xE2, 0x80, n]) ([0x80..<0x8B] @ [0xA8, 0xA9, 0xAF] :: nat list)
     @ map (map char_of) ([[0xE2, 0x81, 0x9F], [0xE3, 0x80, 0x80]] :: nat list list)"

function trim_front :: "string list \<Rightarrow> string \<Rightarrow> string" where
  "trim_front ws s =
     (case find (\<lambda>w. w \<noteq> [] \<and> take (length w) s = w) ws of
        None \<Rightarrow> s
      | Some w \<Rightarrow> trim_front ws (drop (length w) s))"
  by pat_completeness auto
termination
proof (relation "measure (length \<circ> snd)")
  fix ws :: "string list" and s w :: string
  assume "find (\<lambda>w. w \<noteq> [] \<and> take (length w) s = w) ws = Some w"
  then have "w \<noteq> []" "take (length w) s = w" by (auto simp: find_Some_iff)
  then have "0 < length w" "s \<noteq> []" by auto
  then show "((ws, drop (length w) s), ws, s) \<in> measure (length \<circ> snd)" by simp
qed simp

declare trim_front.simps [simp del]

definition trim :: "string \<Rightarrow> string" where
  "trim s = rev (trim_front (map rev white_space) (rev (trim_front white_space s)))"

section \<open>The socket table\<close>

text \<open>The address is written in host byte order: the bytes of the word, lowest first.\<close>

definition u32_to_le_bytes :: "u32 \<Rightarrow> bytes" where
  "u32_to_le_bytes v = rev (u32_to_be_bytes v)"

definition parse_ipv4_hex :: "string \<Rightarrow> u32 option" where
  "parse_ipv4_hex s =
     map_option (\<lambda>raw. case u32_to_le_bytes raw of
         [b0, b1, b2, b3] \<Rightarrow> u32_from_be_bytes b0 b1 b2 b3 | _ \<Rightarrow> 0)
       (u32_from_hex s)"

definition u128_from_be_bytes :: "bytes \<Rightarrow> 128 word" where
  "u128_from_be_bytes bs = foldl (\<lambda>v b. 256 * v + ucast b) 0 bs"

text \<open>\<open>chunks_exact\<close>\<close>

definition chunks_exact :: "nat \<Rightarrow> 'a list \<Rightarrow> 'a list list" where
  "chunks_exact n xs = filter (\<lambda>c. length c = n) (chunks n xs)"

text \<open>
  The loop over the words of an IPv6 address, with the slice of the array that panics past
  its 16 bytes. A chunk that is no UTF-8 is no hexadecimal number either.
\<close>

fun ipv6_words :: "nat \<Rightarrow> string list \<Rightarrow> bytes \<Rightarrow> bytes option exec" where
  "ipv6_words i [] bs = Some (Some bs)"
| "ipv6_words i (chunk # rest) bs =
     (case u32_from_hex chunk of
        None \<Rightarrow> Some None
      | Some w \<Rightarrow>
          if (i + 1) * 4 \<le> length bs
          then ipv6_words (i + 1) rest
                 (take (i * 4) bs @ u32_to_le_bytes w @ drop ((i + 1) * 4) bs)
          else None)"

definition parse_ipv6_hex :: "string \<Rightarrow> 128 word option exec" where
  "parse_ipv6_hex s =
     map_option (map_option u128_from_be_bytes) (ipv6_words 0 (chunks_exact 8 s) (replicate 16 0))"

definition parse_endpoint :: "string \<Rightarrow> SocketAddr option exec" where
  "parse_endpoint s =
     (case split_once CHR '':'' s of
        None \<Rightarrow> Some None
      | Some (addr_hex, port_hex) \<Rightarrow>
          (case u16_from_hex port_hex of
             None \<Rightarrow> Some None
           | Some port \<Rightarrow>
               if length addr_hex = 8
               then Some (map_option (\<lambda>ip. (V4 ip, port)) (parse_ipv4_hex addr_hex))
               else if length addr_hex = 32
               then map_option (map_option (\<lambda>ip. (V6 ip, port))) (parse_ipv6_hex addr_hex)
               else Some None))"

definition parse_socket_line ::
  "string \<Rightarrow> ((SocketAddr \<times> SocketAddr) \<times> SocketRow) option exec" where
  "parse_socket_line line =
     (case split_ascii_whitespace line of
        _ # local_hex # remote_hex # state # _ # _ # _ # uid_s # _ # inode_s # _ \<Rightarrow>
          if state \<noteq> ''01'' then Some None
          else ask_some (parse_endpoint local_hex) (\<lambda>local.
            ask_some (parse_endpoint remote_hex) (\<lambda>remote.
              ask_some (Some (parse_u32 uid_s)) (\<lambda>uid.
                ask_some (Some (parse_u64 inode_s)) (\<lambda>ino.
                  Some (Some ((local, remote), \<lparr>inode = ino, row_uid = uid\<rparr>))))))
      | _ \<Rightarrow> Some None)"

definition add_socket_line :: "SocketTable \<Rightarrow> string \<Rightarrow> SocketTable exec" where
  "add_socket_line out line =
     map_option (\<lambda>res. case res of None \<Rightarrow> out | Some (k, v) \<Rightarrow> hm_insert k v out)
       (parse_socket_line line)"

definition parse_socket_table :: "string \<Rightarrow> SocketTable \<Rightarrow> SocketTable exec" where
  "parse_socket_table s out = fold_exec add_socket_line out (drop 1 (text_lines s))"

definition read_sockets :: "ProcFs \<Rightarrow> SocketTable exec" where
  "read_sockets fs =
     fold_exec (\<lambda>out file. case file of None \<Rightarrow> Some out | Some s \<Rightarrow> parse_socket_table s out)
       hm_empty [net_tcp fs, net_tcp6 fs]"

section \<open>The process table\<close>

definition socket_inode_from_link :: "string option \<Rightarrow> u64 option" where
  "socket_inode_from_link target =
     Option.bind target (\<lambda>s.
       Option.bind (strip_prefix ''socket:['' s) (\<lambda>s.
         Option.bind (strip_suffix '']'' s) parse_u64))"

definition read_comm :: "PidDir \<Rightarrow> string" where
  "read_comm dir = (case comm_file dir of None \<Rightarrow> [] | Some s \<Rightarrow> trim s)"

text \<open>
  The command line is built with \<open>b as char\<close>: every byte is the scalar value of the same
  number, so a byte from 0x80 on takes two bytes of UTF-8. The string is the list of these
  values; its length in Rust is \<open>utf8_len\<close>, and \<open>truncate\<close> panics inside a character.
\<close>

definition latin1_width :: "u8 \<Rightarrow> nat" where
  "latin1_width c = (if c < 0x80 then 1 else 2)"

definition utf8_len :: "bytes \<Rightarrow> usize" where
  "utf8_len cs = sum_list (map latin1_width cs)"

definition latin1_utf8 :: "u8 \<Rightarrow> bytes" where
  "latin1_utf8 c =
     (if c < 0x80 then [c]
      else [word_of_nat (0xC0 + unat c div 64), word_of_nat (0x80 + unat c mod 64)])"

fun truncate_chars :: "nat \<Rightarrow> bytes \<Rightarrow> bytes exec" where
  "truncate_chars n [] = Some []"
| "truncate_chars n (c # cs) =
     (if n = 0 then Some []
      else if latin1_width c \<le> n
      then map_option ((#) c) (truncate_chars (n - latin1_width c) cs)
      else None)"

definition latin1_ws :: "u8 \<Rightarrow> bool" where
  "latin1_ws c \<longleftrightarrow> c \<in> {9, 10, 11, 12, 13, 32, 0x85, 0xA0}"

definition trim_end_chars :: "bytes \<Rightarrow> bytes" where
  "trim_end_chars cs = rev (dropWhile latin1_ws (rev cs))"

definition read_cmdline :: "PidDir \<Rightarrow> string exec" where
  "read_cmdline dir = do {
     let raw = (case cmdline_file dir of None \<Rightarrow> [] | Some bs \<Rightarrow> bs);
     let s = trim_end_chars (map (\<lambda>b. if b = 0 then 32 else b) raw);
     (if CMDLINE_MAX_LEN < utf8_len s
      then map_option (\<lambda>s. str_of (concat (map latin1_utf8 s)) @ ''...'') (truncate_chars CMDLINE_MAX_LEN s)
      else Some (str_of (concat (map latin1_utf8 s))))
   }"

text \<open>The first \<open>Uid:\<close> line decides, even when it cannot be read.\<close>

fun uid_of_lines :: "string list \<Rightarrow> u32 option" where
  "uid_of_lines [] = None"
| "uid_of_lines (line # rest) =
     (case strip_prefix ''Uid:'' line of
        Some s \<Rightarrow> (case split_ascii_whitespace s of [] \<Rightarrow> None | w # _ \<Rightarrow> parse_u32 w)
      | None \<Rightarrow> uid_of_lines rest)"

definition read_uid :: "PidDir \<Rightarrow> u32 option" where
  "read_uid dir = Option.bind (status_file dir) (\<lambda>s. uid_of_lines (text_lines s))"

text \<open>The inner loop of \<open>read_procs\<close>, over the descriptors of a process, then the outer one.\<close>

fun scan_fds ::
  "PidDir \<Rightarrow> u32 \<Rightarrow> string option option list \<Rightarrow> ProcTable \<Rightarrow> u64 list \<Rightarrow> (ProcTable \<times> u64 list) exec" where
  "scan_fds dir pid_n [] out wanted = Some (out, wanted)"
| "scan_fds dir pid_n (link # rest) out wanted =
     (case Option.bind link socket_inode_from_link of
        None \<Rightarrow> scan_fds dir pid_n rest out wanted
      | Some ino \<Rightarrow>
          if ino \<notin> set wanted then scan_fds dir pid_n rest out wanted
          else do {
            cmdline \<leftarrow> read_cmdline dir;
            let row = \<lparr>proc_pid = pid_n, proc_comm = read_comm dir, proc_cmdline = cmdline,
              proc_uid = (case read_uid dir of None \<Rightarrow> 0 | Some u \<Rightarrow> u)\<rparr>;
            let out = hm_insert ino row out;
            let wanted = removeAll ino wanted;
            (if wanted = [] then Some (out, wanted) else scan_fds dir pid_n rest out wanted)
          })"

fun scan_dirs :: "PidDir list \<Rightarrow> ProcTable \<Rightarrow> u64 list \<Rightarrow> ProcTable exec" where
  "scan_dirs [] out wanted = Some out"
| "scan_dirs (dir # rest) out wanted =
     (if wanted = [] then Some out
      else case Option.bind (dir_name dir) parse_u32 of
        None \<Rightarrow> scan_dirs rest out wanted
      | Some pid_n \<Rightarrow>
          (case fd_links dir of
             None \<Rightarrow> scan_dirs rest out wanted
           | Some fds \<Rightarrow> do {
               (out, wanted) \<leftarrow> scan_fds dir pid_n fds out wanted;
               scan_dirs rest out wanted
             }))"

definition read_procs :: "ProcFs \<Rightarrow> SocketTable \<Rightarrow> ProcTable exec" where
  "read_procs fs socks =
     (let wanted = remdups (map inode (hm_values socks))
      in case proc_dirs fs of
        None \<Rightarrow> Some hm_empty
      | Some dirs \<Rightarrow> scan_dirs dirs hm_empty wanted)"

section \<open>The resolver\<close>

text \<open>\<open>now\<close> is the clock when the age of the cache is read, \<open>taken\<close> when a walk is done.\<close>

definition snapshot ::
  "ProcFs \<Rightarrow> nat \<Rightarrow> nat \<Rightarrow> LinuxProcResolver \<Rightarrow> (Snapshot \<times> LinuxProcResolver) exec" where
  "snapshot fs now taken r =
     (case (case cache r of None \<Rightarrow> None
            | Some s \<Rightarrow> if ttl r \<le> now - taken_at s then None else Some s) of
        Some s \<Rightarrow> Some (s, r)
      | None \<Rightarrow> do {
          socks \<leftarrow> read_sockets fs;
          ps \<leftarrow> read_procs fs socks;
          let s = \<lparr>taken_at = taken, sockets = socks, procs = ps\<rparr>;
          Some (s, r\<lparr>cache := Some s\<rparr>)
        })"

definition origin_of :: "Snapshot \<Rightarrow> SocketAddr \<Rightarrow> SocketAddr \<Rightarrow> Origin" where
  "origin_of snap a b =
     (case (case hm_get (sockets snap) (a, b) of
              Some row \<Rightarrow> Some row | None \<Rightarrow> hm_get (sockets snap) (b, a)) of
        None \<Rightarrow> Origin.Unknown
      | Some row \<Rightarrow>
          (case hm_get (procs snap) (inode row) of
             Some p \<Rightarrow> Local \<lparr>pid = proc_pid p, comm = proc_comm p, cmdline = proc_cmdline p,
                              uid = proc_uid p\<rparr>
           | None \<Rightarrow> OtherUser (row_uid row)))"

definition LinuxProcResolver_resolve ::
  "ProcFs \<Rightarrow> nat \<Rightarrow> nat \<Rightarrow> LinuxProcResolver \<Rightarrow> SocketAddr \<Rightarrow> SocketAddr
     \<Rightarrow> (Origin \<times> LinuxProcResolver) exec" where
  "LinuxProcResolver_resolve fs now taken r a b =
     map_option (\<lambda>(snap, r). (origin_of snap a b, r)) (snapshot fs now taken r)"

section \<open>Reading what the kernel prints\<close>

text \<open>Numbers of a fixed number of hexadecimal digits, upper case, as \<open>%08X\<close> and \<open>%04X\<close> print them.\<close>

definition upper_digit :: "nat \<Rightarrow> char" where
  "upper_digit d = char_of (if d < 10 then 48 + d else 55 + d)"

fun hex_text :: "nat \<Rightarrow> nat \<Rightarrow> string" where
  "hex_text 0 n = []"
| "hex_text (Suc w) n = hex_text w (n div 16) @ [upper_digit (n mod 16)]"

lemma length_hex_text [simp]: "length (hex_text w n) = w"
  by (induction w arbitrary: n) simp_all

lemma digit_value_upper: "d < 16 \<Longrightarrow> digit_value (upper_digit d) = Some d"
  by (auto simp: digit_value_def upper_digit_def Let_def)

lemma digits_value_append:
  "digits_value r b acc (xs @ ys) = Option.bind (digits_value r b acc xs) (\<lambda>a. digits_value r b a ys)"
  by (induction xs arbitrary: acc) (auto split: option.split)

lemma hex_text_value:
  "n < 16 ^ w \<Longrightarrow> n < b \<Longrightarrow> digits_value 16 b 0 (hex_text w n) = Some n"
proof (induction w arbitrary: n)
  case (Suc w)
  have "n div 16 < 16 ^ w" "n div 16 < b"
    using Suc.prems by (auto simp: less_mult_imp_div_less mult.commute)
  with Suc.IH have "digits_value 16 b 0 (hex_text w (n div 16)) = Some (n div 16)" by blast
  then show ?case
    using Suc.prems(2) by (simp add: digits_value_append digit_value_upper div_mult_mod_eq)
qed simp

lemma from_str_radix_digits:
  "s \<noteq> [] \<Longrightarrow> CHR ''+'' \<notin> set s \<Longrightarrow> from_str_radix r b s = digits_value r b 0 s"
  by (cases s) (auto simp: from_str_radix_def)

lemma not_plus: "digit_value c = Some d \<Longrightarrow> c \<noteq> CHR ''+''"
  by (auto simp: digit_value_def)

lemma hex_text_no_plus: "CHR ''+'' \<notin> set (hex_text w n)"
  using not_plus [OF digit_value_upper] by (induction w arbitrary: n) (auto dest: sym)

lemma from_str_radix_hex:
  assumes "0 < w" and "n < 16 ^ w" and "n < b"
  shows "from_str_radix 16 b (hex_text w n) = Some n"
proof -
  have "hex_text w n \<noteq> []" using assms(1) length_hex_text [of w n] by force
  then show ?thesis
    using hex_text_value [OF assms(2,3)] by (simp add: from_str_radix_digits hex_text_no_plus)
qed

lemma digit_value_dec: "d < 10 \<Longrightarrow> digit_value (char_of (48 + d)) = Some d"
  by (auto simp: digit_value_def Let_def)

lemma dec_value: "n < b \<Longrightarrow> digits_value 10 b 0 (dec n) = Some n"
proof (induction n rule: dec.induct)
  case (1 n)
  show ?case
  proof (cases "n < 10")
    case True
    then show ?thesis using 1 digit_value_dec [of n] by (subst dec.simps) simp
  next
    case False
    with 1 have "digits_value 10 b 0 (dec (n div 10)) = Some (n div 10)" by simp
    then show ?thesis
      using False 1(2) digit_value_dec [of "n mod 10"]
      by (subst dec.simps) (simp add: digits_value_append)
  qed
qed

lemma dec_no_plus: "CHR ''+'' \<notin> set (dec n)"
proof (induction n rule: dec.induct)
  case (1 n)
  have digit: "CHR ''+'' \<noteq> char_of (48 + d)" if "d < 10" for d :: nat
    using not_plus [OF digit_value_dec [OF that]] by (rule not_sym)
  show ?case
    using 1 digit [of n] digit [of "n mod 10"] by (subst dec.simps) auto
qed

lemma from_str_radix_dec: "n < b \<Longrightarrow> from_str_radix 10 b (dec n) = Some n"
  using dec_value [of n b] by (simp add: from_str_radix_digits dec_no_plus dec_nonempty)

lemma parse_dec: "parse_u32 (dec (unat u)) = Some u" "parse_u64 (dec (unat i)) = Some i"
  using unsigned_less [of u, where ?'a = nat] unsigned_less [of i, where ?'a = nat]
  by (simp_all add: parse_u32_def parse_u64_def from_str_radix_dec)

lemma hex_words: "u32_from_hex (hex_text 8 (unat w)) = Some w" "u16_from_hex (hex_text 4 (unat p)) = Some p"
  using unsigned_less [of w, where ?'a = nat] unsigned_less [of p, where ?'a = nat]
  by (simp_all add: u32_from_hex_def u16_from_hex_def from_str_radix_hex)

text \<open>The words of an address given by its bytes in network order.\<close>

fun word_texts :: "bytes \<Rightarrow> string list" where
  "word_texts (b0 # b1 # b2 # b3 # rest) =
     hex_text 8 (unat (u32_from_be_bytes b3 b2 b1 b0)) # word_texts rest"
| "word_texts _ = []"

definition address_of :: "bytes \<Rightarrow> IpAddr" where
  "address_of bs =
     (case bs of [b0, b1, b2, b3] \<Rightarrow> V4 (u32_from_be_bytes b0 b1 b2 b3)
      | _ \<Rightarrow> V6 (u128_from_be_bytes bs))"

definition endpoint_text :: "bytes \<Rightarrow> u16 \<Rightarrow> string" where
  "endpoint_text bs port = concat (word_texts bs) @ '':'' @ hex_text 4 (unat port)"

lemma u32_bytes_roundtrip: "u32_to_be_bytes (u32_from_be_bytes a b c d) = [a, b, c, d]"
proof -
  have bounds: "unat a < 256" "unat b < 256" "unat c < 256" "unat d < 256"
    using unsigned_less [of a, where ?'a = nat] unsigned_less [of b, where ?'a = nat]
      unsigned_less [of c, where ?'a = nat] unsigned_less [of d, where ?'a = nat] by simp_all
  have step: "(256 * m + x) mod 256 = x" "(256 * m + x) div 256 = m" if "x < 256" for m x :: nat
    using that by simp_all
  define k where "k = 256 * unat a + unat b"
  define m where "m = 256 * k + unat c"
  define n where "n = 256 * m + unat d"
  have n: "16777216 * unat a + 65536 * unat b + 256 * unat c + unat d = n"
    by (simp add: n_def m_def k_def)
  have "n mod 256 = unat d" "n div 256 = m" using step [OF bounds(4)] by (simp_all only: n_def)
  moreover have "m mod 256 = unat c" "m div 256 = k" using step [OF bounds(3)] by (simp_all only: m_def)
  moreover have "k mod 256 = unat b" "k div 256 = unat a" using step [OF bounds(2)] by (simp_all only: k_def)
  moreover have "n div 65536 = n div 256 div 256" "n div 16777216 = n div 256 div 256 div 256"
    by (simp_all add: div_mult2_eq [symmetric])
  ultimately show ?thesis
    by (simp add: u32_to_be_bytes_def unat_u32_from_be_bytes n)
qed

lemma le_bytes [simp]: "u32_to_le_bytes (u32_from_be_bytes b3 b2 b1 b0) = [b0, b1, b2, b3]"
  by (simp add: u32_to_le_bytes_def u32_bytes_roundtrip)

lemma ipv6_words_read:
  assumes "length bs mod 4 = 0" and "length pre = 4 * i" and "length zs = length bs"
  shows "ipv6_words i (word_texts bs) (pre @ zs) = Some (Some (pre @ bs))"
  using assms
proof (induction bs arbitrary: pre i zs rule: word_texts.induct)
  case (1 b0 b1 b2 b3 rest)
  have k: "length rest mod 4 = 0" using "1.prems"(1) by simp
  have "ipv6_words (Suc i) (word_texts rest) ((pre @ [b0, b1, b2, b3]) @ drop 4 zs)
      = Some (Some ((pre @ [b0, b1, b2, b3]) @ rest))"
    by (rule "1.IH" [OF k]) (use "1.prems" in simp_all)
  with "1.prems" show ?case by (simp add: hex_words)
qed auto

lemma hex_text_nonempty [simp]: "hex_text 8 n \<noteq> []"
  using length_hex_text [of 8 n] by force

lemma chunks_words: "chunks_exact 8 (concat (word_texts bs)) = word_texts bs"
proof (induction bs rule: word_texts.induct)
  case (1 b0 b1 b2 b3 rest)
  then show ?case
    by (subst word_texts.simps, simp add: chunks_exact_def, subst chunks.simps) simp
qed (simp_all add: chunks_exact_def chunks.simps)

lemma length_words: "length bs = 4 * k \<Longrightarrow> length (concat (word_texts bs)) = 8 * k"
proof (induction bs arbitrary: k rule: word_texts.induct)
  case (1 b0 b1 b2 b3 rest)
  then show ?case by (cases k) auto
qed auto

lemma split_at: "d \<notin> set a \<Longrightarrow> split_once d (a @ d # b) = Some (a, b)"
  by (induction a) auto

lemma words_no_colon: "CHR '':'' \<notin> set (concat (word_texts bs))"
proof -
  have "digit_value CHR '':'' = None" by (simp add: digit_value_def Let_def)
  then have digit: "CHR '':'' \<noteq> upper_digit d" if "d < 16" for d
    using digit_value_upper [OF that] by force
  have "CHR '':'' \<notin> set (hex_text w n)" for w n
    using digit by (induction w arbitrary: n) auto
  then show ?thesis by (induction bs rule: word_texts.induct) auto
qed

lemma parse_endpoint_text:
  assumes "length bs = 4 \<or> length bs = 16"
  shows "parse_endpoint (endpoint_text bs port) = Some (Some (address_of bs, port))"
  using assms
proof
  assume "length bs = 4"
  then obtain b0 b1 b2 b3 where bs: "bs = [b0, b1, b2, b3]"
    by (auto simp: length_Suc_conv eval_nat_numeral)
  show ?thesis
    using split_at [OF words_no_colon [of bs], of "hex_text 4 (unat port)"]
    by (simp add: bs parse_endpoint_def endpoint_text_def hex_words parse_ipv4_hex_def address_of_def)
next
  assume len: "length bs = 16"
  then have words: "length (concat (word_texts bs)) = 32" using length_words [of bs 4] by simp
  have "ipv6_words 0 (word_texts bs) (replicate 16 0) = Some (Some bs)"
    using ipv6_words_read [of bs "[]" 0 "replicate 16 0"] len by simp
  then have "parse_ipv6_hex (concat (word_texts bs)) = Some (Some (u128_from_be_bytes bs))"
    by (simp add: parse_ipv6_hex_def chunks_words)
  moreover have "address_of bs = V6 (u128_from_be_bytes bs)"
    using len by (auto simp: address_of_def split: list.split)
  ultimately show ?thesis
    using split_at [OF words_no_colon [of bs], of "hex_text 4 (unat port)"] words
    by (simp add: parse_endpoint_def endpoint_text_def hex_words)
qed

section \<open>What a walk finds\<close>

definition link_inodes :: "string option option list \<Rightarrow> u64 set" where
  "link_inodes fds = {ino. \<exists>l\<in>set fds. Option.bind l socket_inode_from_link = Some ino}"

definition owns :: "u64 \<Rightarrow> PidDir \<Rightarrow> bool" where
  "owns ino dir \<longleftrightarrow> Option.bind (dir_name dir) parse_u32 \<noteq> None
     \<and> (\<exists>fds. fd_links dir = Some fds \<and> ino \<in> link_inodes fds)"

definition process_row :: "u32 \<Rightarrow> PidDir \<Rightarrow> ProcRow option" where
  "process_row pid_n dir =
     map_option (\<lambda>cmdline. \<lparr>proc_pid = pid_n, proc_comm = read_comm dir, proc_cmdline = cmdline,
        proc_uid = (case read_uid dir of None \<Rightarrow> 0 | Some u \<Rightarrow> u)\<rparr>) (read_cmdline dir)"

text \<open>The first directory that has a descriptor of the socket.\<close>

definition owner_row :: "PidDir list \<Rightarrow> u64 \<Rightarrow> ProcRow option" where
  "owner_row dirs ino =
     (case find (owns ino) dirs of
        None \<Rightarrow> None
      | Some dir \<Rightarrow> Option.bind (Option.bind (dir_name dir) parse_u32) (\<lambda>n. process_row n dir))"

lemma link_inodes_Cons:
  "link_inodes (l # fds) =
     (case Option.bind l socket_inode_from_link of None \<Rightarrow> {} | Some ino \<Rightarrow> {ino}) \<union> link_inodes fds"
  by (auto simp: link_inodes_def split: option.splits)

lemma link_inodes_Nil [simp]: "link_inodes [] = {}"
  by (simp add: link_inodes_def)

lemma scan_fds_spec:
  assumes "scan_fds dir n fds out wanted = Some (out', wanted')"
  shows "set wanted' = set wanted - link_inodes fds
    \<and> (\<forall>ino. hm_get out' ino =
         (if ino \<in> set wanted \<inter> link_inodes fds then process_row n dir else hm_get out ino))"
  using assms
proof (induction dir n fds out wanted rule: scan_fds.induct)
  case (2 dir n l rest out wanted)
  show ?case
  proof (cases "Option.bind l socket_inode_from_link")
    case None
    with 2 show ?thesis by (simp add: link_inodes_Cons)
  next
    case ino: (Some ino)
    show ?thesis
    proof (cases "ino \<in> set wanted")
      case False
      with 2 ino show ?thesis by (auto simp: link_inodes_Cons)
    next
      case True
      with "2.prems" ino obtain cmdline where c: "read_cmdline dir = Some cmdline"
        by (cases "read_cmdline dir") simp_all
      let ?row = "\<lparr>proc_pid = n, proc_comm = read_comm dir, proc_cmdline = cmdline,
        proc_uid = (case read_uid dir of None \<Rightarrow> 0 | Some u \<Rightarrow> u)\<rparr>"
      have row: "process_row n dir = Some ?row" by (simp add: process_row_def c)
      show ?thesis
      proof (cases "removeAll ino wanted = []")
        case True
        then have "set wanted \<subseteq> {ino}" by (metis Diff_eq_empty_iff empty_set set_removeAll)
        with "2.prems" ino \<open>ino \<in> set wanted\<close> c True row show ?thesis
          by (auto simp: link_inodes_Cons hm_get_insert)
      next
        case False
        with "2.prems" ino True c
        have "scan_fds dir n rest (hm_insert ino ?row out) (removeAll ino wanted) = Some (out', wanted')"
          by simp
        with "2.IH"(3) [OF ino _ c refl refl refl] True False
        have "set wanted' = set (removeAll ino wanted) - link_inodes rest
          \<and> (\<forall>i. hm_get out' i = (if i \<in> set (removeAll ino wanted) \<inter> link_inodes rest
                then process_row n dir else hm_get (hm_insert ino ?row out) i))"
          by simp
        with ino True row show ?thesis
          by (auto simp: link_inodes_Cons hm_get_insert)
      qed
    qed
  qed
qed simp

lemma scan_dirs_spec:
  assumes "scan_dirs dirs out wanted = Some out'"
  shows "hm_get out' ino =
    (if ino \<in> set wanted \<and> (\<exists>dir\<in>set dirs. owns ino dir) then owner_row dirs ino else hm_get out ino)"
  using assms
proof (induction dirs out wanted rule: scan_dirs.induct)
  case (2 dir rest out wanted)
  show ?case
  proof (cases "wanted = [] \<or> Option.bind (dir_name dir) parse_u32 = None \<or> fd_links dir = None")
    case True
    then have "wanted = [] \<or> \<not> owns ino dir" by (auto simp: owns_def)
    with 2 True show ?thesis
      by (auto simp: owner_row_def split: option.splits if_splits)
  next
    case False
    then obtain n fds where n: "Option.bind (dir_name dir) parse_u32 = Some n" "fd_links dir = Some fds"
      "wanted \<noteq> []" by auto
    with "2.prems" obtain out1 wanted1 where 1: "scan_fds dir n fds out wanted = Some (out1, wanted1)"
      and r: "scan_dirs rest out1 wanted1 = Some out'"
      by (auto simp: bind_eq_Some_conv)
    have own: "owns ino dir \<longleftrightarrow> ino \<in> link_inodes fds" using n by (simp add: owns_def)
    have "hm_get out' ino = (if ino \<in> set wanted1 \<and> (\<exists>dir\<in>set rest. owns ino dir)
        then owner_row rest ino else hm_get out1 ino)"
      using "2.IH"(3) [OF n(3,1,2) 1 refl r] .
    with scan_fds_spec [OF 1] own n show ?thesis
      by (auto simp: owner_row_def)
  qed
qed simp

text \<open>A \<open>/proc\<close> with one established socket, owned by process 42 when its command line is \<open>c\<close>.\<close>

definition sample_fs :: "bytes \<Rightarrow> ProcFs" where
  "sample_fs c = \<lparr>net_tcp = Some (''sl'' @ [CHR 0x0A]
       @ ''0: 0100007F:1234 0200007F:01BB 01 0:0 0:0 0 1000 0 99'' @ [CHR 0x0A]), net_tcp6 = None,
     proc_dirs = Some [\<lparr>dir_name = Some ''42'', fd_links = Some [Some (Some ''socket:[99]'')],
       comm_file = Some ''curl'', cmdline_file = Some c, status_file = None\<rparr>]\<rparr>"

lemma sample_line:
  "parse_socket_line ''0: 0100007F:1234 0200007F:01BB 01 0:0 0:0 0 1000 0 99'' =
    Some (Some (((V4 0x7F000001, 0x1234), (V4 0x7F000002, 443)), \<lparr>inode = 99, row_uid = 1000\<rparr>))"
  by (simp add: parse_socket_line_def split_ascii_whitespace_def is_ascii_ws_def parse_endpoint_def
      u16_from_hex_def u32_from_hex_def parse_ipv4_hex_def from_str_radix_def digit_value_def Let_def
      u32_to_le_bytes_def u32_to_be_bytes_def u32_from_be_bytes_def parse_u32_def parse_u64_def)

lemma sample_sockets:
  "read_sockets (sample_fs c) =
    Some [(((V4 0x7F000001, 0x1234), (V4 0x7F000002, 443)), \<lparr>inode = 99, row_uid = 1000\<rparr>)]"
  by (simp add: read_sockets_def sample_fs_def parse_socket_table_def text_lines_def strip_cr_def
      add_socket_line_def sample_line hm_empty_def)

lemma sample_inode: "socket_inode_from_link (Some ''socket:[99]'') = Some 99"
  by (simp add: socket_inode_from_link_def strip_prefix_def strip_suffix_def parse_u64_def
      from_str_radix_def digit_value_def Let_def)

lemma sample_pid: "parse_u32 ''42'' = Some 42"
  by (simp add: parse_u32_def from_str_radix_def digit_value_def Let_def)

section \<open>When the command line can be read\<close>

lemma ascii_text:
  assumes "list_all (\<lambda>c. c < 0x80) cs"
  shows "utf8_len cs = length cs" and "truncate_chars n cs = Some (take n cs)"
    and "concat (map latin1_utf8 cs) = cs"
proof -
  show "utf8_len cs = length cs"
    using assms by (induction cs) (auto simp: utf8_len_def latin1_width_def)
  show "truncate_chars n cs = Some (take n cs)"
    using assms by (induction cs arbitrary: n) (auto simp: latin1_width_def take_Cons')
  show "concat (map latin1_utf8 cs) = cs"
    using assms by (induction cs) (auto simp: latin1_utf8_def)
qed

lemma trim_end_prefix: "\<exists>ws. cs = trim_end_chars cs @ ws"
  unfolding trim_end_chars_def
  by (metis rev_append rev_rev_ident takeWhile_dropWhile_id)

lemma trim_end_keeps: "\<not> latin1_ws c \<Longrightarrow> \<exists>rest. trim_end_chars (pre @ c # post) = pre @ c # rest"
  by (induction post rule: rev_induct)
     (auto simp: trim_end_chars_def dropWhile_append)

lemma read_cmdline_ascii:
  assumes "\<And>bs. cmdline_file dir = Some bs \<Longrightarrow> list_all (\<lambda>b. b < 0x80) bs"
  shows "\<exists>s. read_cmdline dir = Some s \<and> length s \<le> 259"
proof -
  define raw where "raw = map (\<lambda>b. if b = 0 then 32 else b)
    (case cmdline_file dir of None \<Rightarrow> [] | Some bs \<Rightarrow> bs)"
  have "list_all (\<lambda>b. b < 0x80) raw"
    using assms by (cases "cmdline_file dir") (auto simp: raw_def list_all_iff)
  moreover obtain ws where "raw = trim_end_chars raw @ ws" using trim_end_prefix by blast
  ultimately have "list_all (\<lambda>b. b < 0x80) (trim_end_chars raw)" by (metis list_all_append)
  moreover from this have "list_all (\<lambda>b. b < 0x80) (take n (trim_end_chars raw))" for n
    by (meson in_set_takeD list_all_iff)
  ultimately show ?thesis
    by (simp add: read_cmdline_def Let_def ascii_text CMDLINE_MAX_LEN_def flip: raw_def)
qed

lemma truncate_ascii_prefix:
  "list_all (\<lambda>c. c < 0x80) pre \<Longrightarrow> length pre < n \<Longrightarrow>
     truncate_chars n (pre @ cs) = map_option ((@) pre) (truncate_chars (n - length pre) cs)"
proof (induction pre arbitrary: n)
  case (Cons c pre)
  then show ?case by (cases n) (auto simp: latin1_width_def option.map_comp comp_def)
next
  case Nil
  then show ?case by (cases "truncate_chars n cs") simp_all
qed

lemma read_cmdline_panics:
  assumes "cmdline_file dir = Some (pre @ b # post)" and "length pre = 255"
    and "list_all (\<lambda>c. c < 0x80) pre" and "0x80 \<le> b" and "\<not> latin1_ws b"
  shows "read_cmdline dir = None"
proof -
  let ?f = "\<lambda>b. if b = 0 then 32 else b"
  have ascii: "list_all (\<lambda>c. c < 0x80) (map ?f pre)"
    using assms(3) by (auto simp: list_all_iff)
  have "b \<noteq> 0" using assms(4) by auto
  then obtain rest where s: "trim_end_chars (map ?f (pre @ b # post)) = map ?f pre @ b # rest"
    using trim_end_keeps [OF assms(5), of "map ?f pre" "map ?f post"] by auto
  have wide: "latin1_width b = 2" using assms(4) by (simp add: latin1_width_def not_less)
  have "utf8_len (map ?f pre) = 255" using ascii assms(2) by (simp add: ascii_text)
  then have "CMDLINE_MAX_LEN < utf8_len (map ?f pre @ b # rest)"
    using wide by (simp add: utf8_len_def CMDLINE_MAX_LEN_def)
  moreover have "truncate_chars CMDLINE_MAX_LEN (map ?f pre @ b # rest) = None"
    using truncate_ascii_prefix [OF ascii, of 256 "b # rest"] assms(2) wide
    by (simp add: CMDLINE_MAX_LEN_def)
  ultimately show ?thesis
    using assms(1) s by (simp add: read_cmdline_def Let_def)
qed

lemma scan_fds_panics:
  assumes "read_cmdline dir = None" and "ino \<in> set wanted \<inter> link_inodes fds"
  shows "scan_fds dir n fds out wanted = None"
  using assms
proof (induction fds)
  case (Cons l fds)
  then show ?case by (auto simp: link_inodes_Cons split: option.splits)
qed simp

lemma scan_fds_total:
  assumes "read_cmdline dir \<noteq> None"
  shows "\<exists>res. scan_fds dir n fds out wanted = Some res"
  using assms by (induction fds arbitrary: out wanted) (auto simp: Let_def split: option.split)

lemma scan_dirs_total:
  assumes "\<forall>dir\<in>set dirs. read_cmdline dir \<noteq> None"
  shows "\<exists>out'. scan_dirs dirs out wanted = Some out'"
  using assms
proof (induction dirs arbitrary: out wanted)
  case (Cons dir dirs)
  show ?case
  proof (cases "wanted = [] \<or> Option.bind (dir_name dir) parse_u32 = None \<or> fd_links dir = None")
    case True
    with Cons show ?thesis by (auto split: option.split)
  next
    case False
    then obtain n fds where n: "Option.bind (dir_name dir) parse_u32 = Some n" "fd_links dir = Some fds"
      "wanted \<noteq> []" by auto
    obtain out1 wanted1 where "scan_fds dir n fds out wanted = Some (out1, wanted1)"
      using scan_fds_total [of dir n fds out wanted] Cons.prems by auto
    with n Cons show ?thesis by simp
  qed
qed simp

lemma ipv6_words_total:
  "length bs = 16 \<Longrightarrow> i + length ws \<le> 4 \<Longrightarrow> \<exists>res. ipv6_words i ws bs = Some res"
proof (induction ws arbitrary: i bs)
  case (Cons w ws)
  have "length (take (i * 4) bs @ u32_to_le_bytes v @ drop ((i + 1) * 4) bs) = 16" for v
    using Cons.prems by (simp add: u32_to_le_bytes_def u32_to_be_bytes_def)
  with Cons show ?case by (auto split: option.split)
qed simp

lemma parse_endpoint_total: "\<exists>res. parse_endpoint s = Some res"
proof -
  have "\<exists>res. parse_ipv6_hex a = Some res" if "length a = 32" for a
  proof -
    have "length (chunks_exact 8 a) \<le> length (chunks 8 a)" by (simp add: chunks_exact_def)
    also have "\<dots> = 4" using that by (simp add: length_chunks)
    finally show ?thesis
      using ipv6_words_total [of "replicate 16 0" 0 "chunks_exact 8 a"]
      by (auto simp: parse_ipv6_hex_def)
  qed
  then show ?thesis
    by (auto simp: parse_endpoint_def split: option.split)
qed

lemma read_sockets_total: "\<exists>socks. read_sockets fs = Some socks"
proof -
  have line: "\<exists>out'. add_socket_line out l = Some out'" for out l
  proof -
    obtain x y where "parse_endpoint (split_ascii_whitespace l ! 1) = Some x"
      "parse_endpoint (split_ascii_whitespace l ! 2) = Some y"
      using parse_endpoint_total by blast
    then show ?thesis
      by (cases x; cases y) (auto simp: add_socket_line_def parse_socket_line_def ask_some_def
          split: list.split option.split)
  qed
  have "\<exists>out'. parse_socket_table s out = Some out'" for s out
    unfolding parse_socket_table_def by (rule fold_exec_total) (rule line)
  then show ?thesis
    unfolding read_sockets_def by (intro fold_exec_total) (auto split: option.split)
qed

section \<open>Properties\<close>

text \<open>
  C33. Rows are read as the kernel prints them: a row with the two endpoints in the kernel's
  notation (every 32-bit word in host byte order, upper-case hexadecimal), a decimal user and
  inode gives exactly those values when its state is \<open>01\<close>, and nothing in any other state.
\<close>

theorem socket_line_read:
  assumes "split_ascii_whitespace line =
      [sl, endpoint_text l p, endpoint_text r q, st, tx, tr, retr, dec (unat u), tmo, dec (unat i)] @ extra"
    and "length l = 4 \<or> length l = 16" and "length r = 4 \<or> length r = 16"
  shows "parse_socket_line line =
    Some (if st = ''01'' then Some (((address_of l, p), (address_of r, q)), \<lparr>inode = i, row_uid = u\<rparr>)
          else None)"
  using assms by (simp add: parse_socket_line_def parse_endpoint_text parse_dec)

lemma hex_text_numeral:
  "hex_text (numeral k) n = hex_text (pred_numeral k) (n div 16) @ [upper_digit (n mod 16)]"
  by (simp only: numeral_eq_Suc [of k] hex_text.simps)

lemma sample_chars:
  "char_of (48 :: nat) = CHR ''0''" "char_of (49 :: nat) = CHR ''1''" "char_of (50 :: nat) = CHR ''2''"
  "char_of (51 :: nat) = CHR ''3''" "char_of (52 :: nat) = CHR ''4''" "char_of (55 :: nat) = CHR ''7''"
  "char_of (57 :: nat) = CHR ''9''" "char_of (66 :: nat) = CHR ''B''" "char_of (70 :: nat) = CHR ''F''"
  by code_simp+

lemma sample_endpoints:
  "endpoint_text [127, 0, 0, 1] 0x1234 = ''0100007F:1234''"
  "endpoint_text [127, 0, 0, 2] 443 = ''0200007F:01BB''"
  by (simp_all add: endpoint_text_def unat_u32_from_be_bytes hex_text_numeral upper_digit_def sample_chars)

lemma sample_decimals: "dec 1000 = ''1000''" "dec 99 = ''99''"
  by (simp_all add: dec.simps [of 1000] dec.simps [of 100] dec.simps [of 10] dec.simps [of "Suc 0"]
      dec.simps [of 99] dec.simps [of 9] sample_chars)

theorem socket_line_read_witness:
  "split_ascii_whitespace ''0: 0100007F:1234 0200007F:01BB 01 0:0 0:0 0 1000 0 99'' =
      [''0:'', endpoint_text [127, 0, 0, 1] 0x1234, endpoint_text [127, 0, 0, 2] 443, ''01'', ''0:0'', ''0:0'',
       ''0'', dec (unat (1000 :: u32)), ''0'', dec (unat (99 :: u64))] @ []
   \<and> parse_socket_line ''0: 0100007F:1234 0200007F:01BB 01 0:0 0:0 0 1000 0 99'' =
      Some (Some (((V4 0x7F000001, 0x1234), (V4 0x7F000002, 443)), \<lparr>inode = 99, row_uid = 1000\<rparr>))"
proof -
  have words: "split_ascii_whitespace ''0: 0100007F:1234 0200007F:01BB 01 0:0 0:0 0 1000 0 99'' =
      [''0:'', endpoint_text [127, 0, 0, 1] 0x1234, endpoint_text [127, 0, 0, 2] 443, ''01'', ''0:0'', ''0:0'',
       ''0'', dec (unat (1000 :: u32)), ''0'', dec (unat (99 :: u64))] @ []"
    by (simp add: split_ascii_whitespace_def is_ascii_ws_def sample_endpoints sample_decimals)
  from socket_line_read [OF words] words show ?thesis
    by (simp add: address_of_def u32_from_be_bytes_def)
qed

text \<open>What a fresh resolver answers, said without the walk.\<close>

definition attribution :: "SocketTable \<Rightarrow> PidDir list \<Rightarrow> SocketAddr \<Rightarrow> SocketAddr \<Rightarrow> Origin" where
  "attribution socks dirs a b =
     (case (case hm_get socks (a, b) of Some row \<Rightarrow> Some row | None \<Rightarrow> hm_get socks (b, a)) of
        None \<Rightarrow> Origin.Unknown
      | Some row \<Rightarrow>
          (case owner_row dirs (inode row) of
             Some p \<Rightarrow> Local \<lparr>pid = proc_pid p, comm = proc_comm p, cmdline = proc_cmdline p,
                              uid = proc_uid p\<rparr>
           | None \<Rightarrow> OtherUser (row_uid row)))"

definition dirs_of :: "ProcFs \<Rightarrow> PidDir list" where
  "dirs_of fs = (case proc_dirs fs of None \<Rightarrow> [] | Some dirs \<Rightarrow> dirs)"

lemma owner_row_None: "\<not> (\<exists>dir\<in>set dirs. owns ino dir) \<Longrightarrow> owner_row dirs ino = None"
  using find_None_iff [of "owns ino" dirs] by (auto simp: owner_row_def)

lemma read_procs_spec:
  assumes "read_procs fs socks = Some ps" and "hm_get socks k = Some row"
  shows "hm_get ps (inode row) = owner_row (dirs_of fs) (inode row)"
proof -
  have wanted: "inode row \<in> set (remdups (map inode (hm_values socks)))"
    using assms(2) by (auto simp: hm_values_def hm_get_def dest!: map_of_SomeD intro!: image_eqI)
  show ?thesis
  proof (cases "proc_dirs fs")
    case None
    with assms show ?thesis by (simp add: read_procs_def dirs_of_def owner_row_def hm.get_empty Let_def)
  next
    case (Some dirs)
    with assms have "scan_dirs dirs hm_empty (remdups (map inode (hm_values socks))) = Some ps"
      by (simp add: read_procs_def Let_def)
    from scan_dirs_spec [OF this, of "inode row"] wanted Some owner_row_None [of dirs "inode row"]
    show ?thesis by (auto simp: dirs_of_def hm.get_empty)
  qed
qed

text \<open>A snapshot taken by a walk answers as the specification says.\<close>

lemma origin_of_walk:
  assumes "read_procs fs socks = Some ps"
  shows "origin_of \<lparr>taken_at = taken, sockets = socks, procs = ps\<rparr> x y = attribution socks (dirs_of fs) x y"
  using read_procs_spec [OF assms, of "(x, y)"] read_procs_spec [OF assms, of "(y, x)"]
  by (auto simp: origin_of_def attribution_def split: option.split)

lemma resolver_spec:
  assumes "LinuxProcResolver_resolve fs now taken LinuxProcResolver_new a b = Some (answer, r)"
    and "read_sockets fs = Some socks"
  shows "answer = attribution socks (dirs_of fs) a b
    \<and> (now' < taken + CACHE_TTL_MS \<longrightarrow>
         LinuxProcResolver_resolve fs' now' taken' r c d = Some (attribution socks (dirs_of fs) c d, r))"
proof -
  from assms obtain ps where ps: "read_procs fs socks = Some ps"
    and answer: "answer = origin_of \<lparr>taken_at = taken, sockets = socks, procs = ps\<rparr> a b"
    and r: "r = \<lparr>cache = Some \<lparr>taken_at = taken, sockets = socks, procs = ps\<rparr>, ttl = CACHE_TTL_MS\<rparr>"
    by (auto simp: LinuxProcResolver_resolve_def snapshot_def LinuxProcResolver_new_def
        bind_eq_Some_conv Let_def)
  note spec = origin_of_walk [OF ps]
  have "LinuxProcResolver_resolve fs' now' taken' r c d = Some (attribution socks (dirs_of fs) c d, r)"
    if "now' < taken + CACHE_TTL_MS"
  proof -
    from that have "\<not> CACHE_TTL_MS \<le> now' - taken" by (auto simp: CACHE_TTL_MS_def)
    then show ?thesis by (simp add: LinuxProcResolver_resolve_def snapshot_def r spec)
  qed
  with answer spec show ?thesis by simp
qed

text \<open>
  C28. The resolver implements its specification: whenever the walk over \<open>/proc\<close> returns, the
  answer for a flow is \<open>Unknown\<close> when the socket table has neither order of its endpoints, else
  the process of the first directory that has the socket open, with its name, command line and
  user, else the user of the socket; and the same snapshot answers until the cache is too old,
  whatever the file system says by then.
\<close>

theorem resolver_attributes:
  assumes "LinuxProcResolver_resolve fs now taken LinuxProcResolver_new a b = Some (answer, r)"
    and "read_sockets fs = Some socks"
  shows "answer = attribution socks (dirs_of fs) a b
    \<and> (now' < taken + CACHE_TTL_MS \<longrightarrow>
         LinuxProcResolver_resolve fs' now' taken' r c d = Some (attribution socks (dirs_of fs) c d, r))"
  using resolver_spec [OF assms] .

lemma owns_sample:
  "owns 99 \<lparr>dir_name = Some ''42'', fd_links = Some [Some (Some ''socket:[99]'')],
     comm_file = cf, cmdline_file = c, status_file = s\<rparr>"
  by (simp add: owns_def sample_pid link_inodes_Cons sample_inode)

lemma link_inodes_sample: "link_inodes [Some (Some ''socket:[99]'')] = {99}"
  by (simp add: link_inodes_Cons sample_inode)

theorem resolver_attributes_witness:
  "\<exists>p r. LinuxProcResolver_resolve (sample_fs [99]) 5 6 LinuxProcResolver_new
      (V4 0x7F000002, 443) (V4 0x7F000001, 0x1234) = Some (Local p, r) \<and> pid p = 42"
proof -
  let ?fs = "sample_fs [99]" and ?a = "(V4 0x7F000002, 443) :: SocketAddr"
    and ?b = "(V4 0x7F000001, 0x1234) :: SocketAddr"
  let ?socks = "[((?b, ?a), \<lparr>inode = 99, row_uid = 1000\<rparr>)] :: SocketTable"
  have "\<exists>ps. read_procs ?fs ?socks = Some ps"
    unfolding read_procs_def Let_def
    by (simp add: sample_fs_def scan_dirs_total read_cmdline_def Let_def trim_end_chars_def latin1_ws_def
        utf8_len_def latin1_width_def CMDLINE_MAX_LEN_def del: scan_dirs.simps)
  then obtain ps where ps: "read_procs ?fs ?socks = Some ps" by blast
  have "snapshot ?fs 5 6 LinuxProcResolver_new = Some (\<lparr>taken_at = 6, sockets = ?socks, procs = ps\<rparr>,
      LinuxProcResolver_new\<lparr>cache := Some \<lparr>taken_at = 6, sockets = ?socks, procs = ps\<rparr>\<rparr>)"
    by (simp add: snapshot_def LinuxProcResolver_new_def sample_sockets ps Let_def)
  then obtain answer r where run: "LinuxProcResolver_resolve ?fs 5 6 LinuxProcResolver_new ?a ?b = Some (answer, r)"
    by (simp add: LinuxProcResolver_resolve_def)
  have answer: "answer = attribution ?socks (dirs_of ?fs) ?a ?b"
    using resolver_attributes [OF run sample_sockets] by simp
  have "\<exists>p. attribution ?socks (dirs_of ?fs) ?a ?b = Local p \<and> pid p = 42"
    by (simp add: attribution_def hm_get_def dirs_of_def sample_fs_def owner_row_def owns_sample sample_pid
        process_row_def read_cmdline_def Let_def trim_end_chars_def latin1_ws_def
        utf8_len_def latin1_width_def CMDLINE_MAX_LEN_def)
  then obtain p where "attribution ?socks (dirs_of ?fs) ?a ?b = Local p" "pid p = 42" by blast
  with answer have "answer = Local p" by (simp only:)
  with run \<open>pid p = 42\<close> show ?thesis by blast
qed

text \<open>
  The order of the endpoints matters only for a connection of the machine to itself, of which the
  socket table has both ends: then each order finds the process at its own first endpoint.
\<close>

lemma attribution_order:
  "hm_get socks (a, b) = None \<or> hm_get socks (b, a) = None \<Longrightarrow>
     attribution socks dirs a b = attribution socks dirs b a"
  by (auto simp: attribution_def split: option.split)

lemma attribution_loopback:
  "attribution [(((V4 1, 5), (V4 1, 6)), \<lparr>inode = 9, row_uid = 7\<rparr>),
                (((V4 1, 6), (V4 1, 5)), \<lparr>inode = 8, row_uid = 3\<rparr>)] [] (V4 1, 5) (V4 1, 6) = OtherUser 7"
  "attribution [(((V4 1, 5), (V4 1, 6)), \<lparr>inode = 9, row_uid = 7\<rparr>),
                (((V4 1, 6), (V4 1, 5)), \<lparr>inode = 8, row_uid = 3\<rparr>)] [] (V4 1, 6) (V4 1, 5) = OtherUser 3"
  by (simp_all add: attribution_def hm_get_def owner_row_def)

lemma owner_row_cmdline:
  assumes "owner_row dirs ino = Some p"
  obtains dir where "dir \<in> set dirs" and "read_cmdline dir = Some (proc_cmdline p)"
proof (cases "find (owns ino) dirs")
  case None
  with assms show ?thesis by (simp add: owner_row_def)
next
  case (Some dir)
  then have "dir \<in> set dirs" by (auto simp: find_Some_iff)
  moreover have "read_cmdline dir = Some (proc_cmdline p)"
    using assms Some by (auto simp: owner_row_def process_row_def bind_eq_Some_conv)
  ultimately show ?thesis by (rule that)
qed

text \<open>
  With plain ASCII command lines the resolver always returns, from any cache, on any socket
  table text, and a fresh walk gives a command line of at most 259 bytes.
\<close>

theorem resolver_returns:
  assumes "\<forall>dir\<in>set (dirs_of fs). \<forall>bs. cmdline_file dir = Some bs \<longrightarrow> list_all (\<lambda>b. b < 0x80) bs"
  shows "\<exists>answer r'. LinuxProcResolver_resolve fs now taken r a b = Some (answer, r')
    \<and> (cache r = None \<longrightarrow> (\<forall>p. answer = Local p \<longrightarrow> length (cmdline p) \<le> 259))"
proof -
  have cmd: "\<exists>s. read_cmdline dir = Some s \<and> length s \<le> 259" if "dir \<in> set (dirs_of fs)" for dir
    using assms that by (intro read_cmdline_ascii) blast
  obtain socks where socks: "read_sockets fs = Some socks" using read_sockets_total by blast
  have "\<exists>ps. read_procs fs socks = Some ps"
  proof (cases "proc_dirs fs")
    case (Some dirs)
    then have "\<forall>dir\<in>set dirs. read_cmdline dir \<noteq> None" using cmd by (force simp: dirs_of_def)
    with Some scan_dirs_total show ?thesis by (simp add: read_procs_def Let_def)
  qed (simp add: read_procs_def Let_def)
  then obtain ps where ps: "read_procs fs socks = Some ps" by blast
  let ?s = "\<lparr>taken_at = taken, sockets = socks, procs = ps\<rparr>"
  have "length (cmdline p) \<le> 259" if o: "origin_of ?s a b = Local p" for p
  proof -
    from o obtain row q where "hm_get socks (a, b) = Some row \<or> hm_get socks (b, a) = Some row"
      and q: "hm_get ps (inode row) = Some q" "cmdline p = proc_cmdline q"
      by (cases "hm_get socks (a, b)"; cases "hm_get socks (b, a)")
         (force simp: origin_of_def split: option.splits)+
    then have "owner_row (dirs_of fs) (inode row) = Some q"
      using read_procs_spec [OF ps] by metis
    with cmd q(2) show ?thesis by (elim owner_row_cmdline) force
  qed
  then show ?thesis
    by (cases "cache r") (auto simp: LinuxProcResolver_resolve_def snapshot_def socks ps Let_def)
qed

theorem resolver_returns_witness:
  "\<exists>answer r'. LinuxProcResolver_resolve (sample_fs [99, 0, 45]) 5 6 LinuxProcResolver_new
     (V4 0x7F000001, 0x1234) (V4 0x7F000002, 443) = Some (answer, r')"
  using resolver_returns [of "sample_fs [99, 0, 45]"] by (force simp: dirs_of_def sample_fs_def)

text \<open>
  A process can stop the attribution, and with it the thread that calls it: when the command
  line of the first process listed has 255 ASCII bytes and then one from 0x80 on (and not one
  of the two that are white space as a character), and the process holds a listed socket, the
  resolver panics, because byte 256 is inside a character of the converted text.
\<close>

theorem non_ascii_cmdline_panics:
  assumes "cmdline_file dir = Some (pre @ c # post)" and "length pre = 255"
    and "list_all (\<lambda>b. b < 0x80) pre" and "0x80 \<le> c" and "c \<notin> {0x85, 0xA0}"
    and "proc_dirs fs = Some (dir # rest)" and "Option.bind (dir_name dir) parse_u32 = Some n"
    and "fd_links dir = Some fds" and "inode row \<in> link_inodes fds"
    and "read_sockets fs = Some socks" and "hm_get socks k = Some row"
  shows "LinuxProcResolver_resolve fs now taken LinuxProcResolver_new a b = None"
proof -
  have "\<not> latin1_ws c" using assms(4,5) by (auto simp: latin1_ws_def)
  then have panic: "read_cmdline dir = None" using read_cmdline_panics assms(1-4) by blast
  let ?wanted = "remdups (map inode (hm_values socks))"
  have w: "inode row \<in> set ?wanted"
    using assms(11) by (auto simp: hm_values_def hm_get_def dest!: map_of_SomeD intro!: image_eqI)
  then have "scan_fds dir n fds hm_empty ?wanted = None"
    using assms(9) by (intro scan_fds_panics [OF panic]) blast
  moreover have "?wanted \<noteq> []" using w by auto
  ultimately have "read_procs fs socks = None"
    using assms(6-8) by (simp add: read_procs_def Let_def)
  with assms(10) show ?thesis
    by (simp add: LinuxProcResolver_resolve_def snapshot_def LinuxProcResolver_new_def)
qed

theorem non_ascii_cmdline_panics_witness:
  "LinuxProcResolver_resolve (sample_fs (replicate 255 97 @ [0xC3, 0xA9])) 5 6 LinuxProcResolver_new
     (V4 0x7F000001, 0x1234) (V4 0x7F000002, 443) = None"
proof -
  let ?c = "replicate 255 97 @ [0xC3, 0xA9] :: bytes"
  let ?dir = "\<lparr>dir_name = Some ''42'', fd_links = Some [Some (Some ''socket:[99]'')],
    comm_file = Some ''curl'', cmdline_file = Some ?c, status_file = None\<rparr> :: PidDir"
  let ?row = "\<lparr>inode = 99, row_uid = 1000\<rparr> :: SocketRow"
  show ?thesis
  proof (rule non_ascii_cmdline_panics)
    show "cmdline_file ?dir = Some (replicate 255 97 @ 0xC3 # [0xA9])" by simp
    show "proc_dirs (sample_fs ?c) = Some (?dir # [])" by (simp add: sample_fs_def)
    show "Option.bind (dir_name ?dir) parse_u32 = Some 42" by (simp add: sample_pid)
    show "fd_links ?dir = Some [Some (Some ''socket:[99]'')]" by simp
    show "inode ?row \<in> link_inodes [Some (Some ''socket:[99]'')]" by (simp add: link_inodes_sample)
    show "read_sockets (sample_fs ?c) = Some [(((V4 0x7F000001, 0x1234), (V4 0x7F000002, 443)), ?row)]"
      by (rule sample_sockets)
    show "hm_get [(((V4 0x7F000001, 0x1234), (V4 0x7F000002, 443)), ?row)]
      ((V4 0x7F000001, 0x1234), (V4 0x7F000002, 443)) = Some ?row"
      by (simp add: hm_get_def)
  qed (simp_all add: list_all_iff)
qed

end
