(* ===== verification/Linux_Run.thy ===== *)
theory Linux_Run
  imports Thread_History Origin_Linux "HOL-Library.Stream"
begin

text \<open>
  The program on Linux: the tracker with the resolver that \<open>default_resolver\<close> chooses there
  (\<open>src/src/origin/mod.rs\<close>). The resolver's state is the \<open>LinuxProcResolver\<close> and what it will
  meet: a stream with, for each question, the file system and the two readings of the clock.
\<close>

record ProcReading =
  proc_fs :: ProcFs
  asked_at :: nat
  walked_at :: nat

type_synonym LinuxResolver = "LinuxProcResolver \<times> ProcReading stream"

definition linux_resolve :: "LinuxResolver OriginResolver" where
  "linux_resolve r a b =
     map_option (\<lambda>(answer, res). (answer, (res, stl (snd r))))
       (LinuxProcResolver_resolve (proc_fs (shd (snd r))) (asked_at (shd (snd r))) (walked_at (shd (snd r)))
          (fst r) a b)"

definition default_resolver :: "ProcReading stream \<Rightarrow> LinuxResolver" where
  "default_resolver world = (LinuxProcResolver_new, world)"

text \<open>Every process has a plain ASCII command line, at every moment the resolver looks.\<close>

definition ascii_processes :: "ProcFs \<Rightarrow> bool" where
  "ascii_processes fs \<longleftrightarrow>
     list_all (\<lambda>dir. case cmdline_file dir of None \<Rightarrow> True | Some bs \<Rightarrow> list_all (\<lambda>b. b < 0x80) bs) (dirs_of fs)"

definition ascii_world :: "LinuxResolver \<Rightarrow> bool" where
  "ascii_world r \<longleftrightarrow> (\<forall>w\<in>sset (snd r). ascii_processes (proc_fs w))"

lemma linux_resolve_ascii:
  assumes "ascii_world r"
  shows "\<exists>o' r'. linux_resolve r a b = Some (o', r') \<and> ascii_world r'"
proof -
  let ?w = "shd (snd r)"
  have "ascii_processes (proc_fs ?w)" using assms by (simp add: ascii_world_def shd_sset)
  then have "\<forall>dir\<in>set (dirs_of (proc_fs ?w)). \<forall>bs. cmdline_file dir = Some bs \<longrightarrow> list_all (\<lambda>b. b < 0x80) bs"
    by (auto simp: ascii_processes_def list_all_iff split: option.splits)
  then obtain answer res where
    "LinuxProcResolver_resolve (proc_fs ?w) (asked_at ?w) (walked_at ?w) (fst r) a b = Some (answer, res)"
    using resolver_returns by blast
  moreover have "ascii_world (res, stl (snd r))" using assms by (auto simp: ascii_world_def dest: stl_sset)
  ultimately show ?thesis by (simp add: linux_resolve_def)
qed

interpretation linux_answers: returning_resolver linux_resolve ascii_world
  by unfold_locales (rule linux_resolve_ascii)

text \<open>A \<open>/proc\<close> with one process, and frames of its connection.\<close>

definition sample_world :: "bytes \<Rightarrow> ProcReading stream" where
  "sample_world c = (let w = \<lparr>proc_fs = sample_fs c, asked_at = 5, walked_at = 6\<rparr> in w ## sconst w)"

definition local_ethernet :: etherparse where
  "local_ethernet bs =
     Some \<lparr>net = Some (Ipv4 0x7F000001 0x7F000002), transport = Some (Tcp 0x1234 443 bs)\<rparr>"

definition linux_setting :: "(unit, nat, LinuxResolver) Setting" where
  "linux_setting = (sample_setting linux_resolve)\<lparr>set_ethernet := local_ethernet\<rparr>"

lemma linux_setting_fields [simp]:
  "set_ethernet linux_setting = local_ethernet" "set_tls linux_setting = sample_parser"
  "set_resolve linux_setting = linux_resolve"
  by (simp_all add: linux_setting_def sample_setting_def)

lemma local_segment:
  "extract_tcp local_ethernet (frame_bytes sample_frame) = Some \<lparr>src_ip = V4 0x7F000001, dst_ip = V4 0x7F000002,
     src_port = 0x1234, dst_port = 443, seg_payload = [22, 3, 1]\<rparr>"
  by (simp add: extract_tcp_def local_ethernet_def sample_frame_def)

lemma linux_ready: "sys_reachable linux_setting r (sample_ready r)"
  by (rule run_moves_reachable [OF ready_run sys_start]) (simp_all add: linux_setting_def sample_setting_def)

lemma sample_world_ascii: "list_all (\<lambda>b. b < 0x80) c \<Longrightarrow> \<forall>w\<in>sset (sample_world c). ascii_processes (proc_fs w)"
  by (simp add: sample_world_def Let_def ascii_processes_def dirs_of_def sample_fs_def)

lemma default_resolver_world:
  "resolver (tracker_new (default_resolver (sample_world c)))
     = (LinuxProcResolver_new, \<lparr>proc_fs = sample_fs c, asked_at = 5, walked_at = 6\<rparr>
          ## sconst \<lparr>proc_fs = sample_fs c, asked_at = 5, walked_at = 6\<rparr>)"
  by (simp add: tracker_new_def with_stale_timeout_def default_resolver_def sample_world_def Let_def)

text \<open>
  C31. On Linux the tracker thread survives every run in which all the command lines are plain
  ASCII: under no schedule and over no frames does it panic, whatever else \<open>/proc\<close> says.
\<close>

theorem linux_tracker_survives:
  assumes "consuming (set_tls g)" and "set_resolve g = linux_resolve"
    and "\<forall>w\<in>sset world. ascii_processes (proc_fs w)"
    and "sys_reachable g (default_resolver world) s"
  shows "sys_tracker s \<noteq> TrackerPanicked"
proof -
  have "ascii_world (default_resolver world)" using assms(3) by (simp add: ascii_world_def default_resolver_def)
  moreover have "returning (set_resolve g) ascii_world" using linux_answers.returning assms(2) by simp
  ultimately show ?thesis using never_panics [OF assms(1) _ _ assms(4)] by blast
qed

theorem linux_tracker_survives_witness:
  "sys_tracker (sample_ready (default_resolver (sample_world [99]))) \<noteq> TrackerPanicked
    \<and> sys_reachable linux_setting (default_resolver (sample_world [99]))
        (sample_ready (default_resolver (sample_world [99])))"
  using linux_tracker_survives [OF _ _ sample_world_ascii linux_ready, of "[99]"] linux_ready
  by (simp add: consuming_sample_parser)

text \<open>
  C30. One process with an unlucky command line ends the tracker thread: when it takes up the first
  payload of a flow it does not know, without a snapshot of \<open>/proc\<close>, and the first process listed
  holds a listed socket and has a command line of 255 ASCII bytes followed by one from 0x80 on
  (not one of the two that count as white space), the thread panics and closes both channels.
\<close>

theorem non_ascii_process_ends_tracker:
  assumes "sys_tracker s = TrackerReceiving" and "ch_queue (sys_frames s) = frame # rest"
    and "extract_tcp (set_ethernet g) (frame_bytes frame) = Some seg" and "seg_payload seg \<noteq> []"
    and "hm_get (connections (sys_connections s))
      (canonical (src_ip seg) (src_port seg) (dst_ip seg) (dst_port seg)) = None"
    and "set_resolve g = linux_resolve" and "resolver (sys_connections s) = (LinuxProcResolver_new, w ## ws)"
    and "proc_dirs (proc_fs w) = Some (dir # dirs)" and "cmdline_file dir = Some (pre @ c # post)"
    and "length pre = 255" and "list_all (\<lambda>b. b < 0x80) pre" and "0x80 \<le> c" and "c \<notin> {0x85, 0xA0}"
    and "Option.bind (dir_name dir) parse_u32 = Some n" and "fd_links dir = Some fds"
    and "inode row \<in> link_inodes fds" and "read_sockets (proc_fs w) = Some socks" and "hm_get socks k = Some row"
  shows "\<exists>s'. tracker_step g now s = Some s' \<and> sys_tracker s' = TrackerPanicked
    \<and> ch_receiver (sys_frames s') = False"
proof -
  have "LinuxProcResolver_resolve (proc_fs w) (asked_at w) (walked_at w) LinuxProcResolver_new a b = None" for a b
    by (rule non_ascii_cmdline_panics [OF assms(9-13) assms(8) assms(14-18)])
  then have "linux_resolve (resolver (sys_connections s)) a b = None" for a b
    by (simp add: linux_resolve_def assms(7))
  then have "handle_frame (set_ethernet g) (set_tls g) (set_resolve g) now frame (sys_connections s) = None"
    using assms(3-6) by (simp add: handle_frame_def Let_def ingest_def ingest_entry_def)
  with assms(1,2) show ?thesis
    by (simp add: tracker_step_def receive_def end_defs drop_sender_def drop_receiver_def)
qed

theorem non_ascii_process_ends_tracker_witness:
  "\<exists>s. sys_reachable linux_setting (default_resolver (sample_world (replicate 255 97 @ [0xC3, 0xA9]))) s
    \<and> sys_tracker s = TrackerPanicked"
proof -
  let ?c = "replicate 255 97 @ [0xC3, 0xA9] :: bytes"
  let ?r = "default_resolver (sample_world ?c)"
  let ?dir = "\<lparr>dir_name = Some ''42'', fd_links = Some [Some (Some ''socket:[99]'')],
    comm_file = Some ''curl'', cmdline_file = Some ?c, status_file = None\<rparr> :: PidDir"
  let ?row = "\<lparr>inode = 99, row_uid = 1000\<rparr> :: SocketRow"
  have "\<exists>s'. tracker_step linux_setting 7 (sample_ready ?r) = Some s' \<and> sys_tracker s' = TrackerPanicked
    \<and> ch_receiver (sys_frames s') = False"
  proof (rule non_ascii_process_ends_tracker)
    show "ch_queue (sys_frames (sample_ready ?r)) = sample_frame # []" by simp
    show "extract_tcp (set_ethernet linux_setting) (frame_bytes sample_frame) = Some \<lparr>src_ip = V4 0x7F000001,
        dst_ip = V4 0x7F000002, src_port = 0x1234, dst_port = 443, seg_payload = [22, 3, 1]\<rparr>"
      by (simp add: local_segment)
    show "resolver (sys_connections (sample_ready ?r))
        = (LinuxProcResolver_new, \<lparr>proc_fs = sample_fs ?c, asked_at = 5, walked_at = 6\<rparr>
          ## sconst \<lparr>proc_fs = sample_fs ?c, asked_at = 5, walked_at = 6\<rparr>)"
      by (simp add: default_resolver_world)
    show "cmdline_file ?dir = Some (replicate 255 97 @ 0xC3 # [0xA9])" by simp
    show "proc_dirs (proc_fs \<lparr>proc_fs = sample_fs ?c, asked_at = 5, walked_at = 6\<rparr>) = Some (?dir # [])"
      by (simp add: sample_fs_def)
    show "Option.bind (dir_name ?dir) parse_u32 = Some 42" by (simp add: sample_pid)
    show "fd_links ?dir = Some [Some (Some ''socket:[99]'')]" by simp
    show "inode ?row \<in> link_inodes [Some (Some ''socket:[99]'')]" by (simp add: link_inodes_sample)
    show "read_sockets (proc_fs \<lparr>proc_fs = sample_fs ?c, asked_at = 5, walked_at = 6\<rparr>)
        = Some [(((V4 0x7F000001, 0x1234), (V4 0x7F000002, 443)), ?row)]"
      by (simp add: sample_sockets)
    show "hm_get [(((V4 0x7F000001, 0x1234), (V4 0x7F000002, 443)), ?row)]
      ((V4 0x7F000001, 0x1234), (V4 0x7F000002, 443)) = Some ?row"
      by (simp add: hm_get_def)
  qed (simp_all add: list_all_iff tracker_new_def with_stale_timeout_def hm.get_empty)
  then show ?thesis using sys_next [OF linux_ready tracker_moves] by blast
qed

text \<open>
  \<open>follows world r\<close>: the resolver has used up a prefix of the readings, and its snapshot, if it
  has one, is of one of the walks in it.
\<close>

definition follows :: "ProcReading stream \<Rightarrow> LinuxResolver \<Rightarrow> bool" where
  "follows world r \<longleftrightarrow> (\<exists>n. snd r = sdrop n world \<and> ttl (fst r) = CACHE_TTL_MS
     \<and> (\<forall>s. cache (fst r) = Some s \<longrightarrow> (\<exists>k<n. taken_at s = walked_at (world !! k)
          \<and> read_sockets (proc_fs (world !! k)) = Some (sockets s)
          \<and> read_procs (proc_fs (world !! k)) (sockets s) = Some (procs s))))"

lemma follows_default: "follows world (default_resolver world)"
  by (auto simp: follows_def default_resolver_def LinuxProcResolver_new_def intro: exI [of _ 0])

lemma follows_resolve:
  assumes "follows world r" and run: "linux_resolve r a b = Some (o', r')"
  shows "follows world r'
    \<and> (\<exists>n k socks. snd r = sdrop n world \<and> (k = n \<or> k < n \<and> asked_at (world !! n) < walked_at (world !! k) + CACHE_TTL_MS)
         \<and> read_sockets (proc_fs (world !! k)) = Some socks
         \<and> o' = attribution socks (dirs_of (proc_fs (world !! k))) a b)"
proof -
  obtain n where n: "snd r = sdrop n world" "ttl (fst r) = CACHE_TTL_MS"
    and old: "\<forall>s. cache (fst r) = Some s \<longrightarrow> (\<exists>k<n. taken_at s = walked_at (world !! k)
          \<and> read_sockets (proc_fs (world !! k)) = Some (sockets s)
          \<and> read_procs (proc_fs (world !! k)) (sockets s) = Some (procs s))"
    using assms(1) unfolding follows_def by blast
  let ?w = "world !! n"
  have shd: "shd (snd r) = ?w" "stl (snd r) = sdrop (Suc n) world"
    unfolding n(1) by (simp, simp only: sdrop_stl sdrop.simps)
  obtain s res where snap: "snapshot (proc_fs ?w) (asked_at ?w) (walked_at ?w) (fst r) = Some (s, res)"
    and o': "o' = origin_of s a b" and r': "r' = (res, sdrop (Suc n) world)"
    using run unfolding linux_resolve_def shd LinuxProcResolver_resolve_def by auto
  show ?thesis
  proof (cases "\<exists>s0. cache (fst r) = Some s0 \<and> \<not> ttl (fst r) \<le> asked_at ?w - taken_at s0")
    case True
    then have s: "cache (fst r) = Some s" "res = fst r" "\<not> ttl (fst r) \<le> asked_at ?w - taken_at s"
      using snap by (auto simp: snapshot_def)
    then obtain k where k: "k < n" "taken_at s = walked_at (world !! k)"
      "read_sockets (proc_fs (world !! k)) = Some (sockets s)"
      "read_procs (proc_fs (world !! k)) (sockets s) = Some (procs s)" using old by blast
    have "asked_at ?w < walked_at (world !! k) + CACHE_TTL_MS" using s(3) n(2) k(2) by linarith
    moreover have "o' = attribution (sockets s) (dirs_of (proc_fs (world !! k))) a b"
      using origin_of_walk [OF k(4), of "taken_at s" a b] o' by (cases s) simp
    moreover have "follows world r'"
      unfolding follows_def r' s(2) fst_conv snd_conv
    proof (rule exI [of _ "Suc n"], intro conjI allI impI)
      fix s1
      assume "cache (fst r) = Some s1"
      then show "\<exists>k<Suc n. taken_at s1 = walked_at (world !! k)
          \<and> read_sockets (proc_fs (world !! k)) = Some (sockets s1)
          \<and> read_procs (proc_fs (world !! k)) (sockets s1) = Some (procs s1)" using old by (meson less_SucI)
    qed (use n(2) in simp_all)
    ultimately show ?thesis using k n(1) by blast
  next
    case False
    then obtain ps where s: "read_sockets (proc_fs ?w) = Some (sockets s)" "read_procs (proc_fs ?w) (sockets s) = Some ps"
      "s = \<lparr>taken_at = walked_at ?w, sockets = sockets s, procs = ps\<rparr>" "res = (fst r)\<lparr>cache := Some s\<rparr>"
      using snap by (auto simp: snapshot_def bind_eq_Some_conv Let_def split: option.splits if_splits)
    have "o' = attribution (sockets s) (dirs_of (proc_fs ?w)) a b"
      using origin_of_walk [OF s(2)] o' s(3) by metis
    moreover have "taken_at s = walked_at ?w" "procs s = ps"
      by (subst s(3), simp)+
    then have "follows world r'"
      using s n(2) unfolding follows_def r' fst_conv snd_conv
      by (intro exI [of _ "Suc n"]) auto
    ultimately show ?thesis using s(1) n(1) by blast
  qed
qed

text \<open>
  C32. A flow is shown with its owner: in a run of the tracker thread from its start, over any
  frames, the update for the first payload of a flow that is not tracked carries, as the origin of
  the flow, what the specification of the attribution gives for its two endpoints and one \<open>/proc\<close>:
  the one of that moment, or the one of an earlier walk that the resolver still keeps, which is
  then less than the lifetime of the cache old.
\<close>

theorem linux_flow_attributed:
  assumes "tracker_thread from_ethernet tp linux_resolve frames (tracker_new (default_resolver world)) = Some (sent, t)"
    and "handle_frame from_ethernet tp linux_resolve now frame t = Some (evs, t')"
    and "extract_tcp from_ethernet (frame_bytes frame) = Some seg" and "seg_payload seg \<noteq> []"
    and "hm_get (connections t) (canonical (src_ip seg) (src_port seg) (dst_ip seg) (dst_port seg)) = None"
  shows "\<exists>st n k socks. hd evs = HandshakeUpdated st \<and> snd (resolver t) = sdrop n world
    \<and> (k = n \<or> k < n \<and> asked_at (world !! n) < walked_at (world !! k) + CACHE_TTL_MS)
    \<and> read_sockets (proc_fs (world !! k)) = Some socks
    \<and> origin (handshake st) = Some (attribution socks (dirs_of (proc_fs (world !! k)))
        (src_ip seg, src_port seg) (dst_ip seg, dst_port seg))"
  using assms(2)
proof (cases rule: handle_frame_elim)
  case skipped
  with assms(3) show ?thesis by simp
next
  case (segment seg' key out t1)
  with assms(3) have seg: "seg' = seg" by simp
  have pay: "seg_payload seg' \<noteq> []" using assms(4) seg by simp
  obtain o' where o': "linux_resolve (resolver t) (src_ip seg, src_port seg) (dst_ip seg, dst_port seg)
      = Some (o', resolver t1)"
    and conn: "\<exists>conn'. hm_get (connections t1) key = Some conn' \<and> origin (handshake (tc_state conn')) = Some o'"
    using ingest_origin [OF segment(3) pay] assms(5) segment(2) seg by auto
  obtain conn' where c: "hm_get (connections t1) key = Some conn'" "out = Inr (Some (tc_state conn'))"
    by (rule ingest_insert [OF segment(3) pay]) (auto simp: hm_get_insert)
  with conn have "hd evs = HandshakeUpdated (tc_state conn')" "origin (handshake (tc_state conn')) = Some o'"
    using segment(5) by auto
  moreover have "follows world (resolver t)"
    by (rule thread_resolver [OF assms(1)])
       (use follows_resolve follows_default in \<open>auto simp: tracker_new_def with_stale_timeout_def\<close>)
  ultimately show ?thesis using follows_resolve [OF _ o'] by blast
qed
theorem linux_flow_attributed_witness:
  "\<exists>evs t st p. handle_frame local_ethernet sample_parser linux_resolve 7 sample_frame
      (tracker_new (default_resolver (sample_world [99]))) = Some (evs, t)
    \<and> hd evs = HandshakeUpdated st \<and> origin (handshake st) = Some (Local p) \<and> pid p = 42"
proof -
  let ?t = "tracker_new (default_resolver (sample_world [99]))"
  have "ascii_world (resolver ?t)"
    using sample_world_ascii [of "[99]"]
    by (simp add: tracker_new_def with_stale_timeout_def default_resolver_def ascii_world_def)
  then obtain evs t where run: "handle_frame local_ethernet sample_parser linux_resolve 7 sample_frame ?t = Some (evs, t)"
    using frame_total [OF consuming_sample_parser linux_answers.returning] by blast
  let ?socks = "[(((V4 0x7F000001, 0x1234), (V4 0x7F000002, 443)), \<lparr>inode = 99, row_uid = 1000\<rparr>)] :: SocketTable"
  have start: "tracker_thread local_ethernet sample_parser linux_resolve [] ?t = Some ([], ?t)"
    and proc: "\<And>k. proc_fs (sample_world [99] !! k) = sample_fs [99]"
    by (simp, case_tac k) (simp_all add: sample_world_def Let_def)
  have "\<exists>st. hd evs = HandshakeUpdated st \<and> origin (handshake st) = Some (attribution ?socks
      (dirs_of (sample_fs [99])) (V4 0x7F000001, 0x1234) (V4 0x7F000002, 443))"
    using linux_flow_attributed [OF start run local_segment]
    by (simp add: proc sample_sockets tracker_new_def with_stale_timeout_def hm.get_empty) blast
  moreover have "\<exists>p. attribution ?socks (dirs_of (sample_fs [99])) (V4 0x7F000001, 0x1234) (V4 0x7F000002, 443)
      = Local p \<and> pid p = 42"
    by (simp add: attribution_def hm_get_def dirs_of_def sample_fs_def owner_row_def owns_sample sample_pid
        process_row_def read_cmdline_def Let_def trim_end_chars_def latin1_ws_def
        utf8_len_def latin1_width_def CMDLINE_MAX_LEN_def)
  ultimately show ?thesis using run by metis
qed

end
