(* ===== verification/Text_Layout.thy ===== *)
theory Text_Layout
  imports Sections
begin

text \<open>
  The text layout of \<open>src/src/ui/panels/right.rs\<close>: wrapping of styled lines with a hanging
  indent, and the scroll offset of the section list. What the terminal library does with the
  lines is not modelled; the display width it computes for a text is the parameter
  \<open>str_width\<close>.
\<close>

section \<open>Styled text\<close>

datatype Color = Cyan | ColorDarkGray | Green | White | Yellow | Red | Blue | Magenta | Orange

record TextStyle =
  fg :: "Color option"
  bold :: bool
  reversed :: bool
  italic :: bool

definition default_style :: TextStyle where
  "default_style = \<lparr>fg = None, bold = False, reversed = False, italic = False\<rparr>"

definition colored :: "Color \<Rightarrow> TextStyle" where
  "colored c = default_style\<lparr>fg := Some c\<rparr>"

type_synonym Span = "TextStyle \<times> string"
type_synonym StyledLine = "Span list"

fun style_of :: "Style \<Rightarrow> TextStyle" where
  "style_of RawStyle = default_style"
| "style_of DarkGray = colored ColorDarkGray"
| "style_of WireStyle = colored Green"
| "style_of HeaderStyle = (colored Cyan)\<lparr>bold := True\<rparr>"

definition styled_line :: "Line \<Rightarrow> StyledLine" where
  "styled_line l = map (\<lambda>(s, t). (style_of s, t)) l"

section \<open>Characters\<close>

text \<open>\<open>str::chars\<close>: a character is a byte with the continuation bytes after it.\<close>

definition continues :: "char \<Rightarrow> bool" where
  "continues c \<longleftrightarrow> 128 \<le> (of_char c :: nat) \<and> (of_char c :: nat) < 192"

function utf8_chars :: "string \<Rightarrow> string list" where
  "utf8_chars [] = []"
| "utf8_chars (c # cs) = (c # takeWhile continues cs) # utf8_chars (dropWhile continues cs)"
  by pat_completeness auto
termination
  by (relation "measure length") (auto simp: le_imp_less_Suc length_dropWhile_le)

type_synonym cell = "string \<times> TextStyle"

definition cells_of :: "StyledLine \<Rightarrow> cell list" where
  "cells_of l = concat (map (\<lambda>(st, t). map (\<lambda>c. (c, st)) (utf8_chars t)) l)"

section \<open>Wrapping\<close>

text \<open>\<open>while k > min_content && chars[k - 1].0 != ' ' { k -= 1; }\<close>\<close>

function break_at :: "cell list \<Rightarrow> nat \<Rightarrow> nat \<Rightarrow> nat exec" where
  "break_at cells min_content k =
     (if min_content < k
      then Option.bind (index cells (k - 1)) (\<lambda>c.
        if fst c \<noteq> '' '' then break_at cells min_content (k - 1) else Some k)
      else Some k)"
  by pat_completeness auto
termination
  by (relation "measure (\<lambda>(_, _, k). k)") auto

declare break_at.simps [simp del]

definition row_end :: "cell list \<Rightarrow> nat \<Rightarrow> nat \<Rightarrow> bool \<Rightarrow> nat \<Rightarrow> nat exec" where
  "row_end cells indent i is_first avail =
     (let n = length cells;
          hard_end = min (i + avail) n;
          min_content = (if is_first then i + indent + 1 else i + 1)
      in if hard_end < n
         then Option.bind (break_at cells min_content hard_end)
           (\<lambda>k. Some (if min_content < k then k else hard_end))
         else Some hard_end)"

text \<open>Consecutive characters of one style are one span.\<close>

fun coalesce_from :: "TextStyle \<Rightarrow> string \<Rightarrow> cell list \<Rightarrow> Span list" where
  "coalesce_from cur acc [] = [(cur, acc)]"
| "coalesce_from cur acc ((c, st) # rest) =
     (if st \<noteq> cur then (cur, acc) # coalesce_from st c rest
      else coalesce_from cur (acc @ c) rest)"

fun coalesce :: "cell list \<Rightarrow> Span list exec" where
  "coalesce [] = None"
| "coalesce ((c, st) # rest) = Some (coalesce_from st c rest)"

definition hanging :: "bool \<Rightarrow> nat \<Rightarrow> Span list" where
  "hanging is_first indent =
     (if \<not> is_first \<and> 0 < indent then [(default_style, replicate indent (CHR '' ''))] else [])"

lemma break_at_range:
  "break_at cells m k = Some e \<Longrightarrow> e \<le> k \<and> min m k \<le> e"
proof (induction cells m k rule: break_at.induct)
  case (1 cells m k)
  then show ?case
    by (subst (asm) (2) break_at.simps)
       (auto simp: bind_eq_Some_conv split: if_splits)
qed

lemma row_end_progress:
  assumes "row_end cells indent i is_first avail = Some e" and "i < length cells" and "0 < avail"
  shows "i < e" and "e \<le> i + avail" and "e \<le> length cells"
proof -
  have "i < e \<and> e \<le> i + avail \<and> e \<le> length cells"
    using assms
    by (auto simp: row_end_def Let_def bind_eq_Some_conv split: if_splits dest: break_at_range)
  then show "i < e" "e \<le> i + avail" "e \<le> length cells" by simp_all
qed

function wrap_rows :: "cell list \<Rightarrow> nat \<Rightarrow> nat \<Rightarrow> nat \<Rightarrow> bool \<Rightarrow> StyledLine list exec" where
  "wrap_rows cells width indent i is_first =
     (if i < length cells
      then let avail = (if is_first then width else width - indent) in
        if avail = 0 then Some []
        else Option.bind (row_end cells indent i is_first avail) (\<lambda>e.
          Option.bind (slice cells i e) (\<lambda>chunk.
            Option.bind (coalesce chunk) (\<lambda>spans.
              map_option ((#) (hanging is_first indent @ spans))
                (wrap_rows cells width indent e False))))
      else Some [])"
  by pat_completeness auto
termination
  by (relation "measure (\<lambda>(cells, _, _, i, _). length cells - i)")
     (auto dest: row_end_progress split: if_splits)

declare wrap_rows.simps [simp del]

definition line_width :: "(string \<Rightarrow> nat) \<Rightarrow> StyledLine \<Rightarrow> nat" where
  "line_width str_width l = sum_list (map (str_width \<circ> snd) l)"

text \<open>The leading spaces of the line, but fewer than its width.\<close>

definition hanging_indent :: "StyledLine \<Rightarrow> nat \<Rightarrow> nat" where
  "hanging_indent l width =
     min (length (takeWhile (\<lambda>c. c = '' '') (concat (map (utf8_chars \<circ> snd) l)))) (width - 1)"

definition wrap_line :: "(string \<Rightarrow> nat) \<Rightarrow> StyledLine \<Rightarrow> u16 \<Rightarrow> StyledLine list exec" where
  "wrap_line str_width l width =
     (let width_u = unat width in
      if width_u = 0 \<or> line_width str_width l \<le> width_u then Some [l]
      else wrap_rows (cells_of l) width_u (hanging_indent l width_u) 0 True)"

text \<open>\<open>wrap_lines_with_indent\<close>, and the loop of \<open>sections_view\<close> over the lines of a section.\<close>

definition wrap_lines_with_indent :: "(string \<Rightarrow> nat) \<Rightarrow> StyledLine list \<Rightarrow> u16 \<Rightarrow> StyledLine list exec" where
  "wrap_lines_with_indent str_width ls width =
     fold_exec (\<lambda>out l. map_option ((@) out) (wrap_line str_width l width)) [] ls"

section \<open>Characters make up their text\<close>

definition char_like :: "string \<Rightarrow> bool" where
  "char_like s \<longleftrightarrow> (\<exists>c cs. s = c # cs \<and> \<not> continues c \<and> list_all continues cs)"

text \<open>A text that is cut at characters, as every Rust string is.\<close>

definition well_cut :: "string \<Rightarrow> bool" where
  "well_cut s \<longleftrightarrow> s = [] \<or> \<not> continues (hd s)"

lemma takeWhile_continues:
  "list_all continues cs \<Longrightarrow> well_cut rest \<Longrightarrow>
     takeWhile continues (cs @ rest) = cs \<and> dropWhile continues (cs @ rest) = rest"
  by (induction cs) (auto simp: well_cut_def takeWhile_eq_Nil_iff dropWhile_eq_self_iff)

lemma concat_utf8_chars: "concat (utf8_chars s) = s"
  by (induction s rule: utf8_chars.induct) simp_all

lemma utf8_chars_char_like: "well_cut s \<Longrightarrow> list_all char_like (utf8_chars s)"
proof (induction s rule: utf8_chars.induct)
  case (2 c cs)
  have "well_cut (dropWhile continues cs)"
    unfolding well_cut_def using hd_dropWhile [of continues cs] by blast
  with 2 show ?case
    by (auto simp: char_like_def well_cut_def list_all_iff dest: set_takeWhileD)
qed simp

lemma char_like_well_cut: "list_all char_like cs \<Longrightarrow> well_cut (concat cs)"
  by (cases cs) (auto simp: char_like_def well_cut_def)

lemma utf8_chars_concat: "list_all char_like cs \<Longrightarrow> utf8_chars (concat cs) = cs"
proof (induction cs)
  case (Cons c cs)
  then obtain b bs where c: "c = b # bs" "list_all continues bs" by (auto simp: char_like_def)
  have "well_cut (concat cs)" using Cons.prems by (simp add: char_like_well_cut)
  with takeWhile_continues [OF c(2) this] Cons c show ?case by simp
qed simp

lemma cells_of_append: "cells_of (a @ b) = cells_of a @ cells_of b"
  by (simp add: cells_of_def)

lemma cells_of_coalesce:
  "list_all char_like acc \<Longrightarrow> list_all (char_like \<circ> fst) cs \<Longrightarrow>
     cells_of (coalesce_from cur (concat acc) cs) = map (\<lambda>c. (c, cur)) acc @ cs"
proof (induction cur "concat acc" cs arbitrary: acc rule: coalesce_from.induct)
  case (1 cur)
  then show ?case by (simp add: cells_of_def utf8_chars_concat)
next
  case (2 cur c st rest)
  show ?case
  proof (cases "st = cur")
    case True
    have "cells_of (coalesce_from cur (concat (acc @ [c])) rest) = map (\<lambda>c. (c, cur)) (acc @ [c]) @ rest"
      using "2.hyps"(2) [of "acc @ [c]"] "2.prems" True by simp
    with True show ?thesis by simp
  next
    case False
    have "cells_of (coalesce_from st (concat [c]) rest) = map (\<lambda>c. (c, st)) [c] @ rest"
      using "2.hyps"(1) [of "[c]"] "2.prems" False by simp
    with False "2.prems" show ?thesis
      by (simp add: cells_of_def utf8_chars_concat)
  qed
qed

text \<open>Neighbouring spans of a wrapped row differ in style.\<close>

lemma coalesce_total:
  assumes "chunk \<noteq> []" and "list_all (char_like \<circ> fst) chunk"
  shows "\<exists>spans. coalesce chunk = Some spans \<and> cells_of spans = chunk"
proof -
  obtain c st rest where c: "chunk = (c, st) # rest" using assms(1) by (cases chunk) auto
  with cells_of_coalesce [of "[c]" rest st] assms(2) show ?thesis by simp
qed

lemma cells_of_hanging:
  "cells_of (hanging is_first indent) = (if is_first then [] else replicate indent ('' '', default_style))"
proof -
  have "list_all char_like (replicate indent '' '')"
    by (simp add: list_all_iff char_like_def continues_def)
  from utf8_chars_concat [OF this] have "utf8_chars (replicate indent (CHR '' '')) = replicate indent '' ''"
    by (simp add: concat_replicate_single)
  then show ?thesis by (auto simp: hanging_def cells_of_def)
qed

section \<open>Every row is found\<close>

lemma break_at_total: "k \<le> length cells \<Longrightarrow> \<exists>e. break_at cells m k = Some e"
proof (induction cells m k rule: break_at.induct)
  case (1 cells m k)
  then show ?case
    by (subst break_at.simps) (cases k; auto)
qed

lemma row_end_total: "\<exists>e. row_end cells indent i is_first avail = Some e"
proof -
  let ?m = "if is_first then i + indent + 1 else i + 1" and ?h = "min (i + avail) (length cells)"
  obtain k where "break_at cells ?m ?h = Some k"
    using break_at_total [of ?h cells ?m] by auto
  then have "\<exists>e. (if ?h < length cells
      then Option.bind (break_at cells ?m ?h) (\<lambda>k. Some (if ?m < k then k else ?h)) else Some ?h) = Some e"
    by (simp only: Option.bind.simps split: if_split) blast
  then show ?thesis unfolding row_end_def Let_def .
qed

lemma wrap_rows_spec:
  assumes "list_all (char_like \<circ> fst) cells" and "indent < width"
  shows "\<exists>rows chunks. wrap_rows cells width indent i is_first = Some rows
    \<and> concat chunks = drop i cells \<and> [] \<notin> set chunks
    \<and> map cells_of rows = (case chunks of [] \<Rightarrow> []
        | c # cs \<Rightarrow> (cells_of (hanging is_first indent) @ c) # map ((@) (cells_of (hanging False indent))) cs)
    \<and> list_all (\<lambda>r. length (cells_of r) \<le> width) rows"
  using assms
proof (induction cells width indent i is_first rule: wrap_rows.induct)
  case (1 cells width indent i is_first)
  show ?case
  proof (cases "i < length cells")
    case False
    then show ?thesis
      by (subst wrap_rows.simps) (auto intro!: exI [of _ "[]"])
  next
    case True
    define avail where "avail = (if is_first then width else width - indent)"
    have avail: "0 < avail" using "1.prems"(2) by (auto simp: avail_def)
    obtain e where e: "row_end cells indent i is_first avail = Some e" using row_end_total by blast
    note range = row_end_progress [OF e True avail]
    define chunk where "chunk = take (e - i) (drop i cells)"
    have chunk: "slice cells i e = Some chunk" using range by (simp add: chunk_def)
    have "list_all (char_like \<circ> fst) chunk"
      using "1.prems"(1) by (auto simp: chunk_def list_all_iff dest: in_set_takeD in_set_dropD)
    moreover have nonempty: "chunk \<noteq> []" and len: "length chunk \<le> avail"
      using range True by (auto simp: chunk_def)
    ultimately obtain spans where spans: "coalesce chunk = Some spans" "cells_of spans = chunk"
      using coalesce_total by blast
    have "avail \<noteq> 0" using avail by simp
    from "1.IH" [OF True avail_def this e chunk spans(1) "1.prems"] obtain rows chunks where
      ih: "wrap_rows cells width indent e False = Some rows" "concat chunks = drop e cells" "[] \<notin> set chunks"
        "map cells_of rows = (case chunks of [] \<Rightarrow> []
          | c # cs \<Rightarrow> (cells_of (hanging False indent) @ c) # map ((@) (cells_of (hanging False indent))) cs)"
        "list_all (\<lambda>r. length (cells_of r) \<le> width) rows" by blast
    have run: "wrap_rows cells width indent i is_first = Some ((hanging is_first indent @ spans) # rows)"
      using True avail e chunk spans(1) ih(1)
      by (subst wrap_rows.simps) (simp add: avail_def [symmetric])
    have "concat (chunk # chunks) = drop i cells"
      using range by (simp add: chunk_def ih(2)) (metis append_take_drop_id drop_drop le_add_diff_inverse2 less_imp_le)
    moreover have "map cells_of ((hanging is_first indent @ spans) # rows) =
        (cells_of (hanging is_first indent) @ chunk) # map ((@) (cells_of (hanging False indent))) chunks"
      by (simp add: cells_of_append spans(2) ih(4) split: list.split)
    moreover have "length (cells_of (hanging is_first indent @ spans)) \<le> width"
      using len "1.prems"(2) by (auto simp: cells_of_append cells_of_hanging spans(2) avail_def)
    ultimately show ?thesis
      using run ih(3,5) nonempty by (intro exI [of _ "(hanging is_first indent @ spans) # rows"]
          exI [of _ "chunk # chunks"]) simp
  qed
qed

lemma cells_char_like:
  assumes "\<forall>(st, t)\<in>set l. well_cut t"
  shows "list_all (char_like \<circ> fst) (cells_of l)"
  using assms utf8_chars_char_like
  by (fastforce simp: cells_of_def list_all_iff)

section \<open>Scrolling\<close>

record SectionSpan =
  start :: usize
  len :: usize

text \<open>The arithmetic is on \<open>u32\<close>, into which \<open>as u32\<close> cuts the counts.\<close>

definition u32_saturating_sub :: "u32 \<Rightarrow> u32 \<Rightarrow> u32" where
  "u32_saturating_sub a b = (if b \<le> a then a - b else 0)"

definition scroll_offset :: "SectionSpan list \<Rightarrow> usize \<Rightarrow> u16 \<Rightarrow> u16" where
  "scroll_offset bounds selected inner_h =
     (if bounds = [] \<or> inner_h = 0 then 0
      else if length bounds \<le> selected then 0
      else let span = bounds ! selected;
               sel_start_row = word_of_nat (start span) :: u32;
               sel_height = word_of_nat (len span) :: u32;
               total_rows = word_of_nat (start (last bounds) + len (last bounds)) :: u32;
               h = ucast inner_h :: u32;
               max_scroll = u32_saturating_sub total_rows h;
               peek = 3;
               desired =
                 (if sel_height + peek \<le> h then u32_saturating_sub (sel_start_row + sel_height + peek) h
                  else if sel_height \<le> h then u32_saturating_sub (sel_start_row + sel_height) h
                  else sel_start_row);
               desired = max desired (u32_saturating_sub sel_start_row (u32_saturating_sub h 1));
               clamped = min (min desired max_scroll) sel_start_row
           in if unat clamped < 65536 then ucast clamped else - 1)"

lemma unat_saturating_sub: "unat (u32_saturating_sub a b) = unat a - unat b"
  by (auto simp: u32_saturating_sub_def unat_sub word_le_nat_alt)

lemma unat_plus_small:
  "unat a + unat b < 2 ^ 32 \<Longrightarrow> unat (a + b :: u32) = unat a + unat b"
  by (simp add: unat_word_ariths)

lemma unat_u32_of_nat: "n < 2 ^ 32 \<Longrightarrow> unat (word_of_nat n :: u32) = n"
  by (simp add: unat_of_nat)

lemma scroll_arith:
  fixes s n t h :: nat
  assumes "s + n \<le> t" and "0 < h"
  shows "min (min (max (if n + 3 \<le> h then s + n + 3 - h else if n \<le> h then s + n - h else s)
        (s - (h - 1))) (t - h)) s \<le> s
    \<and> (n \<le> h \<longrightarrow> s + n \<le> min (min (max (if n + 3 \<le> h then s + n + 3 - h
        else if n \<le> h then s + n - h else s) (s - (h - 1))) (t - h)) s + h)
    \<and> (h < n \<longrightarrow> min (min (max (if n + 3 \<le> h then s + n + 3 - h
        else if n \<le> h then s + n - h else s) (s - (h - 1))) (t - h)) s = min s (t - h))"
proof -
  consider "n + 3 \<le> h" | "h < n + 3" "n \<le> h" | "h < n" by linarith
  then show ?thesis using assms by cases (simp_all, linarith+)
qed

text \<open>
  With fewer than 65536 rows, a section that fits in the pane is wholly between the scroll offset
  and the bottom of the pane; one that is too tall starts at the top of the pane or, at the end
  of the list, is shown as far as the list goes.
\<close>

lemma span_in_view:
  assumes "selected < length bounds" and "inner_h \<noteq> 0"
    and "bounds ! selected = \<lparr>start = s, len = n\<rparr>" and "last bounds = \<lparr>start = t, len = m\<rparr>"
    and "s + n \<le> t + m" and "t + m < 65536"
  shows "unat (scroll_offset bounds selected inner_h) \<le> s
    \<and> (n \<le> unat inner_h \<longrightarrow> s + n \<le> unat (scroll_offset bounds selected inner_h) + unat inner_h)
    \<and> (unat inner_h < n \<longrightarrow>
         unat (scroll_offset bounds selected inner_h) = min s (t + m - unat inner_h))"
proof -
  let ?s = "word_of_nat s :: u32" and ?n = "word_of_nat n :: u32" and ?t = "word_of_nat (t + m) :: u32"
  let ?h = "ucast inner_h :: u32"
  have small: "s + n < 65536" "t + m < 65536" "s + n \<le> t + m"
    using assms(5,6) by simp_all
  have hb: "unat inner_h < 65536" "0 < unat inner_h"
    using unsigned_less [of inner_h, where ?'a = nat] assms(2) by (simp_all add: unat_gt_0)
  have "unat inner_h < 2 ^ 32" using hb(1) by (rule less_trans) simp
  then have h: "unat ?h = unat inner_h"
    using take_bit_nat_eq_self [of "unat inner_h" 32] by (simp only: unsigned_ucast_eq len_bit0 len_num1) simp
  have u: "unat ?s = s" "unat ?n = n" "unat ?t = t + m" "unat (?n + 3) = n + 3"
    "unat (?s + ?n + 3) = s + n + 3" "unat (?s + ?n) = s + n"
    using small by (simp_all add: unat_u32_of_nat unat_plus_small del: of_nat_add)
  define desired where "desired = max (if ?n + 3 \<le> ?h then u32_saturating_sub (?s + ?n + 3) ?h
      else if ?n \<le> ?h then u32_saturating_sub (?s + ?n) ?h else ?s)
    (u32_saturating_sub ?s (u32_saturating_sub ?h 1))"
  define clamped where "clamped = min (min desired (u32_saturating_sub ?t ?h)) ?s"
  have d: "unat desired = max (if n + 3 \<le> unat inner_h then s + n + 3 - unat inner_h
      else if n \<le> unat inner_h then s + n - unat inner_h else s) (s - (unat inner_h - 1))"
    by (auto simp: desired_def max_def word_le_nat_alt unat_saturating_sub u h)
  have c: "unat clamped = min (min (unat desired) (t + m - unat inner_h)) s"
    by (auto simp: clamped_def min_def word_le_nat_alt unat_saturating_sub u h simp del: of_nat_add)
  have cb: "unat clamped < 65536" using c small by simp
  have "bounds \<noteq> []" "\<not> length bounds \<le> selected" using assms(1) by auto
  then have "scroll_offset bounds selected inner_h = (if unat clamped < 65536 then ucast clamped else - 1)"
    unfolding scroll_offset_def Let_def clamped_def desired_def
    by (simp only: assms(2-4) SectionSpan.select_convs if_False simp_thms)
  also have "\<dots> = ucast clamped" using cb by simp
  finally have off: "unat (scroll_offset bounds selected inner_h) = unat clamped"
    using cb by (simp add: unsigned_ucast_eq take_bit_nat_eq_self)
  show ?thesis unfolding off c d by (rule scroll_arith [OF small(3) hb(2)])
qed

end
