(* ===== verification/Education_Text.thy ===== *)
theory Education_Text
  imports Sections Handshake_Model
begin

text \<open>
  The help texts: the constants of \<open>src/src/ui/sections.rs\<close> behind every topic, and the
  explanation of a stage from \<open>src/src/ui/education.rs\<close>.
\<close>

section \<open>Sections\<close>

definition EDU_CIPHER_OFFERED_SHORT :: string where
  "EDU_CIPHER_OFFERED_SHORT =
     ''The AEAD + hash pairs the client will accept, in preference order.''"

definition EDU_CIPHER_CHOSEN_SHORT :: string where
  "EDU_CIPHER_CHOSEN_SHORT =
     ''The one AEAD + hash pair the server picked from the client's list.''"

definition EDU_KEY_SHARE_SHORT :: string where
  "EDU_KEY_SHARE_SHORT =
     ''Ephemeral Diffie-Hellman public key(s). This is the actual key material on ''
     @ ''the wire.''"

definition EDU_SUPPORTED_VERSIONS_SHORT :: string where
  "EDU_SUPPORTED_VERSIONS_SHORT =
     ''Where the real TLS version negotiation happens in 1.3.''"

definition EDU_SIG_ALGS_SHORT :: string where
  "EDU_SIG_ALGS_SHORT =
     ''Signature schemes the client can verify. Constrains what the server signs ''
     @ ''with.''"

definition EDU_SUPPORTED_GROUPS_SHORT :: string where
  "EDU_SUPPORTED_GROUPS_SHORT =
     ''Every Diffie-Hellman group the client can use, key_share sent or not.''"

definition EDU_PSK_MODES_SHORT :: string where
  "EDU_PSK_MODES_SHORT =
     ''Whether resumption should also run a fresh Diffie-Hellman for forward secrecy.''"

definition EDU_PSK_SHORT :: string where
  "EDU_PSK_SHORT =
     ''Resumption tickets from a previous handshake. Also carries the MAC that ''
     @ ''proves possession.''"

definition EDU_EARLY_DATA_SHORT :: string where
  "EDU_EARLY_DATA_SHORT =
     ''Client wants to piggyback application data on the ClientHello (0-RTT).''"

definition EDU_CLIENT_RANDOM_SHORT :: string where
  "EDU_CLIENT_RANDOM_SHORT =
     ''32 bytes of client-side entropy. Feeds the key schedule as public salt.''"

definition EDU_SERVER_RANDOM_SHORT :: string where
  "EDU_SERVER_RANDOM_SHORT =
     ''32 bytes of server-side entropy. Also public salt into the key schedule.''"

definition EDU_SNI_SHORT :: string where
  "EDU_SNI_SHORT =
     ''The hostname the client wants. Sent in the clear: the biggest metadata leak ''
     @ ''in TLS 1.3.''"

definition EDU_ALPN_SHORT :: string where
  "EDU_ALPN_SHORT =
     ''Which application protocols the client speaks inside the TLS tunnel.''"

definition EDU_COOKIE_SHORT :: string where
  "EDU_COOKIE_SHORT =
     ''A stateless liveness token, echoed on the retried ClientHello.''"

definition EDU_OPAQUE_SHORT :: string where
  "EDU_OPAQUE_SHORT =
     ''SeeHandshake does not decode this extension. Raw bytes are shown as-is.''"

definition EDU_LEGACY_SHORT :: string where
  "EDU_LEGACY_SHORT =
     ''Non-crypto compatibility knobs kept so TLS 1.3 wire packets look like TLS 1.2 ''
     @ ''to middleboxes.''"

definition EDU_FRAMING_SHORT :: string where
  "EDU_FRAMING_SHORT =
     ''The 5-byte TLS record envelope. Same shape regardless of what's inside.''"

definition EDU_CCS_SHORT :: string where
  "EDU_CCS_SHORT =
     ''TLS 1.2: 'everything I send after this is encrypted with the new keys.' TLS ''
     @ ''1.3: legacy no-op.''"

definition EDU_UNKNOWN_SHORT :: string where
  "EDU_UNKNOWN_SHORT =
     ''A handshake message whose msg_type didn't match anything expected in the ''
     @ ''clear.''"

definition EDU_ENCRYPTED_STAGE_SHORT :: string where
  "EDU_ENCRYPTED_STAGE_SHORT =
     ''AEAD-encrypted. The label is inferred from flight position, not from ''
     @ ''decryption.''"

definition EDU_ENCRYPTED_CIPHERTEXT_SHORT :: string where
  "EDU_ENCRYPTED_CIPHERTEXT_SHORT =
     ''The first bytes of the AEAD payload. Opaque without the handshake traffic ''
     @ ''keys.''"

definition EDU_CIPHER_OFFERED_DETAILS :: "(string \<times> string) list" where
  "EDU_CIPHER_OFFERED_DETAILS =
     [(''Purpose'',
        ''Names one symmetric AEAD (bulk encryption) and one hash (key schedule) per ''
        @ ''entry. The server picks exactly one.''),
      (''Key type'',
        ''None here. This is the algorithm menu. The actual symmetric keys are derived ''
        @ ''later via HKDF.''),
      (''AEAD role'',
        ''Encrypts and authenticates every record after ServerHello. AES-GCM, AES-CCM, ''
        @ ''ChaCha20-Poly1305.''),
      (''Hash role'',
        ''SHA-256 or SHA-384. Feeds HKDF-Extract / HKDF-Expand, which turn the DH ''
        @ ''shared secret into traffic keys.''),
      (''TLS 1.3 change'',
        ''Only 5 suites in the base spec. TLS 1.2 had hundreds because it bundled key ''
        @ ''exchange + auth + MAC + cipher into one code.'')]"

definition EDU_CIPHER_CHOSEN_DETAILS :: "(string \<times> string) list" where
  "EDU_CIPHER_CHOSEN_DETAILS =
     [(''Purpose'',
        ''Locks in the algorithms that protect every record after this ServerHello.''),
      (''AEAD'',
        ''Produces (ciphertext, tag) from (key, nonce, plaintext, associated_data). The ''
        @ ''tag catches any bit-flip.''),
      (''Hash'',
        ''Used by HKDF to derive handshake-traffic keys, then application-traffic keys, ''
        @ ''from the shared secret.''),
      (''Keys involved'',
        ''Symmetric only. Distinct write keys for each direction, plus IVs, all derived ''
        @ ''per-connection.'')]"

definition EDU_KEY_SHARE_DETAILS :: "(string \<times> string) list" where
  "EDU_KEY_SHARE_DETAILS =
     [(''What's here'',
        ''One or more ephemeral public keys, each tagged with its Diffie-Hellman group. ''
        @ ''The private half stays on the sender; only the public half is on the wire.''),
      (''Byte encoding'',
        ''Fixed by the group. X25519: 32-byte little-endian u-coordinate. secp256r1: ''
        @ ''0x04 || X || Y, each 32 bytes big-endian. ffdhe2048: 256-byte big-endian y = ''
        @ ''g^x mod p. Hybrid PQ: classical pubkey || ML-KEM encapsulation key.''),
      (''Shared secret'',
        ''Client's private * Server's public == Server's private * Client's public ''
        @ ''(ECDH). Both sides compute the same secret without exchanging it. ''
        @ ''Forward-secret: the ephemeral keys are discarded after the handshake, so ''
        @ ''stealing the server's cert key later cannot decrypt captured traffic.'')]"

definition EDU_SUPPORTED_VERSIONS_DETAILS :: "(string \<times> string) list" where
  "EDU_SUPPORTED_VERSIONS_DETAILS =
     [(''Purpose'',
        ''Lists every TLS version the sender speaks. Server picks one and echoes it ''
        @ ''back in its own supported_versions.''),
      (''Why an extension?'',
        ''Middleboxes reject unfamiliar values in the legacy_version field. Moving the ''
        @ ''real version list into an extension keeps TLS 1.3 wire-compatible with those ''
        @ ''boxes.''),
      (''Keys involved'',
        ''None. Pure negotiation.'')]"

definition EDU_SIG_ALGS_DETAILS :: "(string \<times> string) list" where
  "EDU_SIG_ALGS_DETAILS =
     [(''Purpose'',
        ''Tells the server which signature schemes are acceptable in CertificateVerify. ''
        @ ''The server must pick one on this list or the handshake fails.''),
      (''Key type'',
        ''Asymmetric long-term. The server signs with the private key that matches its ''
        @ ''certificate.''),
      (''Where the private key lives'',
        ''On the server, typically in an HSM, key file, or platform key store. Never on ''
        @ ''the wire.''),
      (''What's signed'',
        ''A hash of the handshake transcript so far. This is what proves the server ''
        @ ''owns the certificate.''),
      (''Common schemes'',
        ''rsa_pss_rsae_sha256 (RSA-PSS), ecdsa_secp256r1_sha256 (ECDSA/P-256), ed25519 ''
        @ ''(EdDSA).'')]"

definition EDU_SUPPORTED_GROUPS_DETAILS :: "(string \<times> string) list" where
  "EDU_SUPPORTED_GROUPS_DETAILS =
     [(''Purpose'',
        ''If the server prefers a group the client did not speculatively send a key ''
        @ ''for, it can respond with HelloRetryRequest naming a group from this list.''),
      (''Keys involved'',
        ''None directly. This is the menu; key_share carries the actual ephemeral ''
        @ ''public keys for the groups the client bet on.''),
      (''Common groups'',
        ''X25519 (Curve25519, fast and constant-time), secp256r1 (NIST P-256), ''
        @ ''secp384r1 (NIST P-384).'')]"

definition EDU_PSK_MODES_DETAILS :: "(string \<times> string) list" where
  "EDU_PSK_MODES_DETAILS =
     [(''psk_ke'',
        ''Pure PSK. Keys are derived from the resumption secret alone. No forward ''
        @ ''secrecy against loss of that secret.''),
      (''psk_dhe_ke'',
        ''PSK + (EC)DHE. Keys mix the resumption secret with a fresh ephemeral shared ''
        @ ''secret. Preserves forward secrecy; almost always what real deployments use.''),
      (''Keys involved'',
        ''Symmetric resumption PSK, plus ephemeral DH keys when psk_dhe_ke is picked.'')]"

definition EDU_PSK_DETAILS :: "(string \<times> string) list" where
  "EDU_PSK_DETAILS =
     [(''Purpose'',
        ''TLS 1.3's session-resumption mechanism (and how 0-RTT early data is ''
        @ ''authenticated).''),
      (''Key type'',
        ''Symmetric. Each identity is an opaque ticket the server previously issued via ''
        @ ''NewSessionTicket; the shared PSK is derived from it.''),
      (''Binders'',
        ''MACs over the transcript, keyed with a secret derived from the resumption ''
        @ ''PSK. Proves the client actually holds the PSK, not just the ticket bytes.''),
      (''Where the PSK lives'',
        ''In the client's TLS session cache and, in some form, on the server. Never on ''
        @ ''the wire.'')]"

definition EDU_EARLY_DATA_DETAILS :: "(string \<times> string) list" where
  "EDU_EARLY_DATA_DETAILS =
     [(''Purpose'',
        ''Cuts a round trip: the client attaches request data to the ClientHello, ''
        @ ''encrypted under a key derived from a resumption PSK.''),
      (''Security cost'',
        ''0-RTT data is not forward-secret against loss of the PSK, and it is ''
        @ ''replayable by an attacker. Clients typically only use it for safe idempotent ''
        @ ''requests.''),
      (''Keys involved'',
        ''A symmetric early-traffic key derived from the resumption PSK, separate from ''
        @ ''the handshake and application traffic keys.'')]"

definition EDU_CLIENT_RANDOM_DETAILS :: "(string \<times> string) list" where
  "EDU_CLIENT_RANDOM_DETAILS =
     [(''Source'',
        ''Cryptographic RNG on the client (getrandom/urandom, RtlGenRandom, ...).''),
      (''Purpose'',
        ''Mixed into HKDF so two handshakes with identical parameters still derive ''
        @ ''different traffic keys.''),
      (''Public or secret?'',
        ''Public. It appears on the wire in the clear and is not itself a key.''),
      (''TLS 1.2 legacy'',
        ''The first 4 bytes used to be a Unix timestamp; TLS 1.3 dropped that ''
        @ ''convention, so all 32 bytes are now uniform random.'')]"

definition EDU_SERVER_RANDOM_DETAILS :: "(string \<times> string) list" where
  "EDU_SERVER_RANDOM_DETAILS =
     [(''Source'',
        ''Cryptographic RNG on the server.''),
      (''Purpose'',
        ''Mixed into HKDF alongside client_random and the DH shared secret. Ensures ''
        @ ''uniqueness even across replayed ClientHellos.''),
      (''Public or secret?'',
        ''Public. Not a key.''),
      (''HelloRetryRequest'',
        ''HRR is wire-encoded as a ServerHello whose random is ''
        @ ''SHA-256(\"HelloRetryRequest\"). That fixed value is how the client tells the ''
        @ ''two apart.'')]"

definition EDU_SNI_DETAILS :: "(string \<times> string) list" where
  "EDU_SNI_DETAILS =
     [(''Purpose'',
        ''Lets one IP address host many TLS sites: the server picks the certificate ''
        @ ''matching this name.''),
      (''Visibility'',
        ''Plaintext. Anyone on-path (ISPs, corporate proxies, coffee-shop wifi) can see ''
        @ ''which host you asked for even though the rest of the handshake is encrypted.''),
      (''Keys involved'',
        ''None. Pure routing information.''),
      (''ECH'',
        ''Encrypted Client Hello (draft) wraps SNI and other sensitive extensions in an ''
        @ ''outer ClientHello using a public key published in DNS. Not yet universal.'')]"

definition EDU_ALPN_DETAILS :: "(string \<times> string) list" where
  "EDU_ALPN_DETAILS =
     [(''Purpose'',
        ''The client and server agree on what to run on top of TLS (h2, http/1.1, ''
        @ ''something custom) before any data flows.''),
      (''Visibility'',
        ''Client's offers are in the clear. Server's selected value is inside ''
        @ ''EncryptedExtensions, so a passive observer sees the menu but not the answer.''),
      (''Keys involved'',
        ''None.'')]"

definition EDU_COOKIE_DETAILS :: "(string \<times> string) list" where
  "EDU_COOKIE_DETAILS =
     [(''Purpose'',
        ''Lets a server force a round trip before doing expensive key-exchange work. ''
        @ ''Useful against amplification attacks.''),
      (''Flow'',
        ''Server sends HelloRetryRequest with a cookie; client repeats the ClientHello ''
        @ ''including the cookie; server verifies it (usually via a MAC keyed with server ''
        @ ''state) without keeping per-client memory.''),
      (''Keys involved'',
        ''None on the wire. The server may MAC the cookie with a local key, but that ''
        @ ''key is server-side only.'')]"

definition EDU_OPAQUE_DETAILS :: "(string \<times> string) list" where
  "EDU_OPAQUE_DETAILS =
     [(''What to do'',
        ''Look up the extension type code in RFC 8446 or the IANA TLS ExtensionType ''
        @ ''Values registry.''),
      (''Are these bytes trustworthy?'',
        ''Yes. The parser hands the extension body through verbatim; only the ''
        @ ''interpretation is missing.'')]"

definition EDU_LEGACY_DETAILS :: "(string \<times> string) list" where
  "EDU_LEGACY_DETAILS =
     [(''legacy_version'',
        ''Frozen at 0x0303 (TLS 1.2). Real version negotiation moved into the ''
        @ ''supported_versions extension.''),
      (''session_id'',
        ''TLS 1.2 used this for stateful resumption. TLS 1.3 does resumption via ''
        @ ''pre_shared_key, so this field carries no protocol meaning. Clients send a ''
        @ ''random 32 bytes purely to look like TLS 1.2 on the wire.''),
      (''compression'',
        ''Always 0x00. TLS-layer compression was removed after CRIME (2012) showed it ''
        @ ''leaks secrets when attacker-controlled and secret data are compressed ''
        @ ''together.''),
      (''Keys involved'',
        ''None. This whole section is presentation, not security.'')]"

definition EDU_FRAMING_DETAILS :: "(string \<times> string) list" where
  "EDU_FRAMING_DETAILS =
     [(''Fields'',
        ''1 byte content type, 2 bytes legacy version (always 0x0303 on TLS 1.3), 2 ''
        @ ''bytes length. Then the payload.''),
      (''Content type'',
        ''handshake, application_data, change_cipher_spec, alert. Everything ''
        @ ''post-ServerHello is wrapped in application_data even when the plaintext ''
        @ ''underneath is a handshake message.''),
      (''Keys involved'',
        ''None in the header. The payload may or may not be AEAD-encrypted depending on ''
        @ ''where in the handshake we are.'')]"

definition EDU_CCS_DETAILS :: "(string \<times> string) list" where
  "EDU_CCS_DETAILS =
     [(''Wire format'',
        ''One byte of payload: 0x01. That's the whole message.''),
      (''TLS 1.2 role'',
        ''Cutover signal. The next record in the same direction is protected with the ''
        @ ''newly negotiated write key.''),
      (''TLS 1.3 role'',
        ''None functional. It's kept purely so middleboxes that expect it in the flow ''
        @ ''don't drop the connection.''),
      (''Keys involved'',
        ''None here. The keys are already derived at both ends; this message just tells ''
        @ ''the peer to start using them.'')]"

definition EDU_UNKNOWN_DETAILS :: "(string \<times> string) list" where
  "EDU_UNKNOWN_DETAILS =
     [(''Expected here'',
        ''Only ClientHello (1) and ServerHello / HelloRetryRequest (2) appear in the ''
        @ ''clear in TLS 1.3.''),
      (''Likely causes'',
        ''A non-TLS payload on the same port, a truncated capture, or a version ''
        @ ''mismatch where TLS 1.2 messages arrived unexpectedly.'')]"

definition EDU_ENCRYPTED_STAGE_DETAILS :: "(string \<times> string) list" where
  "EDU_ENCRYPTED_STAGE_DETAILS =
     [(''Why encrypted'',
        ''Everything after ServerHello is protected by handshake-traffic keys derived ''
        @ ''from the DH shared secret. A passive observer cannot see the inner content ''
        @ ''type or messages.''),
      (''How the label is picked'',
        ''By position: 1st server encrypted = likely EncryptedExtensions + Certificate, ''
        @ ''2nd = CertificateVerify + Finished, 3rd = NewSessionTicket. Client's 1st ''
        @ ''encrypted = Finished.''),
      (''Keys involved'',
        ''Symmetric handshake-traffic keys, one per direction, derived by HKDF from the ''
        @ ''DH shared secret plus the transcript hash.''),
      (''Caveat'',
        ''The label matches common OpenSSL/BoringSSL fragmentation. Servers that ''
        @ ''fragment differently will produce misleading labels; the tool cannot verify.'')]"

definition EDU_ENCRYPTED_CIPHERTEXT_DETAILS :: "(string \<times> string) list" where
  "EDU_ENCRYPTED_CIPHERTEXT_DETAILS =
     [(''What it is'',
        ''Real ciphertext as observed on the wire. AEAD output: ciphertext followed by ''
        @ ''a 16-byte authentication tag.''),
      (''How to decrypt'',
        ''You need the handshake traffic secret for this direction. It is derived ''
        @ ''inside each endpoint and never sent. A cooperating client can export it via ''
        @ ''SSLKEYLOGFILE. SeeHandshake does not yet consume that, but it is on the ''
        @ ''roadmap.''),
      (''Keys involved'',
        ''Symmetric AEAD key + per-record IV, both derived per-direction from the ''
        @ ''handshake or application traffic secret.'')]"

definition EDU_NEW_SESSION_TICKET_DETAILS :: "(string \<times> string) list" where
  "EDU_NEW_SESSION_TICKET_DETAILS =
     [(''Purpose'',
        ''An opaque ticket the client can present on a future ClientHello to skip most ''
        @ ''of the handshake (session resumption).''),
      (''TLS 1.2 vs 1.3'',
        ''TLS 1.2 sends it once, immediately after the server CCS. TLS 1.3 can send it ''
        @ ''any time after Finished, inside encrypted application_data records.''),
      (''Keys involved'',
        ''The ticket is opaque to the client. Internally the server derives a ''
        @ ''resumption PSK from it and its own long-term ticket-encryption key.'')]"

definition EDU_CERTIFICATE_DETAILS :: "(string \<times> string) list" where
  "EDU_CERTIFICATE_DETAILS =
     [(''Purpose'',
        ''The server's identity: an X.509 chain the client will verify against its ''
        @ ''trust store (system CAs, browser roots, etc.).''),
      (''Key type'',
        ''Asymmetric, long-term. The certificate carries a public key; the matching ''
        @ ''private key stays on the server.''),
      (''Visibility'',
        ''Plaintext in TLS 1.2, so anyone on-path can see the certificate. TLS 1.3 ''
        @ ''encrypts it inside the handshake flight.''),
      (''Trust check'',
        ''Client verifies the signature chain up to a trusted root, then checks the ''
        @ ''name in the leaf matches the SNI it sent.'')]"

definition EDU_SERVER_KEY_EXCHANGE_DETAILS :: "(string \<times> string) list" where
  "EDU_SERVER_KEY_EXCHANGE_DETAILS =
     [(''Purpose'',
        ''Carries the server's ephemeral (EC)DH public key so the two sides can derive ''
        @ ''a shared secret for this session only.''),
      (''Signature'',
        ''The (EC)DH parameters are signed with the certificate's private key. That ''
        @ ''binds this ephemeral key to the server's long-term identity.''),
      (''Why it matters'',
        ''This is what gives TLS 1.2 forward secrecy: the ephemeral key is discarded ''
        @ ''after use, so capturing the traffic and later stealing the cert key does not ''
        @ ''decrypt it.''),
      (''TLS 1.3 change'',
        ''TLS 1.3 dropped this message. The server's key_share goes in ServerHello, and ''
        @ ''the signature moves to CertificateVerify.'')]"

definition EDU_CERTIFICATE_REQUEST_DETAILS :: "(string \<times> string) list" where
  "EDU_CERTIFICATE_REQUEST_DETAILS =
     [(''Purpose'',
        ''Signals mutual TLS: the server wants a client certificate too, and lists ''
        @ ''which CAs and signature schemes it will accept.''),
      (''Keys involved'',
        ''None here. The client must present its own X.509 chain in a subsequent ''
        @ ''Certificate message and prove ownership with CertificateVerify.'')]"

definition EDU_SERVER_HELLO_DONE_DETAILS :: "(string \<times> string) list" where
  "EDU_SERVER_HELLO_DONE_DETAILS =
     [(''Purpose'',
        ''TLS 1.2 marker: the server's plaintext flight is done. The client should now ''
        @ ''respond with ClientKeyExchange, CCS, Finished.''),
      (''Wire format'',
        ''Four bytes exactly: 0x0e 0x00 0x00 0x00 (msg_type + zero-length body).''),
      (''TLS 1.3 change'',
        ''Removed. The server's flight is delimited by its Finished message instead.'')]"

definition EDU_CERTIFICATE_VERIFY_DETAILS :: "(string \<times> string) list" where
  "EDU_CERTIFICATE_VERIFY_DETAILS =
     [(''Purpose'',
        ''A signature over the handshake transcript hash, made with the certificate's ''
        @ ''private key. Proves the sender actually holds that private key.''),
      (''Keys involved'',
        ''Asymmetric long-term (signature). Uses one of the schemes offered in ''
        @ ''signature_algorithms.''),
      (''Where the private key lives'',
        ''On the endpoint that owns the certificate, usually an HSM, TPM, or protected ''
        @ ''key file. Never on the wire.'')]"

definition EDU_CLIENT_KEY_EXCHANGE_DETAILS :: "(string \<times> string) list" where
  "EDU_CLIENT_KEY_EXCHANGE_DETAILS =
     [(''Purpose'',
        ''Client's half of the (EC)DH exchange (ECDHE) or an RSA-encrypted premaster ''
        @ ''secret (legacy RSA suites).''),
      (''Forward secrecy'',
        ''Only preserved with ECDHE/DHE suites. Pure-RSA key exchange has been ''
        @ ''deprecated because a stolen server key can decrypt past captures.''),
      (''TLS 1.3 change'',
        ''Removed. The client sends its key_share in ClientHello, so the DH exchange is ''
        @ ''complete after ServerHello.'')]"

definition EDU_FINISHED_DETAILS :: "(string \<times> string) list" where
  "EDU_FINISHED_DETAILS =
     [(''Purpose'',
        ''HMAC over the full handshake transcript. Proves the sender saw the same ''
        @ ''handshake as the receiver, which catches man-in-the-middle tampering.''),
      (''Visibility'',
        ''Encrypted. TLS 1.2 sends it as a Handshake record right after ''
        @ ''ChangeCipherSpec; TLS 1.3 wraps it in an application_data record.''),
      (''Keys involved'',
        ''The verify_data is a MAC keyed with a secret derived from the master secret ''
        @ ''plus the transcript hash. Symmetric only.'')]"

definition EDU_CERT_STATUS_DETAILS :: "(string \<times> string) list" where
  "EDU_CERT_STATUS_DETAILS =
     [(''Purpose'',
        ''Server-stapled OCSP response: proof from the CA (or its responder) that the ''
        @ ''certificate has not been revoked.''),
      (''Why staple'',
        ''Saves the client from having to fetch OCSP itself (which leaks browsing to ''
        @ ''the CA and is often blocked).'')]"

definition EDU_KEY_UPDATE_DETAILS :: "(string \<times> string) list" where
  "EDU_KEY_UPDATE_DETAILS =
     [(''Purpose'',
        ''TLS 1.3 mid-connection rekey. Rotates the application-traffic secret via HKDF ''
        @ ''so long-lived connections don't reuse keys indefinitely.''),
      (''Directions'',
        ''Each side rekeys its own send direction. An `update_requested` flag can ask ''
        @ ''the peer to rekey theirs too.'')]"

text \<open>The texts the program attaches to a topic.\<close>

fun edu_short :: "EduTopic \<Rightarrow> string" where
  "edu_short EDU_CIPHER_OFFERED = EDU_CIPHER_OFFERED_SHORT"
| "edu_short EDU_CIPHER_CHOSEN = EDU_CIPHER_CHOSEN_SHORT"
| "edu_short EDU_KEY_SHARE = EDU_KEY_SHARE_SHORT"
| "edu_short EDU_SUPPORTED_VERSIONS = EDU_SUPPORTED_VERSIONS_SHORT"
| "edu_short EDU_SIG_ALGS = EDU_SIG_ALGS_SHORT"
| "edu_short EDU_SUPPORTED_GROUPS = EDU_SUPPORTED_GROUPS_SHORT"
| "edu_short EDU_PSK_MODES = EDU_PSK_MODES_SHORT"
| "edu_short EDU_PSK = EDU_PSK_SHORT"
| "edu_short EDU_EARLY_DATA = EDU_EARLY_DATA_SHORT"
| "edu_short EDU_CLIENT_RANDOM = EDU_CLIENT_RANDOM_SHORT"
| "edu_short EDU_SERVER_RANDOM = EDU_SERVER_RANDOM_SHORT"
| "edu_short EDU_SNI = EDU_SNI_SHORT"
| "edu_short EDU_ALPN = EDU_ALPN_SHORT"
| "edu_short EDU_COOKIE = EDU_COOKIE_SHORT"
| "edu_short EDU_OPAQUE = EDU_OPAQUE_SHORT"
| "edu_short EDU_LEGACY = EDU_LEGACY_SHORT"
| "edu_short EDU_FRAMING = EDU_FRAMING_SHORT"
| "edu_short EDU_CCS = EDU_CCS_SHORT"
| "edu_short EDU_UNKNOWN = EDU_UNKNOWN_SHORT"
| "edu_short EDU_ENCRYPTED_STAGE = EDU_ENCRYPTED_STAGE_SHORT"
| "edu_short EDU_ENCRYPTED_CIPHERTEXT = EDU_ENCRYPTED_CIPHERTEXT_SHORT"
| "edu_short EDU_NEW_SESSION_TICKET = 
     ''Server hands the client a resumption ticket for a faster future handshake.''"
| "edu_short EDU_CERTIFICATE = 
     ''Server's X.509 certificate chain, proving identity to the client.''"
| "edu_short EDU_SERVER_KEY_EXCHANGE = 
     ''Server's ephemeral (EC)DH public key, signed with its long-term certificate ''
     @ ''key.''"
| "edu_short EDU_CERTIFICATE_REQUEST = 
     ''Server asks the client for its own certificate (mutual TLS).''"
| "edu_short EDU_SERVER_HELLO_DONE = 
     ''Server signals its flight is complete. Client's turn now.''"
| "edu_short EDU_CERTIFICATE_VERIFY = 
     ''Signature over the transcript proving possession of the private key.''"
| "edu_short EDU_CLIENT_KEY_EXCHANGE = 
     ''Client's contribution to the (EC)DH key exchange.''"
| "edu_short EDU_FINISHED = 
     ''MAC over the whole transcript. First message under the newly derived keys.''"
| "edu_short EDU_CERT_STATUS = 
     ''Server-stapled OCSP response for its certificate.''"
| "edu_short EDU_KEY_UPDATE = 
     ''TLS 1.3 in-connection key rotation. Rekeys the application-traffic keys.''"

fun edu_details :: "EduTopic \<Rightarrow> (string \<times> string) list" where
  "edu_details EDU_CIPHER_OFFERED = EDU_CIPHER_OFFERED_DETAILS"
| "edu_details EDU_CIPHER_CHOSEN = EDU_CIPHER_CHOSEN_DETAILS"
| "edu_details EDU_KEY_SHARE = EDU_KEY_SHARE_DETAILS"
| "edu_details EDU_SUPPORTED_VERSIONS = EDU_SUPPORTED_VERSIONS_DETAILS"
| "edu_details EDU_SIG_ALGS = EDU_SIG_ALGS_DETAILS"
| "edu_details EDU_SUPPORTED_GROUPS = EDU_SUPPORTED_GROUPS_DETAILS"
| "edu_details EDU_PSK_MODES = EDU_PSK_MODES_DETAILS"
| "edu_details EDU_PSK = EDU_PSK_DETAILS"
| "edu_details EDU_EARLY_DATA = EDU_EARLY_DATA_DETAILS"
| "edu_details EDU_CLIENT_RANDOM = EDU_CLIENT_RANDOM_DETAILS"
| "edu_details EDU_SERVER_RANDOM = EDU_SERVER_RANDOM_DETAILS"
| "edu_details EDU_SNI = EDU_SNI_DETAILS"
| "edu_details EDU_ALPN = EDU_ALPN_DETAILS"
| "edu_details EDU_COOKIE = EDU_COOKIE_DETAILS"
| "edu_details EDU_OPAQUE = EDU_OPAQUE_DETAILS"
| "edu_details EDU_LEGACY = EDU_LEGACY_DETAILS"
| "edu_details EDU_FRAMING = EDU_FRAMING_DETAILS"
| "edu_details EDU_CCS = EDU_CCS_DETAILS"
| "edu_details EDU_UNKNOWN = EDU_UNKNOWN_DETAILS"
| "edu_details EDU_ENCRYPTED_STAGE = EDU_ENCRYPTED_STAGE_DETAILS"
| "edu_details EDU_ENCRYPTED_CIPHERTEXT = EDU_ENCRYPTED_CIPHERTEXT_DETAILS"
| "edu_details EDU_NEW_SESSION_TICKET = EDU_NEW_SESSION_TICKET_DETAILS"
| "edu_details EDU_CERTIFICATE = EDU_CERTIFICATE_DETAILS"
| "edu_details EDU_SERVER_KEY_EXCHANGE = EDU_SERVER_KEY_EXCHANGE_DETAILS"
| "edu_details EDU_CERTIFICATE_REQUEST = EDU_CERTIFICATE_REQUEST_DETAILS"
| "edu_details EDU_SERVER_HELLO_DONE = EDU_SERVER_HELLO_DONE_DETAILS"
| "edu_details EDU_CERTIFICATE_VERIFY = EDU_CERTIFICATE_VERIFY_DETAILS"
| "edu_details EDU_CLIENT_KEY_EXCHANGE = EDU_CLIENT_KEY_EXCHANGE_DETAILS"
| "edu_details EDU_FINISHED = EDU_FINISHED_DETAILS"
| "edu_details EDU_CERT_STATUS = EDU_CERT_STATUS_DETAILS"
| "edu_details EDU_KEY_UPDATE = EDU_KEY_UPDATE_DETAILS"

section \<open>Stages\<close>

fun explain :: "HandshakeStage \<Rightarrow> string" where
  "explain HandshakeStage.Idle = []"
| "explain HandshakeStage.ClientHello =
     ''The client opens the handshake in the clear. It advertises the TLS versions ''
     @ ''it supports, the cipher suites it will accept, the named groups (elliptic ''
     @ ''curves) it can use for key exchange, and, via extensions, a Server Name ''
     @ ''Indication (SNI), an Application-Layer Protocol Negotiation (ALPN) list, and ''
     @ ''one or more key-share public keys.''"
| "explain HandshakeStage.ServerHello =
     ''The server responds, still in the clear. It picks exactly one cipher suite ''
     @ ''and one named group from the client's offers, and returns its own key-share ''
     @ ''public value for that group. From this point onward both endpoints can derive ''
     @ ''the handshake traffic keys, and every following record is encrypted.''"
| "explain HandshakeStage.Certificate =
     ''The server sends three encrypted records in a single flight: ''
     @ ''EncryptedExtensions (containing extensions such as the chosen ALPN protocol), ''
     @ ''Certificate (the server's certificate chain proving its identity), and ''
     @ ''CertificateVerify (a signature over the handshake transcript proving ''
     @ ''possession of the private key). A passive observer without the session keys ''
     @ ''cannot read any of these records.''"
| "explain HandshakeStage.ServerCertificate =
     ''In TLS 1.2 the server sends its certificate chain in the clear. A passive ''
     @ ''observer can read the full certificate, extract the subject and issuer DN, ''
     @ ''and verify the chain. This is one of the key differences from TLS 1.3, which ''
     @ ''encrypts the certificate.''"
| "explain HandshakeStage.ServerKeyExchange =
     ''For cipher suites using ephemeral Diffie-Hellman (DHE or ECDHE), the server ''
     @ ''sends its public key share in the clear. This message is omitted for RSA ''
     @ ''key-exchange suites. The server signs the parameters to prove possession of ''
     @ ''the private key.''"
| "explain HandshakeStage.ServerHelloDone =
     ''ServerHelloDone is a one-byte marker the server sends to signal the end of ''
     @ ''its initial plaintext flight (ServerHello + optional Certificate + optional ''
     @ ''ServerKeyExchange). It tells the client the server is ready for the client's ''
     @ ''response.''"
| "explain HandshakeStage.ClientKeyExchange =
     ''In TLS 1.2 the client sends its key material in the clear (for RSA: the ''
     @ ''pre-master secret encrypted with the server's public key; for DHE/ECDHE: the ''
     @ ''client's public share). Both sides can now independently derive the master ''
     @ ''secret and session keys.''"
| "explain HandshakeStage.ClientFinished =
     ''The client sends its encrypted Finished message, an HMAC over the entire ''
     @ ''handshake transcript, keyed with a secret derived from the handshake key ''
     @ ''schedule. This confirms that the client received and authenticated the ''
     @ ''server's messages, and prevents downgrade and tampering attacks on the ''
     @ ''negotiation.''"
| "explain HandshakeStage.ServerFinished =
     ''The server sends its encrypted Finished message, an HMAC over the handshake ''
     @ ''transcript analogous to the client's. Once both Finished messages have been ''
     @ ''exchanged and verified, both sides derive the application-traffic keys and ''
     @ ''the handshake is complete.''"
| "explain HandshakeStage.ApplicationData =
     ''The handshake is complete. Both sides have switched to application-traffic ''
     @ ''keys and are exchanging protected application data (for example, HTTP/2 ''
     @ ''frames). Every record from this point forward is encrypted with the ''
     @ ''negotiated cipher suite.''"
| "explain HandshakeStage.Errored =
     ''The parser reported a fatal error for this connection. This is usually a ''
     @ ''truncated capture or a non-TLS payload on port 443; occasionally it is a ''
     @ ''malformed handshake.''"

end
