(* ===== verification/Address_Text.thy ===== *)
theory Address_Text
  imports Connection Rust_Text
begin

text \<open>
  The text of addresses and keys: \<open>Display\<close> of the standard library's \<open>IpAddr\<close>, and of
  \<open>ConnectionKey\<close> in \<open>src/src/model/connection.rs\<close>.
\<close>

section \<open>Addresses\<close>

definition ipv4_text :: "u32 \<Rightarrow> string" where
  "ipv4_text ip = join ''.'' (map (\<lambda>b. dec (unat b)) (u32_to_be_bytes ip))"

text \<open>The eight 16-bit groups of an IPv6 address.\<close>

definition segments :: "128 word \<Rightarrow> nat list" where
  "segments ip = map (\<lambda>i. unat ip div 65536 ^ (7 - i) mod 65536) [0..<8]"

text \<open>The first longest run of zero groups, as where it starts and its length.\<close>

fun zero_runs :: "nat \<Rightarrow> nat \<times> nat \<Rightarrow> nat \<times> nat \<Rightarrow> nat list \<Rightarrow> nat \<times> nat" where
  "zero_runs i current longest [] = longest"
| "zero_runs i current longest (s # ss) =
     (if s = 0
      then let current = (if snd current = 0 then (i, 1) else (fst current, snd current + 1));
               longest = (if snd longest < snd current then current else longest)
           in zero_runs (i + 1) current longest ss
      else zero_runs (i + 1) (0, 0) longest ss)"

definition groups_text :: "nat list \<Rightarrow> string" where
  "groups_text ss = join '':'' (map hex_nat ss)"

definition ipv6_text :: "128 word \<Rightarrow> string" where
  "ipv6_text ip =
     (let ss = segments ip in
      if take 6 ss = [0, 0, 0, 0, 0, 65535]
      then ''::ffff:'' @ ipv4_text (word_of_nat (unat ip mod 2 ^ 32))
      else (case zero_runs 0 (0, 0) (0, 0) ss of (first, n) \<Rightarrow>
        if 1 < n
        then groups_text (take first ss) @ ''::'' @ groups_text (drop (first + n) ss)
        else groups_text ss))"

fun ip_text :: "IpAddr \<Rightarrow> string" where
  "ip_text (V4 ip) = ipv4_text ip"
| "ip_text (V6 ip) = ipv6_text ip"

section \<open>Keys\<close>

definition ConnectionKey_to_string :: "ConnectionKey \<Rightarrow> string" where
  "ConnectionKey_to_string k =
     ip_text (client_ip k) @ '':'' @ dec (unat (client_port k)) @ '' '' @ [CHR 0xE2, CHR 0x86, CHR 0x92]
     @ '' '' @ ip_text (server_ip k) @ '':'' @ dec (unat (server_port k))"

end
