(* ===== verification/Panel_Right.thy ===== *)
theory Panel_Right
  imports Text_Layout Education_Text Address_Text App_Invariant
begin

text \<open>
  \<open>src/src/ui/panels/right.rs\<close> and \<open>metadata.rs\<close>: the lines of the right pane, the metadata
  of the connection or the sections of the selected record with the position of each, and the
  scroll offset they are drawn at. Drawing itself belongs to the terminal library.
\<close>

declare exec_bind_weak_cong [cong del]

section \<open>Sections\<close>

definition triangle :: string where
  "triangle = [CHR 0xE2, CHR 0x96, CHR 0xB6]"

definition middle_dot :: string where
  "middle_dot = [CHR 0xC2, CHR 0xB7]"

definition rule_char :: string where
  "rule_char = [CHR 0xE2, CHR 0x94, CHR 0x80]"

definition separator_line :: "u16 \<Rightarrow> StyledLine" where
  "separator_line inner_w = [(colored Orange, repeat_str rule_char (max (unat inner_w) 1))]"

definition record_label :: "RecordEvent \<Rightarrow> string" where
  "record_label r =
     (case body r of
        RecordBody.Handshake hs \<Rightarrow>
          (case hs of
             DecodedHandshake.ClientHello _ \<Rightarrow> ''ClientHello''
           | DecodedHandshake.ServerHello _ \<Rightarrow> ''ServerHello''
           | DecodedHandshake.HelloRetryRequest _ \<Rightarrow> ''HelloRetryRequest''
           | DecodedHandshake.Unknown msg_type _ \<Rightarrow> handshake_type_name msg_type)
      | RecordBody.EncryptedHandshake inferred_label _ \<Rightarrow> inferred_label
      | RecordBody.ChangeCipherSpec \<Rightarrow> ''ChangeCipherSpec'')"

definition section_title_line :: "Section \<Rightarrow> bool \<Rightarrow> StyledLine" where
  "section_title_line s is_selected =
     [(colored Cyan, if is_selected then triangle @ '' '' else ''  ''),
      ((colored Cyan)\<lparr>bold := True, reversed := is_selected\<rparr>, title s),
      (default_style, ''  ''),
      (colored ColorDarkGray, middle_dot @ '' '' @ direction_hint s)]"

definition education_lines :: "Section \<Rightarrow> StyledLine list" where
  "education_lines s =
     [(default_style, ''    ''), ((colored ColorDarkGray)\<lparr>italic := True\<rparr>, edu_short (edu s))]
     # map (\<lambda>(label, txt). [(default_style, ''    ''), ((colored Cyan)\<lparr>bold := True\<rparr>, label @ '': ''),
                             (colored White, txt)]) (edu_details (edu s))"

definition render_section :: "Section \<Rightarrow> bool \<Rightarrow> bool \<Rightarrow> StyledLine list" where
  "render_section s is_selected show_education =
     section_title_line s is_selected
     # map (\<lambda>vl. (default_style, ''    '') # styled_line vl) (value_lines s)
     @ (if show_education then education_lines s else [])"

text \<open>One turn of the loop over the sections: the lines so far and where the sections are.\<close>

definition view_section ::
  "(string \<Rightarrow> nat) \<Rightarrow> u16 \<Rightarrow> usize \<Rightarrow> bool \<Rightarrow> StyledLine list \<times> SectionSpan list
     \<Rightarrow> nat \<times> Section \<Rightarrow> (StyledLine list \<times> SectionSpan list) exec" where
  "view_section str_width inner_w sel show_education st sec =
     (case (st, sec) of ((ls, bounds), (i, s)) \<Rightarrow> do {
        let ls = (if 0 < i then ls @ [separator_line inner_w] else ls);
        let first = length ls;
        rows \<leftarrow> wrap_lines_with_indent str_width (render_section s (sel = i) show_education) inner_w;
        let ls = ls @ rows;
        Some (ls @ [[]], bounds @ [\<lparr>start = first, len = length ls - first\<rparr>])
      })"

definition sections_view ::
  "(string \<Rightarrow> nat) \<Rightarrow> App \<Rightarrow> u16 \<Rightarrow> (string \<times> StyledLine list \<times> SectionSpan list) exec" where
  "sections_view str_width app inner_w = do {
     secs \<leftarrow> app_sections app;
     (if secs = [] then
        Some (''Sections'',
          [[(colored ColorDarkGray, ''No record selected. Arrow through the Records pane to explore.'')]], [])
      else do {
        let record_label = (case record_selected app of Some r \<Rightarrow> record_label r | None \<Rightarrow> ''record'');
        (ls, bounds) \<leftarrow> fold_exec
          (view_section str_width inner_w (app_section_index app) (app_education app))
          ([], []) (enumerate 0 secs);
        Some (''Sections '' @ em_dash @ '' '' @ record_label, ls, bounds)
      })
   }"

section \<open>The loop keeps track of every section\<close>

lemma wrap_rows_total: "\<exists>rows. wrap_rows cells w indent i is_first = Some rows"
proof (induction cells w indent i is_first rule: wrap_rows.induct)
  case (1 cells width indent i is_first)
  define avail where "avail = (if is_first then width else width - indent)"
  show ?case
  proof (cases "i < length cells \<and> avail \<noteq> 0")
    case True
    obtain e where e: "row_end cells indent i is_first avail = Some e" using row_end_total by blast
    have range: "i < e" "e \<le> length cells"
      using row_end_progress [OF e] True by auto
    obtain chunk where chunk: "slice cells i e = Some chunk" "chunk \<noteq> []"
      using range by (auto simp: slice_def)
    obtain spans where spans: "coalesce chunk = Some spans"
      using chunk(2) by (cases chunk rule: coalesce.cases) auto
    have "\<exists>rows. wrap_rows cells width indent e False = Some rows"
      using "1.IH" [OF _ avail_def _ e chunk(1) spans] True by blast
    with True e chunk(1) spans show ?thesis
      by (subst wrap_rows.simps) (auto simp: avail_def [symmetric])
  next
    case False
    then show ?thesis by (subst wrap_rows.simps) (auto simp: avail_def Let_def)
  qed
qed

lemma wrap_line_total: "\<exists>rows. wrap_line str_width l w = Some rows"
  using wrap_rows_total by (auto simp: wrap_line_def Let_def)

lemma wrap_lines_total: "\<exists>rows. wrap_lines_with_indent str_width ls w = Some rows"
  unfolding wrap_lines_with_indent_def
  using wrap_line_total by (intro fold_exec_total) (metis option.simps(9))

declare exec_bind_weak_cong [cong del]

text \<open>
  A span is the position of the rows of a section: they are there, after \<open>from\<close> lines at least,
  and there is a blank line after them.
\<close>

definition places ::
  "(string \<Rightarrow> nat) \<Rightarrow> u16 \<Rightarrow> usize \<Rightarrow> bool \<Rightarrow> StyledLine list \<Rightarrow> nat \<Rightarrow> nat \<Rightarrow> Section \<Rightarrow> SectionSpan \<Rightarrow> bool" where
  "places str_width w sel edu_on ls from i s sp \<longleftrightarrow>
     (\<exists>rows. wrap_lines_with_indent str_width (render_section s (sel = i) edu_on) w = Some rows
        \<and> len sp = length rows \<and> take (len sp) (drop (start sp) ls) = rows
        \<and> start sp + len sp < length ls \<and> from \<le> start sp)"

lemma places_append:
  "places str_width w sel e ls from i s sp \<Longrightarrow> places str_width w sel e (ls @ later) from i s sp"
  by (auto simp: places_def)

lemma places_weaken:
  "places str_width w sel e ls from i s sp \<Longrightarrow> from' \<le> from \<Longrightarrow> places str_width w sel e ls from' i s sp"
  by (auto simp: places_def)

lemma view_section_places:
  "\<exists>ls' sp. view_section str_width w sel e (ls, bounds) (i, s) = Some (ls @ ls', bounds @ [sp])
     \<and> places str_width w sel e (ls @ ls') (length ls) i s sp"
proof -
  obtain rows where rows: "wrap_lines_with_indent str_width (render_section s (sel = i) e) w = Some rows"
    using wrap_lines_total by blast
  let ?sep = "if 0 < i then [separator_line w] else []"
  let ?sp = "\<lparr>start = length (ls @ ?sep), len = length rows\<rparr>"
  have "view_section str_width w sel e (ls, bounds) (i, s) = Some (ls @ ?sep @ rows @ [[]], bounds @ [?sp])"
    by (simp add: view_section_def rows Let_def)
  moreover have "places str_width w sel e (ls @ ?sep @ rows @ [[]]) (length ls) i s ?sp"
    by (auto simp: places_def rows)
  ultimately show ?thesis by blast
qed

lemma sections_loop:
  "\<exists>ls' new. fold_exec (view_section str_width w sel e) (ls, bounds) (enumerate k secs)
       = Some (ls @ ls', bounds @ new)
     \<and> length new = length secs
     \<and> (\<forall>j<length secs. places str_width w sel e (ls @ ls') (length ls) (k + j) (secs ! j) (new ! j))
     \<and> (\<forall>j<length secs. \<forall>i\<le>j. start (new ! i) + len (new ! i) \<le> start (new ! j) + len (new ! j))"
proof (induction secs arbitrary: k ls bounds)
  case (Cons s secs)
  obtain ls1 sp where 1: "view_section str_width w sel e (ls, bounds) (k, s) = Some (ls @ ls1, bounds @ [sp])"
    "places str_width w sel e (ls @ ls1) (length ls) k s sp"
    using view_section_places by blast
  obtain ls2 new where 2: "fold_exec (view_section str_width w sel e) (ls @ ls1, bounds @ [sp])
      (enumerate (Suc k) secs) = Some ((ls @ ls1) @ ls2, (bounds @ [sp]) @ new)"
    "length new = length secs"
    "\<forall>j<length secs. places str_width w sel e ((ls @ ls1) @ ls2) (length (ls @ ls1)) (Suc k + j) (secs ! j) (new ! j)"
    "\<forall>j<length secs. \<forall>i\<le>j. start (new ! i) + len (new ! i) \<le> start (new ! j) + len (new ! j)"
    using Cons.IH [of "ls @ ls1" "bounds @ [sp]" "Suc k"] by blast
  have "places str_width w sel e (ls @ ls1 @ ls2) (length ls) (k + j) ((s # secs) ! j) ((sp # new) ! j)"
    if "j < Suc (length secs)" for j
  proof (cases j)
    case 0
    with places_append [OF 1(2), of ls2] show ?thesis by simp
  next
    case (Suc j')
    with that 2(3) have "places str_width w sel e (ls @ ls1 @ ls2) (length (ls @ ls1)) (k + j) (secs ! j') (new ! j')"
      by simp
    then have "places str_width w sel e (ls @ ls1 @ ls2) (length ls) (k + j) (secs ! j') (new ! j')"
      by (rule places_weaken) simp
    with Suc show ?thesis by simp
  qed
  moreover have "start ((sp # new) ! i) + len ((sp # new) ! i) \<le> start ((sp # new) ! j) + len ((sp # new) ! j)"
    if "j < Suc (length secs)" "i \<le> j" for i j
  proof (cases i)
    case 0
    have "start sp + len sp < length (ls @ ls1)" using 1(2) by (auto simp: places_def)
    moreover have "length (ls @ ls1) \<le> start (new ! j')" if "j' < length secs" for j'
      using 2(3) that by (auto simp: places_def)
    ultimately show ?thesis using 0 that(1) by (cases j) (auto intro: order_trans less_imp_le trans_le_add1)
  next
    case (Suc i')
    with that 2(4) show ?thesis by (cases j) auto
  qed
  ultimately show ?case
    using 1(1) 2(1,2) by (intro exI [of _ "ls1 @ ls2"] exI [of _ "sp # new"]) (simp add: enumerate_simps)
qed simp

declare exec_bind_weak_cong [cong del]

section \<open>Metadata\<close>

definition bold_style :: TextStyle where
  "bold_style = default_style\<lparr>bold := True\<rparr>"

definition field :: "string \<Rightarrow> string \<Rightarrow> StyledLine" where
  "field label val = [(bold_style, pad_right 16 label), (default_style, val)]"

definition or_dash :: "string option \<Rightarrow> string" where
  "or_dash s = (case s of None \<Rightarrow> em_dash | Some t \<Rightarrow> t)"

definition handshake_metadata_lines :: "HandshakeInfo \<Rightarrow> StyledLine list" where
  "handshake_metadata_lines hs =
     [field ''TLS Version'' (or_dash (map_option TlsVersion_fmt (tls_version hs))),
      field ''SNI'' (or_dash (sni hs)),
      field ''Cipher'' (or_dash (map_option CipherSuite_fmt (cipher_suite_selected hs))),
      field ''Key Exchange'' (or_dash (map_option NamedGroup_fmt (key_share_group hs))),
      field ''ALPN offered''
        (if alpn_offered hs = [] then em_dash else join '', '' (alpn_offered hs)),
      field ''ALPN selected''
        (case alpn_selected hs of None \<Rightarrow> ''encrypted (TLS 1.3)'' | Some a \<Rightarrow> a),
      field ''Cert Subject'' (or_dash (certificate_subject hs)),
      field ''Cert Issuer'' (or_dash (certificate_issuer hs))]"

fun origin_line :: "Origin option \<Rightarrow> StyledLine list option" where
  "origin_line None = None"
| "origin_line (Some (Local p)) =
     Some ([(bold_style, pad_right 16 ''Origin''), (colored Green, comm p),
            (colored ColorDarkGray, '' (pid '' @ dec (unat (pid p)) @ '', uid '' @ dec (unat (uid p)) @ '')'')]
       # (if cmdline p \<noteq> [] \<and> cmdline p \<noteq> comm p
          then [[(default_style, repeat_str '' '' 16), (colored ColorDarkGray, cmdline p)]] else []))"
| "origin_line (Some (OtherUser u)) =
     Some [[(bold_style, pad_right 16 ''Origin''),
            (colored ColorDarkGray, ''other user (uid '' @ dec (unat u) @ '')'')]]"
| "origin_line (Some Origin.Unknown) =
     Some [[(bold_style, pad_right 16 ''Origin''), (colored ColorDarkGray, ''unknown'')]]"
| "origin_line (Some Unsupported) = None"

definition metadata_lines :: "App \<Rightarrow> StyledLine list" where
  "metadata_lines app =
     (case selected app of
        None \<Rightarrow> [[(colored ColorDarkGray,
          ''No connection selected. Waiting for traffic'' @ [CHR 0xE2, CHR 0x80, CHR 0xA6])]]
      | Some state \<Rightarrow>
          [field ''Connection'' (ConnectionKey_to_string (cs_key state))]
          @ (case origin_line (origin (handshake state)) of None \<Rightarrow> [] | Some ls \<Rightarrow> ls)
          @ handshake_metadata_lines (handshake state)
          @ (case hs_error (handshake state) of
               None \<Rightarrow> []
             | Some err \<Rightarrow> [[], [(colored Red, ''Error: '' @ err)]]))"

text \<open>The lines end with an empty one, right after the last section.\<close>

lemma sections_loop_last:
  assumes "fold_exec (view_section str_width w sel e) st xs = Some (ls, bounds)" and "xs \<noteq> []"
  shows "length ls = Suc (start (last bounds) + len (last bounds))"
  using assms
proof (induction xs arbitrary: st)
  case (Cons x xs)
  obtain st1 where st1: "view_section str_width w sel e st x = Some st1"
    "fold_exec (view_section str_width w sel e) st1 xs = Some (ls, bounds)"
    using Cons.prems(1) by (auto simp: bind_eq_Some_conv)
  show ?case
  proof (cases "xs = []")
    case True
    with st1 show ?thesis
      by (auto simp: view_section_def bind_eq_Some_conv Let_def split: prod.splits)
  next
    case False
    with Cons.IH st1(2) show ?thesis by blast
  qed
qed simp

section \<open>The pane\<close>

text \<open>The title, the lines and the scroll offset of the pane, for an area of the terminal.\<close>

definition right_view ::
  "(string \<Rightarrow> nat) \<Rightarrow> App \<Rightarrow> u16 \<Rightarrow> u16 \<Rightarrow> (string \<times> StyledLine list \<times> u16) exec" where
  "right_view str_width app width height =
     (let focused = (app_focus app = PaneFocus.Right);
          inner_w = u16_saturating_sub width 2;
          inner_h = u16_saturating_sub height 2
      in do {
        (header, ls, scroll) \<leftarrow> (case right_mode app of
            Metadata \<Rightarrow> map_option (\<lambda>ls. (''Metadata'', ls, 0))
              (wrap_lines_with_indent str_width (metadata_lines app) inner_w)
          | SectionsMode \<Rightarrow> map_option (\<lambda>(header, ls, bounds).
                (header, ls, scroll_offset bounds (app_section_index app) inner_h))
              (sections_view str_width app inner_w));
        Some (if focused then header @ '' [focus]'' else header, ls, scroll)
      })"

lemma sections_view_total:
  "\<exists>header ls bounds. sections_view str_width app inner_w = Some (header, ls, bounds)"
proof -
  obtain secs where "app_sections app = Some secs"
    using section_count_total [of app] by (auto simp: section_count_def)
  then show ?thesis
    using sections_loop [of str_width inner_w "app_section_index app" "app_education app" "[]" "[]" 0 secs]
    by (auto simp: sections_view_def Let_def)
qed

lemma right_view_total: "\<exists>header ls scroll. right_view str_width app width height = Some (header, ls, scroll)"
  using sections_view_total [of str_width app "u16_saturating_sub width 2"]
    wrap_lines_total [of str_width "metadata_lines app" "u16_saturating_sub width 2"]
  by (auto simp: right_view_def Let_def split: RightPaneMode.split)

declare exec_bind_weak_cong [cong del]

section \<open>Properties\<close>

lemma sections_for_nonempty: "\<exists>secs. sections_for r = Some secs \<and> secs \<noteq> []"
  using body_sections_total [of "body r" "direction_hint_of (direction r)"]
    framing_section_total [of r "direction_hint_of (direction r)"]
  by (auto simp: sections_for_def Let_def)




text \<open>Three characters two columns wide, in a pane of two columns: a row of four columns.\<close>

lemma wide_rows_overflow:
  "map_option (map (line_width (\<lambda>t. 2 * length (utf8_chars t))))
     (wrap_line (\<lambda>t. 2 * length (utf8_chars t))
        [(default_style, concat (replicate 3 [CHR 0xE6, CHR 0xBC, CHR 0xA2]))] 2) = Some [4, 2]"
  by code_simp

text \<open>
  C34. The selected section is in view: in every reachable state with a record selected, for an
  area with room inside its border and as long as the lines of the pane are fewer than 65536
  (the scroll offset of the terminal library has 16 bits), the right pane's lines contain the
  rows of the section under the cursor; when the section fits, all of them lie between the
  scroll offset and the bottom of the pane, else the pane starts at its first row or, near the
  end of the list, where the last section's last row is at the bottom.
\<close>

theorem selected_section_visible:
  assumes "app_reachable app" and "record_selected app = Some r"
    and "right_view str_width app width height = Some (header, ls, scroll)"
    and "2 < height" and "length ls < 65536"
  shows "\<exists>secs rows s. sections_for r = Some secs \<and> app_section_index app < length secs
    \<and> wrap_lines_with_indent str_width
        (render_section (secs ! app_section_index app) True (app_education app))
        (u16_saturating_sub width 2) = Some rows
    \<and> take (length rows) (drop s ls) = rows \<and> s + length rows < length ls
    \<and> unat scroll \<le> s
    \<and> (length rows \<le> unat height - 2 \<longrightarrow> s + length rows \<le> unat scroll + (unat height - 2))
    \<and> (unat height - 2 < length rows \<longrightarrow> unat scroll = min s (length ls - 1 - (unat height - 2)))"
proof -
  let ?w = "u16_saturating_sub width 2" and ?h = "u16_saturating_sub height 2"
  let ?sel = "app_section_index app" and ?e = "app_education app"
  obtain secs where secs: "sections_for r = Some secs" "secs \<noteq> []"
    using sections_for_nonempty by blast
  then have app_secs: "app_sections app = Some secs" using assms(2) by (simp add: app_sections_def)
  have sel: "?sel < length secs"
    using app_reachable_ok [OF assms(1)] secs(2) app_secs
    by (cases secs) (auto simp: app_ok_def cursors_ok_def section_limit_def section_count_def)
  obtain ls' new where loop: "fold_exec (view_section str_width ?w ?sel ?e) ([], []) (enumerate 0 secs) = Some (ls', new)"
    "length new = length secs"
    and place: "\<forall>j<length secs. places str_width ?w ?sel ?e ls' 0 j (secs ! j) (new ! j)"
    and mono: "\<forall>j<length secs. \<forall>i\<le>j. start (new ! i) + len (new ! i) \<le> start (new ! j) + len (new ! j)"
    using sections_loop [of str_width ?w ?sel ?e "[]" "[]" 0 secs] by auto
  have "right_mode app = SectionsMode"
    using assms(2) by (auto simp: right_mode_def record_selected_def split: if_splits)
  with assms(3) have ls: "ls = ls'" and scroll: "scroll = scroll_offset new ?sel ?h"
    by (auto simp: right_view_def sections_view_def app_secs secs(2) loop(1) Let_def split: if_splits)
  have "places str_width ?w ?sel ?e ls 0 ?sel (secs ! ?sel) (new ! ?sel)"
    using place sel ls by blast
  then obtain rows where rows: "wrap_lines_with_indent str_width
      (render_section (secs ! ?sel) (?sel = ?sel) ?e) ?w = Some rows" "len (new ! ?sel) = length rows"
    "take (len (new ! ?sel)) (drop (start (new ! ?sel)) ls) = rows"
    "start (new ! ?sel) + len (new ! ?sel) < length ls"
    unfolding places_def by blast
  have last: "last new = new ! (length secs - 1)"
    using loop(2) secs(2) by (simp add: last_conv_nth flip: length_greater_0_conv)
  have h: "unat ?h = unat height - 2" "?h \<noteq> 0"
    using assms(4) by (auto simp: u16_saturating_sub_def unat_sub word_le_nat_alt word_less_nat_alt unat_eq_0
        dest: arg_cong [where f = unat])
  have total: "length ls = Suc (start (last new) + len (last new))"
    using sections_loop_last [OF loop(1)] secs(2) ls by (simp add: enumerate_eq_zip)
  have "start (new ! ?sel) + len (new ! ?sel) \<le> start (last new) + len (last new)"
    using mono sel unfolding last by simp
  then have "unat scroll \<le> start (new ! ?sel)
      \<and> (len (new ! ?sel) \<le> unat ?h \<longrightarrow> start (new ! ?sel) + len (new ! ?sel) \<le> unat scroll + unat ?h)
      \<and> (unat ?h < len (new ! ?sel) \<longrightarrow> unat scroll = min (start (new ! ?sel)) (length ls - 1 - unat ?h))"
    using span_in_view [of ?sel new ?h "start (new ! ?sel)" "len (new ! ?sel)" "start (last new)" "len (last new)"]
      sel loop(2) h(2) assms(5) total unfolding scroll by simp
  with secs(1) sel rows h(1) show ?thesis by metis
qed

declare exec_bind_weak_cong [cong del]

text \<open>A connection with one record, and the interface with that record selected.\<close>

definition one_record :: ConnectionState where
  "one_record = \<lparr>cs_key = canonical (V4 1) 50000 (V4 2) 443, first_seen_ms = 3, last_seen_ms = 4,
     handshake = HandshakeInfo_new,
     records = [\<lparr>direction = RecordDirection.ClientToServer, timestamp_ms = 4, sequence = 0,
       outer_type = TlsRecordType.ChangeCipherSpec, outer_length = 1, raw = [1],
       body = RecordBody.ChangeCipherSpec\<rparr>]\<rparr>"

definition shown_record :: App where
  "shown_record = (case loop_turn [HandshakeUpdated one_record] (Some (KeyPress RightArrow)) app_new of
     Some (Continue app) \<Rightarrow> (case loop_turn [] (Some (KeyPress DownArrow)) app of
        Some (Continue app') \<Rightarrow> app' | _ \<Rightarrow> app_new) | _ \<Rightarrow> app_new)"

lemma shown_record_reachable: "app_reachable shown_record"
  unfolding shown_record_def
  by (auto split: option.split LoopStep.split intro: app_reachable.start app_reachable.turn [OF app_reachable.turn [OF app_reachable.start]])

lemma shown_record_record: "record_selected shown_record = Some (hd (records one_record))"
  by code_simp

theorem selected_section_visible_witness:
  "\<exists>header ls scroll rows s. right_view (length \<circ> utf8_chars) shown_record 60 30 = Some (header, ls, scroll)
    \<and> take (length rows) (drop s ls) = rows \<and> s + length rows < 10 \<and> unat scroll \<le> s"
proof -
  let ?w = "length \<circ> utf8_chars"
  have "map_option (\<lambda>(h, ls, s). length ls) (sections_view ?w shown_record 58) = Some 10"
    by code_simp
  then obtain h ls bounds where v: "sections_view ?w shown_record 58 = Some (h, ls, bounds)" "length ls = 10"
    by auto
  have "right_mode shown_record = SectionsMode" by code_simp
  then obtain header scroll where r: "right_view ?w shown_record 60 30 = Some (header, ls, scroll)"
    using v(1) by (auto simp: right_view_def u16_saturating_sub_def Let_def)
  then show ?thesis
    using selected_section_visible [OF shown_record_reachable shown_record_record r] v(2) by fastforce
qed

end
