(* ===== verification/Panel_Flow.thy ===== *)
theory Panel_Flow
  imports Text_Layout Education_Text App_Invariant
begin

text \<open>
  \<open>src/src/ui/panels/flow.rs\<close>: the handshake diagram of the centre pane. \<open>flow_view\<close> gives
  the title and the lines that \<open>render\<close> hands to the terminal library; cutting a label is a
  panic at a wrong place, so the rows are in \<open>exec\<close>.
\<close>

declare exec_bind_weak_cong [cong del]

datatype FlowDir = FlowRight | FlowLeft | FlowBoth

definition step_meta :: "HandshakeStage \<Rightarrow> bool \<Rightarrow> u8 \<times> FlowDir \<times> bool" where
  "step_meta stg is_tls12 =
     (case stg of
        HandshakeStage.ClientHello \<Rightarrow> (1, FlowRight, False)
      | HandshakeStage.ServerHello \<Rightarrow> (2, FlowLeft, False)
      | HandshakeStage.Certificate \<Rightarrow> (3, FlowLeft, True)
      | HandshakeStage.ServerCertificate \<Rightarrow> (3, FlowLeft, False)
      | HandshakeStage.ServerKeyExchange \<Rightarrow> (4, FlowLeft, False)
      | HandshakeStage.ServerHelloDone \<Rightarrow> (6, FlowLeft, False)
      | HandshakeStage.ClientKeyExchange \<Rightarrow> (7, FlowRight, False)
      | HandshakeStage.ClientFinished \<Rightarrow>
          if is_tls12 then (10, FlowRight, True) else (4, FlowRight, True)
      | HandshakeStage.ServerFinished \<Rightarrow>
          if is_tls12 then (12, FlowLeft, True) else (5, FlowLeft, True)
      | HandshakeStage.ApplicationData \<Rightarrow>
          if is_tls12 then (13, FlowBoth, True) else (6, FlowBoth, True)
      | HandshakeStage.Idle \<Rightarrow> (0, FlowRight, False)
      | HandshakeStage.Errored \<Rightarrow> (0, FlowRight, False))"

text \<open>The circled digits are U+2460 to U+246C, the fallback is U+25CB.\<close>

definition circled :: "u8 \<Rightarrow> string" where
  "circled n =
     (if n = 1 then [CHR 0xE2, CHR 0x91, CHR 0xA0]
      else if n = 2 then [CHR 0xE2, CHR 0x91, CHR 0xA1]
      else if n = 3 then [CHR 0xE2, CHR 0x91, CHR 0xA2]
      else if n = 4 then [CHR 0xE2, CHR 0x91, CHR 0xA3]
      else if n = 5 then [CHR 0xE2, CHR 0x91, CHR 0xA4]
      else if n = 6 then [CHR 0xE2, CHR 0x91, CHR 0xA5]
      else if n = 7 then [CHR 0xE2, CHR 0x91, CHR 0xA6]
      else if n = 8 then [CHR 0xE2, CHR 0x91, CHR 0xA7]
      else if n = 9 then [CHR 0xE2, CHR 0x91, CHR 0xA8]
      else if n = 10 then [CHR 0xE2, CHR 0x91, CHR 0xA9]
      else if n = 11 then [CHR 0xE2, CHR 0x91, CHR 0xAA]
      else if n = 12 then [CHR 0xE2, CHR 0x91, CHR 0xAB]
      else if n = 13 then [CHR 0xE2, CHR 0x91, CHR 0xAC]
      else [CHR 0xE2, CHR 0x97, CHR 0x8B])"

section \<open>Rows\<close>

definition cw :: "usize \<Rightarrow> usize" where
  "cw inner_width = inner_width - 8"

definition bar_char :: string where
  "bar_char = [CHR 0xE2, CHR 0x94, CHR 0x82]"

definition dash_char :: string where
  "dash_char = [CHR 0xE2, CHR 0x94, CHR 0x80]"

definition head_right :: string where
  "head_right = [CHR 0xE2, CHR 0x96, CHR 0xBA]"

definition head_left :: string where
  "head_left = [CHR 0xE2, CHR 0x97, CHR 0x84]"

definition flow_header_line :: "usize \<Rightarrow> StyledLine" where
  "flow_header_line inner_width =
     (let bold_yellow = (colored Yellow)\<lparr>bold := True\<rparr>;
          bar = colored ColorDarkGray;
          gap = cw inner_width - (length ''CLIENT'' + length ''SERVER'')
      in [(default_style, ''   ''), (bar, bar_char), (bold_yellow, ''CLIENT''),
          (default_style, repeat_str '' '' gap), (bold_yellow, ''SERVER''), (bar, bar_char),
          (default_style, ''   '')])"

definition connector_line :: "usize \<Rightarrow> StyledLine" where
  "connector_line inner_width =
     [(default_style, ''   ''), (colored ColorDarkGray, bar_char),
      (default_style, repeat_str '' '' (cw inner_width)), (colored ColorDarkGray, bar_char),
      (default_style, ''   '')]"

text \<open>\<open>&s[..n]\<close> on a \<open>str\<close>: a panic beyond the end and inside a character.\<close>

definition str_prefix :: "string \<Rightarrow> usize \<Rightarrow> string exec" where
  "str_prefix s n =
     (if n \<le> length s \<and> (n < length s \<longrightarrow> \<not> continues (s ! n)) then Some (take n s) else None)"

definition make_arrow :: "FlowDir \<Rightarrow> string \<Rightarrow> usize \<Rightarrow> string exec" where
  "make_arrow dir label width =
     (let heads = (case dir of FlowBoth \<Rightarrow> 2 | _ \<Rightarrow> 1)
      in if width \<le> usize_saturating_add (length label) heads
         then do {
           t \<leftarrow> str_prefix label (width - heads);
           Some (case dir of
               FlowRight \<Rightarrow> t @ head_right
             | FlowLeft \<Rightarrow> head_left @ t
             | FlowBoth \<Rightarrow> head_left @ t @ head_right)
         }
         else do {
           d \<leftarrow> usize_sub width (length label);
           dash_total \<leftarrow> usize_sub d heads;
           let left_d = dash_total div 2;
           right_d \<leftarrow> usize_sub dash_total left_d;
           let l = repeat_str dash_char left_d;
           let r = repeat_str dash_char right_d;
           Some (case dir of
               FlowRight \<Rightarrow> l @ label @ r @ head_right
             | FlowLeft \<Rightarrow> head_left @ l @ label @ r
             | FlowBoth \<Rightarrow> head_left @ l @ label @ r @ head_right)
         })"

definition step_style :: "bool \<Rightarrow> bool \<Rightarrow> bool \<Rightarrow> TextStyle" where
  "step_style is_cursor is_current is_past =
     (if is_cursor then (colored Cyan)\<lparr>bold := True, reversed := True\<rparr>
      else if is_current then (colored Green)\<lparr>bold := True\<rparr>
      else if is_past then colored ColorDarkGray
      else default_style)"

definition step_line ::
  "HandshakeStage \<Rightarrow> usize \<Rightarrow> bool \<Rightarrow> bool \<Rightarrow> bool \<Rightarrow> bool \<Rightarrow> StyledLine exec" where
  "step_line stg inner_width is_cursor is_current is_past is_tls12 =
     (case step_meta stg is_tls12 of (step_n, dir, encrypted) \<Rightarrow>
        let arrow_style = step_style is_cursor is_current is_past;
            bar = colored ColorDarkGray;
            ch = circled step_n;
            left_prefix = (case dir of FlowLeft \<Rightarrow> ''   '' | _ \<Rightarrow> ch @ ''  '');
            right_suffix = (case dir of
                FlowLeft \<Rightarrow> '' '' @ ch @ (if encrypted then ''E'' else '' '')
              | _ \<Rightarrow> if encrypted then ''  E'' else ''   '')
        in do {
          arrow \<leftarrow> make_arrow dir (stage_label stg) (cw inner_width);
          Some [(arrow_style, left_prefix), (bar, bar_char), (arrow_style, arrow), (bar, bar_char),
            (arrow_style, right_suffix)]
        })"

section \<open>The pane\<close>

text \<open>\<open>split(". ")\<close>\<close>

fun split_two :: "char \<Rightarrow> char \<Rightarrow> string \<Rightarrow> string \<Rightarrow> string list" where
  "split_two a b cur [] = [cur]"
| "split_two a b cur [c] = [cur @ [c]]"
| "split_two a b cur (c # d # cs) =
     (if c = a \<and> d = b then cur # split_two a b [] cs else split_two a b (cur @ [c]) (d # cs))"

definition flow_row ::
  "HandshakeStage list \<Rightarrow> usize \<Rightarrow> usize option \<Rightarrow> usize option \<Rightarrow> bool
     \<Rightarrow> StyledLine list \<Rightarrow> nat \<times> HandshakeStage \<Rightarrow> StyledLine list exec" where
  "flow_row stages inner_width cursor_idx current_idx is_tls12 ls row =
     (case row of (i, stg) \<Rightarrow> do {
        let is_past = (case current_idx of None \<Rightarrow> False | Some c \<Rightarrow> i < c);
        l \<leftarrow> step_line stg inner_width (cursor_idx = Some i) (current_idx = Some i) is_past is_tls12;
        let ls = ls @ [l];
        Some (if i + 1 < length stages then ls @ [connector_line inner_width] else ls)
      })"

definition education_overlay :: "HandshakeStage \<Rightarrow> StyledLine list" where
  "education_overlay stg =
     [] # [((colored Cyan)\<lparr>bold := True\<rparr>, ''Educational: '' @ stage_label stg)]
     # map (\<lambda>chunk. [(default_style, chunk)])
         (filter (\<lambda>chunk. chunk \<noteq> []) (split_two CHR ''.'' CHR '' '' [] (explain stg)))"

definition flow_stages :: "bool \<Rightarrow> HandshakeStage list" where
  "flow_stages is_tls12 = (if is_tls12 then ordered_tls12 else ordered)"

definition current_stage :: "App \<Rightarrow> HandshakeStage" where
  "current_stage app =
     (case selected app of None \<Rightarrow> HandshakeStage.Idle | Some c \<Rightarrow> stage (handshake c))"

definition flow_view :: "App \<Rightarrow> u16 \<Rightarrow> (string \<times> StyledLine list) exec" where
  "flow_view app width =
     (let is_tls12 = selected_is_tls12 app;
          inner_width = unat (u16_saturating_sub width 2);
          stages = flow_stages is_tls12;
          cursor_stage = selected_record_stage app;
          cursor_idx = Option.bind cursor_stage (\<lambda>s. position (\<lambda>x. x = s) stages);
          current_idx = position (\<lambda>x. x = current_stage app) stages
      in do {
        ls \<leftarrow> fold_exec (flow_row stages inner_width cursor_idx current_idx is_tls12)
          [flow_header_line inner_width, connector_line inner_width] (enumerate 0 stages);
        let focused_stage = (case cursor_stage of None \<Rightarrow> current_stage app | Some s \<Rightarrow> s);
        let ls = (if app_education app \<and> focused_stage \<noteq> HandshakeStage.Idle
                  then ls @ education_overlay focused_stage else ls);
        let base_title = (if is_tls12 then ''Handshake (TLS 1.2)'' else ''Handshake'');
        Some (if app_focus app = PaneFocus.Records then base_title @ '' [focus]'' else base_title, ls)
      })"

declare exec_bind_weak_cong [cong del]

section \<open>Width of the rows\<close>

lemma char_count_append [simp]: "char_count (s @ t) = char_count s + char_count t"
  by (simp add: char_count_def)

lemma char_count_repeat [simp]: "char_count (repeat_str s n) = n * char_count s"
  by (induction n) (simp_all add: repeat_str_def char_count_def)

lemma char_count_blank [simp]: "char_count (CHR '' '' # s) = Suc (char_count s)"
  by (simp add: char_count_def)

text \<open>The texts of the rows: three-byte symbols are one character, the labels are ASCII.\<close>

lemma char_count_symbols [simp]:
  "char_count bar_char = 1" "char_count dash_char = 1" "char_count head_left = 1"
  "char_count head_right = 1" "char_count (circled n) = 1"
  by (simp_all add: char_count_def bar_char_def dash_char_def head_left_def head_right_def circled_def)

lemma ascii_char_count: "ascii s \<Longrightarrow> char_count s = length s"
  by (induction s) (auto simp: ascii_def char_count_def)

lemma ascii_take: "ascii s \<Longrightarrow> ascii (take n s)"
  by (auto simp: ascii_def list_all_iff dest: in_set_takeD)

lemma ascii_prefix:
  assumes "ascii s" and "n \<le> length s"
  shows "str_prefix s n = Some (take n s)"
proof -
  have "\<not> continues (s ! n)" if "n < length s"
    using assms(1) that by (auto simp: ascii_def list_all_length continues_def)
  with assms(2) show ?thesis by (simp add: str_prefix_def)
qed

lemma ascii_label: "ascii (stage_label s)"
  by (cases s) (simp_all add: ascii_def)

definition heads :: "FlowDir \<Rightarrow> nat" where
  "heads dir = (case dir of FlowBoth \<Rightarrow> 2 | _ \<Rightarrow> 1)"

lemma make_arrow_width:
  assumes "ascii label" and "length label + 2 \<le> USIZE_MAX"
  shows "\<exists>t. make_arrow dir label width = Some t \<and> char_count t = max width (heads dir)"
proof -
  have h: "1 \<le> heads dir" "heads dir \<le> 2" by (cases dir; simp add: heads_def)+
  have cc: "char_count label = length label" "char_count (take n label) = min n (length label)" for n
    using assms(1) by (simp_all add: ascii_char_count ascii_take min.commute)
  show ?thesis
  proof (cases "width \<le> length label + heads dir")
    case True
    define t where "t = take (width - heads dir) label"
    have "str_prefix label (width - heads dir) = Some t" "char_count t = width - heads dir"
      using True ascii_prefix [OF assms(1)] by (simp_all add: t_def cc)
    with True show ?thesis using h assms(2)
      by (cases dir; simp add: make_arrow_def usize_saturating_add_def heads_def max_def; linarith)
  next
    case False
    then show ?thesis using h assms(2)
      by (cases dir)
        (simp_all add: make_arrow_def usize_saturating_add_def heads_def cc max_def Let_def)
  qed
qed

lemma label_short: "length (stage_label s) + 2 \<le> USIZE_MAX"
  by (cases s) (simp_all add: USIZE_MAX_def)

text \<open>
  The arrow of a handshake step always comes out, for every pane width, and it is exactly as
  wide as the content column, except that its heads are drawn even where the column is narrower
  than they are.
\<close>

theorem arrow_fills_column:
  "\<exists>t. make_arrow dir (stage_label s) width = Some t
     \<and> char_count t = max width (case dir of FlowBoth \<Rightarrow> 2 | _ \<Rightarrow> 1)"
  using make_arrow_width [OF ascii_label label_short] by (simp add: heads_def)

lemma step_line_width:
  "\<exists>l. step_line s w cur now past tls12 = Some l
     \<and> line_width char_count l = 8 + max (w - 8) (heads (fst (snd (step_meta s tls12))))"
proof -
  obtain n dir e where m: "step_meta s tls12 = (n, dir, e)" by (cases "step_meta s tls12")
  obtain t where t: "make_arrow dir (stage_label s) (w - 8) = Some t"
    "char_count t = max (w - 8) (heads dir)"
    using make_arrow_width [OF ascii_label label_short] by blast
  have "char_count [] = 0" "char_count ''E'' = 1"
    by (simp_all add: char_count_def)
  with t show ?thesis
    by (cases dir) (simp_all add: step_line_def m cw_def line_width_def Let_def)
qed

lemma connector_line_width: "line_width char_count (connector_line w) = 8 + (w - 8)"
  by (simp add: connector_line_def line_width_def cw_def) (simp add: char_count_def)

lemma flow_header_line_width: "line_width char_count (flow_header_line w) = 8 + max (w - 8) 12"
  by (simp add: flow_header_line_def line_width_def cw_def Let_def) (auto simp: char_count_def max_def)

section \<open>The rows of the diagram\<close>

text \<open>\<open>rows_of n conn f k m\<close>: the rows \<open>f k, \<dots>, f (k + m - 1)\<close> of the \<open>n\<close> steps, with a connector
  after each but the last.\<close>

definition rows_of :: "nat \<Rightarrow> StyledLine \<Rightarrow> (nat \<Rightarrow> StyledLine) \<Rightarrow> nat \<Rightarrow> nat \<Rightarrow> StyledLine list" where
  "rows_of n conn f k m = concat (map (\<lambda>i. f i # (if i + 1 < n then [conn] else [])) [k..<k + m])"

lemma rows_of_0: "rows_of n conn f k 0 = []"
  by (simp add: rows_of_def)

lemma rows_of_Suc: "rows_of n conn f k (Suc m) = f k # (if k + 1 < n then [conn] else []) @ rows_of n conn f (Suc k) m"
  by (simp add: rows_of_def upt_conv_Cons del: upt_Suc)

definition passed :: "nat option \<Rightarrow> nat \<Rightarrow> bool" where
  "passed now i = (case now of None \<Rightarrow> False | Some c \<Rightarrow> i < c)"

lemma flow_rows_loop:
  assumes "\<forall>i<length ss. step_line (ss ! i) w (cur = Some (k + i)) (now = Some (k + i))
      (passed now (k + i)) tls12 = Some (f (k + i))"
  shows "fold_exec (flow_row stages w cur now tls12) ls (enumerate k ss)
    = Some (ls @ rows_of (length stages) (connector_line w) f k (length ss))"
  using assms
proof (induction ss arbitrary: k ls)
  case Nil
  then show ?case by (simp add: rows_of_def)
next
  case (Cons s ss)
  have "step_line s w (cur = Some k) (now = Some k) (passed now k) tls12 = Some (f k)"
    using Cons.prems [rule_format, of 0] by simp
  moreover have "\<forall>i<length ss. step_line (ss ! i) w (cur = Some (Suc k + i)) (now = Some (Suc k + i))
      (passed now (Suc k + i)) tls12 = Some (f (Suc k + i))"
    by (intro allI impI, use Cons.prems [rule_format, of "Suc _"] in simp)
  ultimately show ?case
    using Cons.IH [of "Suc k"] by (simp add: enumerate_simps flow_row_def rows_of_Suc Let_def passed_def [symmetric])
qed


lemma position_distinct:
  "distinct xs \<Longrightarrow> position (\<lambda>x. x = s) xs = Some i \<longleftrightarrow> i < length xs \<and> xs ! i = s"
  using position_bound [of "\<lambda>x. x = s" xs i] position_nth [of xs i] by auto

lemma distinct_nth_drop:
  assumes "distinct xs" and "c < length xs"
  shows "xs ! c \<in> set (drop k xs) \<longleftrightarrow> k \<le> c"
proof
  assume "xs ! c \<in> set (drop k xs)"
  then obtain j where "j < length xs - k" "xs ! (k + j) = xs ! c"
    by (auto simp: in_set_conv_nth)
  then have "k + j = c" using assms by (simp add: nth_eq_iff_index_eq)
  then show "k \<le> c" by simp
next
  assume "k \<le> c"
  then have "drop k xs ! (c - k) = xs ! c" "c - k < length (drop k xs)" using assms(2) by simp_all
  then show "xs ! c \<in> set (drop k xs)" by (metis nth_mem)
qed

lemma flow_stages_distinct: "distinct (flow_stages tls12)"
  using ordered_distinct by (simp add: flow_stages_def)

text \<open>The style of a step says what it is: under the cursor, current, or passed.\<close>

definition step_row :: "App \<Rightarrow> usize \<Rightarrow> nat \<Rightarrow> StyledLine exec" where
  "step_row app w i =
     (let stages = flow_stages (selected_is_tls12 app)
      in step_line (stages ! i) w (selected_record_stage app = Some (stages ! i))
           (current_stage app = stages ! i) (current_stage app \<in> set (drop (i + 1) stages))
           (selected_is_tls12 app))"

lemma flow_view_rows:
  fixes app :: App and width :: u16
  defines "w \<equiv> unat (u16_saturating_sub width 2)"
    and "n \<equiv> length (flow_stages (selected_is_tls12 app))"
  shows "\<exists>header f over. flow_view app width
      = Some (header, flow_header_line w # connector_line w # rows_of n (connector_line w) f 0 n @ over)
    \<and> (\<forall>i<n. step_row app w i = Some (f i))"
proof -
  let ?tls12 = "selected_is_tls12 app"
  let ?ss = "flow_stages ?tls12"
  let ?cur = "Option.bind (selected_record_stage app) (\<lambda>s. position (\<lambda>x. x = s) ?ss)"
  let ?now = "position (\<lambda>x. x = current_stage app) ?ss"
  note pos = position_distinct [OF flow_stages_distinct]
  define f where "f i = the (step_row app w i)" for i
  have row: "step_row app w i = Some (f i)" for i
    using step_line_width by (auto simp: f_def step_row_def Let_def) (metis option.sel)
  have "step_line (?ss ! i) w (?cur = Some (0 + i)) (?now = Some (0 + i))
      (passed ?now (0 + i)) ?tls12 = Some (f (0 + i))" if "i < n" for i
  proof -
    have "(?cur = Some i) = (selected_record_stage app = Some (?ss ! i))"
      using that pos by (cases "selected_record_stage app") (auto simp: n_def)
    moreover have "(?now = Some i) = (current_stage app = ?ss ! i)"
      using that pos by (auto simp: n_def)
    moreover have "passed ?now i = (current_stage app \<in> set (drop (i + 1) ?ss))"
    proof (cases ?now)
      case None
      then have "current_stage app \<notin> set ?ss"
        using pos by (metis in_set_conv_nth option.distinct(1))
      with None show ?thesis by (auto simp: passed_def dest: in_set_dropD)
    next
      case (Some c)
      then have c: "c < length ?ss" "?ss ! c = current_stage app" using pos by blast+
      have "current_stage app \<in> set (drop (i + 1) ?ss) \<longleftrightarrow> i + 1 \<le> c"
        using distinct_nth_drop [OF flow_stages_distinct c(1)] c(2) by simp
      with Some show ?thesis by (simp add: passed_def less_eq_Suc_le)
    qed
    ultimately show ?thesis using row [of i] by (simp add: step_row_def Let_def)
  qed
  then have "fold_exec (flow_row ?ss w ?cur ?now ?tls12) [flow_header_line w, connector_line w] (enumerate 0 ?ss)
      = Some ([flow_header_line w, connector_line w] @ rows_of n (connector_line w) f 0 n)"
    unfolding n_def by (intro flow_rows_loop) (simp add: n_def)
  then show ?thesis
    using row by (auto simp: flow_view_def Let_def w_def)
qed


lemma step_row_span:
  "step_row app w i = Some l \<Longrightarrow> map fst l =
     (let stages = flow_stages (selected_is_tls12 app);
          st = step_style (selected_record_stage app = Some (stages ! i))
            (current_stage app = stages ! i) (current_stage app \<in> set (drop (i + 1) stages))
      in [st, colored ColorDarkGray, st, colored ColorDarkGray, st])"
  by (auto simp: step_row_def step_line_def Let_def bind_eq_Some_conv split: prod.splits)

lemma step_row_width:
  assumes "step_row app w i = Some l" and "10 \<le> w"
  shows "line_width char_count l = w"
proof -
  let ?ss = "flow_stages (selected_is_tls12 app)"
  have "heads d \<le> 2" for d by (cases d) (simp_all add: heads_def)
  moreover have "2 \<le> w - 8" using assms(2) by simp
  ultimately have "max (w - 8) (heads d) = w - 8" for d by (metis le_trans max.absorb1)
  then show ?thesis
    using assms step_line_width [of "?ss ! i" w "selected_record_stage app = Some (?ss ! i)"
        "current_stage app = ?ss ! i" "current_stage app \<in> set (drop (i + 1) ?ss)" "selected_is_tls12 app"]
    by (simp add: step_row_def Let_def)
qed

lemma length_rows_of: "k + m = n \<Longrightarrow> length (rows_of n conn f k m) = 2 * m - 1"
proof (induction m arbitrary: k)
  case (Suc m)
  then show ?case using Suc.IH [of "Suc k"] by (cases m) (auto simp: rows_of_Suc rows_of_0)
qed (simp add: rows_of_0)

text \<open>
  The diagram shows where the selected record and the handshake are: for every state and
  every width the pane is drawn, with one row per step of the handshake of its version; the row
  of a step is reversed when the selected record belongs to that step, green when the connection
  has reached exactly it, and grey when the connection is past it.
\<close>

theorem flow_marks_stages:
  "\<exists>header f over. flow_view app width
      = Some (header, flow_header_line (unat (u16_saturating_sub width 2))
          # connector_line (unat (u16_saturating_sub width 2))
          # rows_of (length (flow_stages (selected_is_tls12 app)))
              (connector_line (unat (u16_saturating_sub width 2))) f 0
              (length (flow_stages (selected_is_tls12 app))) @ over)
    \<and> map (\<lambda>i. fst (f i ! 2)) [0..<length (flow_stages (selected_is_tls12 app))]
      = map (\<lambda>i. step_style
            (selected_record_stage app = Some (flow_stages (selected_is_tls12 app) ! i))
            (current_stage app = flow_stages (selected_is_tls12 app) ! i)
            (current_stage app \<in> set (drop (i + 1) (flow_stages (selected_is_tls12 app)))))
          [0..<length (flow_stages (selected_is_tls12 app))]"
proof -
  let ?w = "unat (u16_saturating_sub width 2)" and ?ss = "flow_stages (selected_is_tls12 app)"
  obtain header f over where v: "flow_view app width = Some (header, flow_header_line ?w # connector_line ?w
      # rows_of (length ?ss) (connector_line ?w) f 0 (length ?ss) @ over)"
    and row: "\<And>i. i < length ?ss \<Longrightarrow> step_row app ?w i = Some (f i)"
    using flow_view_rows [of app width] by blast
  have "fst (f i ! 2) = map fst (f i) ! 2" if "i < length ?ss" for i
    using step_row_span [OF row [OF that]] by (auto simp: Let_def intro!: nth_map [symmetric] dest: map_eq_imp_length_eq)
  then have "map (\<lambda>i. fst (f i ! 2)) [0..<length ?ss] = map (\<lambda>i. step_style
      (selected_record_stage app = Some (?ss ! i)) (current_stage app = ?ss ! i)
      (current_stage app \<in> set (drop (i + 1) ?ss))) [0..<length ?ss]"
    using step_row_span [OF row] by (simp add: Let_def)
  with v show ?thesis by blast
qed

text \<open>
  C38. From a pane of 22 columns on, the diagram fills the pane exactly: every row of it has as
  many characters as the pane has columns inside its border, so no row is wrapped or cut.
\<close>

theorem flow_rows_fit:
  assumes "22 \<le> width"
  shows "\<exists>header ls over. flow_view app width = Some (header, ls @ over)
    \<and> 2 * length (flow_stages (selected_is_tls12 app)) + 1 = length ls
    \<and> list_all (\<lambda>l. line_width char_count l = unat width - 2) ls"
proof -
  let ?w = "unat (u16_saturating_sub width 2)"
  let ?n = "length (flow_stages (selected_is_tls12 app))"
  have "2 \<le> width" using assms by (simp add: word_le_nat_alt)
  then have w: "?w = unat width - 2" "20 \<le> ?w"
    using assms by (simp_all add: u16_saturating_sub_def unat_sub word_le_nat_alt)
  obtain header f over where v: "flow_view app width = Some (header, flow_header_line ?w # connector_line ?w
      # rows_of ?n (connector_line ?w) f 0 ?n @ over)"
    and row: "\<And>i. i < ?n \<Longrightarrow> step_row app ?w i = Some (f i)"
    using flow_view_rows [of app width] by blast
  have "0 < ?n" by (simp add: flow_stages_def ordered_def ordered_tls12_def)
  moreover have "length (rows_of ?n (connector_line ?w) f 0 ?n) = 2 * ?n - 1"
    by (simp add: length_rows_of)
  moreover have "list_all (\<lambda>l. line_width char_count l = ?w) (rows_of ?n (connector_line ?w) f 0 ?n)"
    using w(2) step_row_width [OF row] by (auto simp: rows_of_def list_all_iff connector_line_width)
  ultimately show ?thesis
    using v w connector_line_width [of ?w] flow_header_line_width [of ?w]
    by (intro exI [of _ header] exI [of _ "flow_header_line ?w # connector_line ?w
      # rows_of ?n (connector_line ?w) f 0 ?n"] exI [of _ over]) simp
qed

theorem flow_rows_fit_witness:
  "\<exists>header ls over. flow_view app_new 80 = Some (header, ls @ over) \<and> length ls = 13
    \<and> list_all (\<lambda>l. line_width char_count l = 78) ls"
  using flow_rows_fit [of 80 app_new]
  by (auto simp: selected_is_tls12_def selected_def app_new_def vec_get_def flow_stages_def ordered_def)

declare exec_bind_weak_cong [cong del]

lemma rows_of_nth: "k + m = n \<Longrightarrow> i < m \<Longrightarrow> rows_of n conn f k m ! (2 * i) = f (k + i)"
proof (induction m arbitrary: k i)
  case (Suc m)
  then show ?case
  proof (cases i)
    case (Suc j)
    then have "rows_of n conn f (Suc k) m ! (2 * j) = f (Suc k + j)"
      using Suc.IH [of "Suc k" j] Suc.prems by simp
    moreover have "k + 1 < n" using Suc Suc.prems by simp
    ultimately show ?thesis using Suc by (simp add: rows_of_Suc)
  qed (simp add: rows_of_Suc)
qed simp

text \<open>The row of step \<open>i\<close> is line \<open>2 * i + 2\<close> of the pane.\<close>

lemma flow_view_step:
  assumes "i < length (flow_stages (selected_is_tls12 app))"
  shows "\<exists>header ls. flow_view app width = Some (header, ls)
    \<and> step_row app (unat (u16_saturating_sub width 2)) i = Some (ls ! (2 * i + 2))"
proof -
  let ?w = "unat (u16_saturating_sub width 2)" and ?n = "length (flow_stages (selected_is_tls12 app))"
  obtain header f over where v: "flow_view app width = Some (header, flow_header_line ?w # connector_line ?w
      # rows_of ?n (connector_line ?w) f 0 ?n @ over)"
    and row: "\<And>i. i < ?n \<Longrightarrow> step_row app ?w i = Some (f i)"
    using flow_view_rows [of app width] by blast
  have "2 * i < length (rows_of ?n (connector_line ?w) f 0 ?n)"
    using assms length_rows_of [of 0 ?n ?n "connector_line ?w" f] by simp
  then have "(rows_of ?n (connector_line ?w) f 0 ?n @ over) ! (2 * i) = f i"
    using rows_of_nth [of 0 ?n ?n i "connector_line ?w" f] assms by (simp add: nth_append)
  with v row [OF assms] show ?thesis by simp
qed

end
