(* ===== verification/Panel_Lists.thy ===== *)
theory Panel_Lists
  imports Panel_Right Panel_Flow
begin

text \<open>
  \<open>src/src/ui/panels/records.rs\<close>, \<open>connections.rs\<close> and \<open>mod.rs\<close>: the two lists, with the row
  each is drawn as selected, the status line, and a whole frame of the interface. The areas of
  the panes come from the layout of the terminal library and are arguments.
\<close>

section \<open>The records of a connection\<close>

definition describe :: "RecordEvent \<Rightarrow> string \<times> Color \<times> string" where
  "describe r =
     (case body r of
        RecordBody.Handshake hs \<Rightarrow> (''plaintext'', Yellow, DecodedHandshake_label hs)
      | RecordBody.EncryptedHandshake inferred_label _ \<Rightarrow> (''encrypted'', Blue, inferred_label)
      | RecordBody.ChangeCipherSpec \<Rightarrow>
          (''legacy'', ColorDarkGray, ''ChangeCipherSpec (cipher activation)''))"

definition row_line :: "RecordEvent \<Rightarrow> u64 \<Rightarrow> StyledLine" where
  "row_line r first_ts =
     (let dt = u64_saturating_sub (timestamp_ms r) first_ts;
          dir_color = (case direction r of
              RecordDirection.ClientToServer \<Rightarrow> Green
            | RecordDirection.ServerToClient \<Rightarrow> Magenta);
          dir_style = colored dir_color
      in case describe r of (tag, _, lbl) \<Rightarrow>
        [(dir_style\<lparr>bold := True\<rparr>, RecordDirection_arrow (direction r) @ '' ''),
         (dir_style, pad_left 5 (dec (unat dt)) @ ''ms  ''),
         (dir_style, pad_right 11 tag),
         (dir_style, pad_left 5 (dec (unat (outer_length r))) @ ''B  ''),
         (dir_style, lbl)])"

definition metadata_row_line :: StyledLine where
  "metadata_row_line =
     [(default_style, ''  ''), (default_style, ''         ''),
      ((colored Cyan)\<lparr>bold := True\<rparr>, pad_right 11 ''Metadata''),
      (default_style, ''        ''), (colored ColorDarkGray, ''connection overview'')]"

text \<open>\<open>summary.push_str\<close> of a part, with a separator when there is text already.\<close>

definition push_part :: "string \<Rightarrow> string option \<Rightarrow> string" where
  "push_part summary part =
     (case part of
        None \<Rightarrow> summary
      | Some t \<Rightarrow> (if summary = [] then [] else summary @ ''  '' @ middle_dot @ ''  '') @ t)"

definition flights_legend :: "TlsVersion option \<Rightarrow> string" where
  "flights_legend v =
     (case v of
        None \<Rightarrow> ''flights:  1) ClientHello (clear)   2) ServerHello (clear)   3+) protocol-dependent''
      | Some v \<Rightarrow>
          if v = Tls13
          then ''flights:  1) ClientHello (clear)   2) ServerHello (clear)   3+) encrypted handshake''
          else if v \<in> {Ssl30, Tls10, Tls11, Tls12}
          then ''flights:  1) ClientHello   2) ServerHello / Certificate / KeyExchange   3) CCS + encrypted Finished''
          else ''flights:  1) ClientHello (clear)   2) ServerHello (clear)   3+) protocol-dependent'')"

definition connection_label :: "ConnectionState \<Rightarrow> string" where
  "connection_label c =
     (case sni (handshake c) of None \<Rightarrow> ip_text (server_ip (cs_key c)) | Some s \<Rightarrow> s)"

definition summary_header :: "ConnectionState \<Rightarrow> StyledLine list" where
  "summary_header state =
     (let hs = handshake state;
          summary = push_part (push_part (push_part []
              (map_option TlsVersion_fmt (tls_version hs)))
              (map_option CipherSuite_fmt (cipher_suite_selected hs)))
              (map_option NamedGroup_fmt (key_share_group hs))
      in [((colored Cyan)\<lparr>bold := True\<rparr>, [CHR 0xE2, CHR 0x86, CHR 0x92] @ '' ''),
          (bold_style, connection_label state)]
         # (if summary = [] then [] else [[(colored ColorDarkGray, summary)]])
         @ [[(colored ColorDarkGray, flights_legend (tls_version hs))], []])"

text \<open>
  What the pane shows: the title, and, when a connection is selected, the lines of the header,
  the number of rows it gets, the items of the list and the one drawn as selected.
\<close>

record ListView =
  lv_header :: "StyledLine list"
  lv_header_rows :: u16
  lv_items :: "StyledLine list"
  lv_selected :: usize

definition records_view :: "App \<Rightarrow> u16 \<Rightarrow> (string \<times> ListView option) exec" where
  "records_view app inner_height =
     (let header = (if app_focus app = PaneFocus.Records then ''Handshake [focus]'' else ''Handshake'')
      in case selected app of
           None \<Rightarrow> Some (header, None)
         | Some state \<Rightarrow> do {
             let header_lines = summary_header state;
             let header_h = word_of_nat (min (length header_lines) (unat inner_height));
             let first_ts = (case records state of [] \<Rightarrow> 0 | r # _ \<Rightarrow> timestamp_ms r);
             let items = metadata_row_line # map (\<lambda>r. row_line r first_ts) (records state);
             last \<leftarrow> usize_sub (length items) 1;
             Some (header, Some \<lparr>lv_header = header_lines, lv_header_rows = header_h,
               lv_items = items, lv_selected = min (app_records_row app) last\<rparr>)
           })"

section \<open>The connections\<close>

definition connections_view :: "App \<Rightarrow> (string \<times> string list \<times> usize option) exec" where
  "connections_view app = do {
     let items = map connection_label (shown_connections app);
     sel \<leftarrow> (if items \<noteq> []
             then map_option (\<lambda>last. Some (min (app_selected app) last)) (usize_sub (length items) 1)
             else Some None);
     let header = ''Connections ('' @ dec (length items) @ '')'';
     Some (if app_focus app = PaneFocus.Connections then header @ '' [focus]'' else header, items, sel)
   }"

section \<open>A frame\<close>

definition yellow_key :: "string \<Rightarrow> Span" where
  "yellow_key k = (colored Yellow, k)"

definition status_line :: "App \<Rightarrow> StyledLine" where
  "status_line app =
     [(colored Cyan, ''seehandshake''),
      (default_style, ''  ''),
      (default_style, ''connections: '' @ dec (length (shown_connections app))),
      (default_style, ''  ''),
      (default_style, ''evicted: '' @ dec (app_evicted app)),
      (default_style, ''   ''),
      yellow_key ''[q]'', (default_style, '' quit  ''),
      yellow_key ''[w]'', (default_style, '' wipe  ''),
      yellow_key (''['' @ [CHR 0xE2, CHR 0x86, CHR 0x90] @ ''/'' @ [CHR 0xE2, CHR 0x86, CHR 0x92] @ '']''),
      (default_style, '' pane  ''),
      yellow_key (''['' @ [CHR 0xE2, CHR 0x86, CHR 0x91] @ ''/'' @ [CHR 0xE2, CHR 0x86, CHR 0x93] @ '']''),
      (default_style, '' select  ''),
      yellow_key ''[enter]'', (default_style, '' expand  ''),
      yellow_key ''[esc]'', (default_style, '' back  ''),
      yellow_key ''[e]'',
      (default_style, if app_education app then '' education: ON  '' else '' education: off  ''),
      yellow_key ''[f]'',
      (default_style, case app_middle_mode app of
           RecordsMode \<Rightarrow> '' flow: records  ''
         | Flow \<Rightarrow> '' flow: diagram  ''),
      yellow_key ''[d]'',
      (default_style, if app_diagram_overlay app then '' reference: ON'' else '' reference'')]"

datatype MiddleView = RecordsPane "string \<times> ListView option" | FlowPane "string \<times> StyledLine list"

record FrameView =
  fv_connections :: "string \<times> string list \<times> usize option"
  fv_middle :: MiddleView
  fv_right :: "string \<times> StyledLine list \<times> u16"
  fv_overlay :: bool
  fv_status :: StyledLine

definition frame_view ::
  "(string \<Rightarrow> nat) \<Rightarrow> App \<Rightarrow> u16 \<times> u16 \<Rightarrow> u16 \<Rightarrow> u16 \<times> u16 \<Rightarrow> FrameView exec" where
  "frame_view str_width app middle inner_height right = do {
     conns \<leftarrow> connections_view app;
     mid \<leftarrow> (case app_middle_mode app of
         RecordsMode \<Rightarrow> map_option RecordsPane (records_view app inner_height)
       | Flow \<Rightarrow> map_option FlowPane (flow_view app (fst middle)));
     side \<leftarrow> right_view str_width app (fst right) (snd right);
     Some \<lparr>fv_connections = conns, fv_middle = mid, fv_right = side,
       fv_overlay = app_diagram_overlay app, fv_status = status_line app\<rparr>
   }"

declare exec_bind_weak_cong [cong del]

section \<open>Properties\<close>

lemma selected_shown:
  assumes "app_ok app"
  shows "selected app = vec_get (shown_connections app) (app_selected app)"
proof -
  have ok: "store_ok app" using assms by (simp add: app_ok_def)
  then have "hm_get (app_connections app) k \<noteq> None" if "k \<in> set (app_order app)" for k
    using that by (auto simp: store_ok_def hm_contains_def)
  then show ?thesis
    by (auto simp: selected_def vec_get_def shown_eq [OF ok])
qed

lemma connections_view_total: "\<exists>v. connections_view app = Some v"
  by (cases "shown_connections app") (simp_all add: connections_view_def usize_sub_def Let_def)

lemma records_view_total: "\<exists>v. records_view app h = Some v"
  by (simp add: records_view_def usize_sub_def Let_def split: option.split)

lemma flow_view_total: "\<exists>v. flow_view app w = Some v"
  using flow_view_rows [of app w] by blast

text \<open>
  C36. Drawing never panics: for every state of the interface, every display width of text and
  all areas of the panes, down to empty ones, the contents of a frame are computed.
\<close>

theorem frame_always_drawn: "\<exists>v. frame_view str_width app middle h right = Some v"
proof -
  obtain c where c: "connections_view app = Some c" using connections_view_total by blast
  obtain r where r: "records_view app h = Some r" using records_view_total by blast
  obtain f where f: "flow_view app (fst middle) = Some f" using flow_view_total by blast
  obtain s where "right_view str_width app (fst right) (snd right) = Some s"
    using right_view_total by (metis prod.exhaust)
  with c r f show ?thesis by (simp add: frame_view_def split: MiddlePaneMode.split)
qed

text \<open>
  C37. The lists mark what is selected: in every reachable state the row each list is drawn with
  is the cursor itself, never clipped, and the text in it is the one of the selected connection
  and of the selected record; nothing is marked only when there is no connection.
\<close>

theorem lists_mark_selection:
  assumes "app_reachable app"
  shows "\<exists>header items header' v. connections_view app =
        Some (header, items, if selected app = None then None else Some (app_selected app))
    \<and> records_view app h = Some (header', v)
    \<and> (case selected app of
         None \<Rightarrow> items = [] \<and> v = None
       | Some c \<Rightarrow> vec_get items (app_selected app) = Some (connection_label c)
           \<and> (\<exists>lv. v = Some lv \<and> lv_selected lv = app_records_row app
               \<and> vec_get (lv_items lv) (app_records_row app) =
                   Some (case record_selected app of
                       None \<Rightarrow> metadata_row_line
                     | Some r \<Rightarrow> row_line r (timestamp_ms (hd (records c))))))"
proof -
  have ok: "app_ok app" using assms by (rule app_reachable_ok)
  then have sel: "selected app = vec_get (shown_connections app) (app_selected app)"
    by (rule selected_shown)
  have len: "length (shown_connections app) = length (app_order app)"
    using shown_keys ok by (metis app_ok_def length_map)
  have row: "app_records_row app \<le> selected_record_count app"
    using ok by (simp add: app_ok_def cursors_ok_def)
  show ?thesis
  proof (cases "selected app")
    case None
    then have "shown_connections app = []"
      using ok sel len by (auto simp: app_ok_def selection_ok_def vec_get_def split: if_splits)
    with None show ?thesis by (simp add: connections_view_def records_view_def Let_def)
  next
    case (Some c)
    then have c: "app_selected app < length (shown_connections app)"
      "shown_connections app ! app_selected app = c"
      using sel by (auto simp: vec_get_def split: if_splits)
    have "connections_view app = Some (if app_focus app = PaneFocus.Connections
        then ''Connections ('' @ dec (length (shown_connections app)) @ '')'' @ '' [focus]''
        else ''Connections ('' @ dec (length (shown_connections app)) @ '')'',
        map connection_label (shown_connections app), Some (app_selected app))"
      using c(1) by (auto simp: connections_view_def Let_def)
    moreover have "vec_get (map connection_label (shown_connections app)) (app_selected app)
        = Some (connection_label c)"
      using c by (simp add: vec_get_def)
    moreover have "vec_get (metadata_row_line # map (\<lambda>r. row_line r
          (case records c of [] \<Rightarrow> 0 | r # _ \<Rightarrow> timestamp_ms r)) (records c)) (app_records_row app) =
        Some (case record_selected app of
            None \<Rightarrow> metadata_row_line
          | Some r \<Rightarrow> row_line r (timestamp_ms (hd (records c))))"
      using row Some by (cases "app_records_row app"; cases "records c")
        (auto simp: vec_get_def record_selected_def selected_record_count_def nth_Cons split: nat.split)
    moreover have "app_records_row app \<le> length (records c)"
      using row Some by (simp add: selected_record_count_def)
    ultimately show ?thesis
      using Some by (fastforce simp: records_view_def Let_def)
  qed
qed

theorem lists_mark_selection_witness:
  "\<exists>header' lv. records_view shown_record 20 = Some (header', Some lv) \<and> lv_selected lv = 1"
proof -
  have s: "selected shown_record = Some one_record" "app_records_row shown_record = 1"
    by code_simp+
  show ?thesis
    using lists_mark_selection [OF shown_record_reachable, of 20] s by auto
qed

end
