(* ===== verification/Panel_Diagram.thy ===== *)
theory Panel_Diagram
  imports Panel_Flow
begin

text \<open>
  \<open>src/src/ui/panels/diagram.rs\<close>: the lines of the reference diagrams of the overlay, as data.
\<close>

definition tee_right :: string where
  "tee_right = [CHR 0xE2, CHR 0x94, CHR 0x9C]"

definition tee_left :: string where
  "tee_left = [CHR 0xE2, CHR 0x94, CHR 0xA4]"

definition dash_light :: string where
  "dash_light = [CHR 0xE2, CHR 0x95, CHR 0x8C]"

definition head_style :: TextStyle where
  "head_style = (colored Yellow)\<lparr>bold := True\<rparr>"

definition arrow_style :: TextStyle where
  "arrow_style = colored Cyan"

definition enc_style :: TextStyle where
  "enc_style = colored Magenta"

definition bar_style :: TextStyle where
  "bar_style = colored ColorDarkGray"

definition tls12_widget :: "StyledLine list" where
  "tls12_widget =
     [[(head_style, ''CLIENT''), (default_style, ''                    ''), (head_style, ''SERVER'')],
      [(bar_style, ''  '' @ bar_char @ ''                          '' @ bar_char)],
      [(arrow_style, circled 1 @ '' '' @ tee_right @ repeat_str dash_char 4 @ '' ClientHello ''
        @ repeat_str dash_char 9 @ head_right @ bar_char)],
      [(bar_style, ''  '' @ bar_char @ ''                          '' @ bar_char)],
      [(arrow_style, ''  '' @ bar_char @ head_left @ repeat_str dash_char 4 @ '' ServerHello ''
        @ repeat_str dash_char 10 @ tee_left), (default_style, '' '' @ circled 2)],
      [(bar_style, ''  '' @ bar_char @ ''                          '' @ bar_char)],
      [(arrow_style, ''  '' @ bar_char @ head_left @ repeat_str dash_char 4 @ '' ServerCert ''
        @ repeat_str dash_char 11 @ tee_left), (default_style, '' '' @ circled 3)],
      [(bar_style, ''  '' @ bar_char @ ''                          '' @ bar_char)],
      [(arrow_style, ''  '' @ bar_char @ head_left @ repeat_str dash_char 4 @ '' SvrKeyExchange ''
        @ repeat_str dash_char 8 @ tee_left), (default_style, '' ''
        @ circled 4), (bar_style, '' (DHE)'')],
      [(bar_style, ''  '' @ bar_char @ ''                          '' @ bar_char)],
      [(arrow_style, ''  '' @ bar_char @ head_left @ repeat_str dash_char 4 @ '' SvrHelloDone ''
        @ repeat_str dash_char 10 @ tee_left), (default_style, '' '' @ circled 6)],
      [(bar_style, ''  '' @ bar_char @ ''                          '' @ bar_char)],
      [(arrow_style, circled 7 @ '' '' @ tee_right @ repeat_str dash_char 4 @ '' CltKeyExchange ''
        @ repeat_str dash_char 9 @ head_right @ bar_char)],
      [(bar_style, ''  '' @ bar_char @ ''                          '' @ bar_char)],
      [(bar_style, ''  '' @ tee_right @ repeat_str dash_light 4 @ '' ChangeCipherSpec ''
        @ repeat_str dash_light 5 @ head_right @ bar_char)],
      [(bar_style, ''  '' @ bar_char @ ''                          '' @ bar_char)],
      [(enc_style, circled 10 @ '' '' @ tee_right @ repeat_str dash_char 4 @ '' Clt Finished ''
        @ repeat_str dash_char 11 @ head_right @ bar_char @ ''  E'')],
      [(bar_style, ''  '' @ bar_char @ ''                          '' @ bar_char)],
      [(bar_style, ''  '' @ bar_char @ head_left @ repeat_str dash_light 4
        @ '' ChangeCipherSpec '' @ repeat_str dash_light 6 @ tee_left)],
      [(bar_style, ''  '' @ bar_char @ ''                          '' @ bar_char)],
      [(enc_style, ''  '' @ bar_char @ head_left @ repeat_str dash_char 4 @ '' Svr Finished ''
        @ repeat_str dash_char 11 @ tee_left), (enc_style, '' '' @ circled 12 @ ''E'')],
      [(bar_style, ''  '' @ bar_char @ ''                          '' @ bar_char)],
      [(enc_style, circled 13 @ '' '' @ tee_right @ head_left @ repeat_str dash_char 3
        @ '' App Data '' @ repeat_str dash_char 14 @ head_right @ bar_char @ ''  E'')],
      [(bar_style, ''  '' @ bar_char @ ''                          '' @ bar_char)]]"

definition tls13_widget :: "StyledLine list" where
  "tls13_widget =
     [[(head_style, ''CLIENT''), (default_style, ''              ''), (head_style, ''SERVER'')],
      [(bar_style, ''  '' @ bar_char @ ''                    '' @ bar_char)],
      [(arrow_style, circled 1 @ '' '' @ tee_right @ repeat_str dash_char 2 @ '' ClientHello ''
        @ repeat_str dash_char 6 @ head_right @ bar_char)],
      [(bar_style, ''  '' @ bar_char @ ''                    '' @ bar_char)],
      [(arrow_style, ''  '' @ bar_char @ head_left @ repeat_str dash_char 2 @ '' ServerHello ''
        @ repeat_str dash_char 7 @ tee_left), (default_style, '' '' @ circled 2)],
      [(bar_style, ''  '' @ bar_char @ ''                    '' @ bar_char)],
      [(enc_style, ''  '' @ bar_char @ head_left @ repeat_str dash_char 2 @ '' Certificate ''
        @ repeat_str dash_char 8 @ tee_left), (enc_style, '' '' @ circled 3 @ ''E'')],
      [(enc_style, ''  '' @ bar_char @ ''   (EncExt+Cert+Verify) '' @ bar_char)],
      [(bar_style, ''  '' @ bar_char @ ''                    '' @ bar_char)],
      [(enc_style, circled 4 @ '' '' @ tee_right @ repeat_str dash_char 2 @ '' Clt Finished ''
        @ repeat_str dash_char 5 @ head_right @ bar_char @ ''  E'')],
      [(bar_style, ''  '' @ bar_char @ ''                    '' @ bar_char)],
      [(enc_style, ''  '' @ bar_char @ head_left @ repeat_str dash_char 2 @ '' Svr Finished ''
        @ repeat_str dash_char 7 @ tee_left), (enc_style, '' '' @ circled 5 @ ''E'')],
      [(bar_style, ''  '' @ bar_char @ ''                    '' @ bar_char)],
      [(enc_style, circled 6 @ '' '' @ tee_right @ head_left @ repeat_str dash_char 2
        @ '' App Data '' @ repeat_str dash_char 10 @ head_right @ bar_char @ ''  E'')],
      [(bar_style, ''  '' @ bar_char @ ''                    '' @ bar_char)],
      [],
      [],
      [],
      [],
      [],
      [],
      []]"

text \<open>
  The padding of the TLS 1.3 column is two lines short of the height of the other, and its rows
  are not all equally wide, so the right bar of an arrow is not always under the one above.
\<close>

lemma reference_heights: "length tls12_widget = 24" "length tls13_widget = 22"
  by (simp_all add: tls12_widget_def tls13_widget_def)

lemma reference_widths:
  "line_width char_count (tls12_widget ! 1) = 30" "line_width char_count (tls12_widget ! 2) = 31"
  by code_simp+

end
