(* ===== verification/Recorded_Hellos.thy ===== *)
theory Recorded_Hellos
  imports Record_Parser Handshake_Parser
begin

text \<open>
  The two TLS 1.3 messages that the repository's integration tests read from
  \<open>src/tests/data/\<close> (the handshake of RFC 8448), and the answers of the model's framing and
  decoders on them. The expectations of \<open>src/tests/parser_integration.rs\<close> are theorems here,
  about the definitions that the other theories use.
\<close>


definition CLIENT_HELLO_RECORD :: bytes where
  "CLIENT_HELLO_RECORD =
    [22, 3, 1, 0, 196, 1, 0, 0, 192, 3, 3, 203, 52, 236, 177, 231, 129, 99, 186, 28,
     56, 198, 218, 203, 25, 106, 109, 255, 162, 26, 141, 153, 18, 236, 24, 162, 239, 98, 131, 2,
     77, 236, 231, 0, 0, 6, 19, 1, 19, 3, 19, 2, 1, 0, 0, 145, 0, 0, 0, 11,
     0, 9, 0, 0, 6, 115, 101, 114, 118, 101, 114, 255, 1, 0, 1, 0, 0, 10, 0, 20,
     0, 18, 0, 29, 0, 23, 0, 24, 0, 25, 1, 0, 1, 1, 1, 2, 1, 3, 1, 4,
     0, 35, 0, 0, 0, 51, 0, 38, 0, 36, 0, 29, 0, 32, 153, 56, 29, 229, 96, 228,
     189, 67, 210, 61, 142, 67, 90, 125, 186, 254, 179, 192, 110, 81, 193, 60, 174, 77, 84, 19,
     105, 30, 82, 154, 175, 44, 0, 43, 0, 3, 2, 3, 4, 0, 13, 0, 32, 0, 30, 4,
     3, 5, 3, 6, 3, 2, 3, 8, 4, 8, 5, 8, 6, 4, 1, 5, 1, 6, 1, 2,
     1, 4, 2, 5, 2, 6, 2, 2, 2, 0, 45, 0, 2, 1, 1, 0, 28, 0, 2, 64,
     1]"

definition SERVER_HELLO_RECORD :: bytes where
  "SERVER_HELLO_RECORD =
    [22, 3, 3, 0, 90, 2, 0, 0, 86, 3, 3, 166, 175, 6, 164, 18, 24, 96, 220, 94,
     110, 96, 36, 156, 211, 76, 149, 147, 12, 138, 197, 203, 20, 52, 218, 193, 85, 119, 46, 211,
     226, 105, 40, 0, 19, 1, 0, 0, 46, 0, 51, 0, 36, 0, 29, 0, 32, 201, 130, 136,
     118, 17, 32, 149, 254, 102, 118, 43, 219, 247, 198, 114, 225, 86, 214, 204, 37, 59, 131, 61,
     241, 221, 105, 177, 176, 78, 117, 31, 15, 0, 43, 0, 2, 3, 4]"

text \<open>The definitions a decoder unfolds to on a concrete message.\<close>

lemmas run_decoder = strip_handshake_header_def read_u16_def read_array32_def read_u8_def read_bytes_def
  be16_at_def slice_def slice_from_def u16_from_be_bytes_def unat_u32_from_be_bytes Let_def
  walk_extension_step walk_extension_short decode_extension_def decode_body_def map_some_def
  decode_key_share_def parse_key_share_entries.simps decode_supported_versions_def
  decode_server_name_def server_name_loop.simps decode_supported_groups_def
  decode_signature_algorithms_def read_opaque_u16_def decode_psk_key_exchange_modes_def
  known_suite_def CipherSuite_from_u16_def NamedGroup_from_u16_def extension_name_def

text \<open>\<open>records_frame_cleanly\<close>: each file is one handshake record.\<close>

lemma recorded_framing:
  "parse_records CLIENT_HELLO_RECORD
    = Some (Inr ([\<lparr>record_type = TlsRecordType.Handshake, legacy_version = 0x0301,
        payload = drop 5 CLIENT_HELLO_RECORD\<rparr>], length CLIENT_HELLO_RECORD))"
  "parse_records SERVER_HELLO_RECORD
    = Some (Inr ([\<lparr>record_type = TlsRecordType.Handshake, legacy_version = 0x0303,
        payload = drop 5 SERVER_HELLO_RECORD\<rparr>], length SERVER_HELLO_RECORD))"
  by code_simp+

text \<open>\<open>decode_server_hello_breaks_out_extensions\<close>, with every field and both extensions.\<close>

lemma recorded_server_hello:
  "decode_server_hello (drop 5 SERVER_HELLO_RECORD) = Some (Inr
     \<lparr>sh_legacy_version = 0x0303, sh_random = take 32 (drop 11 SERVER_HELLO_RECORD),
      sh_session_id_echo = [], sh_cipher_suite = (0x1301, Some CipherSuite.Aes128GcmSha256),
      sh_compression_method = 0,
      sh_extensions =
        [\<lparr>ext_type = 51, ext_name = ''key_share'', ext_raw = take 36 (drop 53 SERVER_HELLO_RECORD),
          ext_body = ExtensionBody.KeyShare [\<lparr>ks_group = NamedGroup.X25519, group_code = 29,
            key_exchange = take 32 (drop 57 SERVER_HELLO_RECORD)\<rparr>]\<rparr>,
         \<lparr>ext_type = 43, ext_name = ''supported_versions'', ext_raw = [3, 4],
          ext_body = ExtensionBody.SupportedVersions [0x0304]\<rparr>]\<rparr>)"
  by (simp add: decode_server_hello_def SERVER_HELLO_RECORD_def run_decoder)

text \<open>\<open>decode_client_hello_breaks_out_extensions\<close>, with every field and all nine extensions.\<close>

lemma recorded_client_hello:
  "\<exists>ch. decode_client_hello (drop 5 CLIENT_HELLO_RECORD) = Some (Inr ch)
     \<and> ch_legacy_version ch = 0x0303
     \<and> ch_random ch = take 32 (drop 11 CLIENT_HELLO_RECORD)
     \<and> ch_session_id ch = [] \<and> ch_compression_methods ch = [0]
     \<and> ch_cipher_suites ch = [(0x1301, Some CipherSuite.Aes128GcmSha256),
          (0x1303, Some CipherSuite.Chacha20Poly1305Sha256), (0x1302, Some CipherSuite.Aes256GcmSha384)]
     \<and> map (\<lambda>e. (ext_name e, ext_body e)) (ch_extensions ch) =
         [(''server_name'', ExtensionBody.ServerName
             [\<lparr>name_type = 0, sn_name = [115, 101, 114, 118, 101, 114]\<rparr>]),
          (''renegotiation_info'', Opaque),
          (''supported_groups'', ExtensionBody.SupportedGroups [X25519, Secp256r1, Secp384r1, Secp521r1,
             Ffdhe2048, Ffdhe3072, Ffdhe4096, NamedGroup.Other 0x0103, NamedGroup.Other 0x0104]),
          (''session_ticket'', Opaque),
          (''key_share'', ExtensionBody.KeyShare [\<lparr>ks_group = X25519, group_code = 0x001d,
             key_exchange = take 32 (drop 114 CLIENT_HELLO_RECORD)\<rparr>]),
          (''supported_versions'', ExtensionBody.SupportedVersions [0x0304]),
          (''signature_algorithms'', ExtensionBody.SignatureAlgorithms [0x0403, 0x0503, 0x0603, 0x0203,
             0x0804, 0x0805, 0x0806, 0x0401, 0x0501, 0x0601, 0x0201, 0x0402, 0x0502, 0x0602, 0x0202]),
          (''psk_key_exchange_modes'', ExtensionBody.PskKeyExchangeModes [1]),
          (''record_size_limit'', Opaque)]"
  by (simp add: decode_client_hello_def CLIENT_HELLO_RECORD_def run_decoder)

end
