(* ===== verification/Spec2Isabelle.thy ===== *)
theory Spec2Isabelle
  imports Linux_Run Panel_Lists Panel_Diagram Hex_Util Recorded_Hellos
begin

text \<open>
  SeeHandshake, a passive observer of TLS handshakes for the terminal.

  \<^bold>\<open>The program.\<close> A capture thread reads link-layer frames from libpcap and sends them to a
  tracker thread. That thread cuts each frame down to a TCP segment, finds the connection of
  the segment, reassembles TLS records per direction, advances the connection's handshake,
  keeps a log of its records and sends the new state to the event loop of the interface. The
  event loop drains these updates, draws a frame and handles one key per turn. What is drawn
  is computed from the state of the interface alone: a list of connections, a list of
  records or a diagram of the handshake, and the metadata of a connection or the decoded
  sections of a record. A connection is attributed to a local process once, by a walk over
  \<open>/proc\<close>.

  \<^bold>\<open>How it is modelled.\<close> One theory per part, in the order the program stacks them; every
  function of the source is a definition with its name.

  \<^item> \<open>Prelude\<close>: machine integers, slices and indexing with their panics, the question-mark
    operator, loops over lists, big-endian integers, the contract of the decoder loops
    (locales \<open>entry_loop\<close>, \<open>full_entry_loop\<close>). A function in \<open>exec\<close> is \<open>None\<close> where the Rust
    code panics or does not return; a \<open>Result\<close> is a sum.
  \<^item> \<open>Rust_Text\<close>: strings as UTF-8 bytes with the formatting functions of the standard
    library. \<open>Hash_Map\<close>: the locale \<open>hash_map\<close> and its interpretation on the map the tracker
    and the interface use. A map is a list of pairs: the order in which Rust iterates is
    not modelled, and no property depends on it.
  \<^item> \<open>Tls_Types\<close>, \<open>Error_Model\<close>, \<open>Connection\<close>, \<open>Connection_State\<close>, \<open>Handshake_Model\<close>,
    \<open>Record_Model\<close>, \<open>Origin\<close>: the data of \<open>src/src/model/\<close>, \<open>error.rs\<close> and \<open>origin/mod.rs\<close>.
  \<^item> \<open>Record_Parser\<close>, \<open>Extensions\<close>, \<open>Handshake_Parser\<close>: \<open>src/src/parser/\<close>. The extractors run
    over the crate \<open>tls_parser\<close>, a parameter; what they rely on is that it consumes input
    (\<open>consuming\<close>). Round trips are stated against encoders of the wire format.
    \<open>Recorded_Hellos\<close> runs the framing and the decoders on the recorded messages of the
    repository's tests.
  \<^item> \<open>Tracker\<close>, \<open>Tracker_Invariant\<close>: \<open>src/src/tracker/reassembly.rs\<close>, with the step relation
    \<open>reachable\<close>, the contract \<open>record_handler\<close> of a loop over records and the contract
    \<open>handshake_moves\<close> of everything that writes to a handshake, interpreted for the origin.
    A resolver may panic, and so may \<open>ingest\<close> on the first segment of a flow; the locale
    \<open>returning_resolver\<close> (in \<open>Origin\<close>) is the contract under which it never does.
  \<^item> \<open>Origin_Linux\<close>: \<open>src/src/origin/linux.rs\<close>, on what the file system answers (the record
    \<open>ProcFs\<close>) and the readings of the clock. \<open>Linux_Run\<close> puts this resolver under the tracker
    and under the threads.
  \<^item> \<open>Hex_Util\<close>, \<open>Sections\<close>, \<open>Education_Text\<close>: \<open>src/src/util/mod.rs\<close>, \<open>src/src/ui/sections.rs\<close>
    and \<open>education.rs\<close>.
  \<^item> \<open>App\<close>, \<open>App_Invariant\<close>: \<open>src/src/ui/app.rs\<close>, \<open>event.rs\<close> and the key bindings, with the step
    relation \<open>app_reachable\<close>; the locale \<open>list_cursor\<close> is the contract of a cursor in a list,
    interpreted for the three panes.
  \<^item> \<open>Text_Layout\<close>, \<open>Address_Text\<close>, \<open>Panel_Right\<close>, \<open>Panel_Flow\<close>, \<open>Panel_Lists\<close>, \<open>Panel_Diagram\<close>:
    \<open>src/src/ui/panels/\<close>, up to the lines handed to the terminal library.
  \<^item> \<open>Pipeline\<close>, \<open>Live\<close>: \<open>src/src/capture/\<close>, the threads and the event loop of
    \<open>src/src/ui/mod.rs\<close>, \<open>cli.rs\<close> and \<open>main.rs\<close>, each thread as a function of the messages it
    is given.
  \<^item> \<open>Threads\<close>, \<open>Thread_History\<close>: the same three threads as one transition system. A state holds
    the two channels with their ends, the shutdown flag and where each thread stands;
    \<open>sys_step\<close> lets one of them move, in any order. \<open>Thread_History\<close> keeps beside a state what
    has been captured, handled and drained, and relates every schedule to \<open>Pipeline\<close> and \<open>Live\<close>.

  \<^bold>\<open>What is shown.\<close> Nothing on the path from a frame to the screen panics or
  fails to return, except the Linux resolver on some command lines, which ends the tracker thread
  and is noticed by nobody; parsing is exact and undoes encoding; the tracker keeps its invariant,
  logs what the bytes say, does not depend on how TCP cuts a stream whose framing is in order, and
  its stages have closed forms; eviction is exact and idle connections leave; every interleaving
  of the threads computes what the sequential functions compute on the frames handled and the
  turns taken, the interface catches up with the tracker whenever the updates are drained, unless
  the user has wiped its list, and after the shutdown flag is set every schedule ends, without a
  deadlock; the interface keeps all its cursors in range and refines a list of connections; the
  panes mark what is selected, keep it in view while the lines fit the 16 bits of a scroll offset,
  and lose no text in wrapping; the diagram fills its width; the exit code is what the command
  line promises when it lists interfaces. Where the code does not do what it says, a theorem
  states what it does: among others the order of the two Finished messages in the diagram, evicted
  connections that stay listed, and capture errors that never reach the exit code.

  \<^bold>\<open>Bounds and fuel.\<close> Integers keep their width; \<open>usize\<close> is \<open>nat\<close>, as no computation of the
  program comes near \<open>2 ^ 64\<close>. Loops over a foreign parser are \<open>partial_function (option)\<close> and
  proved to return; all other loops terminate by a measure. The sequential threads and the
  event loop run over a list of messages or turns of any length; a run of the system is a finite
  sequence of steps, so that a property of reachable states holds at every moment of a run, and
  the end of a run after the shutdown flag is by a measure that every step lowers
  (\<open>shutdown_work\<close>). The closed form of the TLS 1.3 stage needs fewer than \<open>2 ^ 32 - 1\<close> encrypted
  records, where the counters of the program wrap.

  \<^bold>\<open>Not modelled.\<close> Whether the operating system starts a thread, what libpcap captures, what
  the keyboard sends and what the terminal answers are arguments of the steps. The shutdown flag is
  read and written in the order of the steps (the code uses relaxed atomics, which promise
  the same for a single flag). Drawing and layout (\<open>ratatui\<close>, \<open>crossterm\<close>), libpcap and
  \<open>etherparse\<close> are parameters; argument parsing (\<open>clap\<close>), log output apart from what the capture
  thread logs, and serialisation, which nothing calls, are left out.
\<close>

section \<open>The tracker's stages on the diagram\<close>

text \<open>
  C11. The TLS 1.3 diagram has the two Finished messages in the wrong order. As soon as the tracker
  has inferred the server's Finished, from its fourth encrypted record on, the step of the
  client's Finished is drawn as passed, although the client has sent nothing; and once the
  client has sent it, the server's Finished is drawn as not yet reached.
\<close>

theorem finished_steps_swapped:
  assumes "selected app = Some c" and "app_records_row app = 0" and "\<not> is_tls12 hs"
    and "4 \<le> n" and "n < 1000000"
    and "handshake c = fst (run_encrypted hs (replicate n Direction.ServerToClient
        @ (if client_sent then [Direction.ClientToServer] else [])))"
  shows "\<exists>header ls. flow_view app width = Some (header, ls)
    \<and> step_line HandshakeStage.ClientFinished (unat (u16_saturating_sub width 2))
         False client_sent (\<not> client_sent) False = Some (ls ! 8)
    \<and> step_line HandshakeStage.ServerFinished (unat (u16_saturating_sub width 2))
         False (\<not> client_sent) False False = Some (ls ! 10)"
proof -
  define dirs where "dirs = replicate n Direction.ServerToClient
      @ (if client_sent then [Direction.ClientToServer] else [])"
  have len: "length dirs < 4294967295" using assms(5) by (simp add: dirs_def)
  obtain hs' s' c' m' where "run_encrypted hs dirs = (hs', s', c', m')"
    and hs': "\<not> is_tls12 hs'" "stage hs' = flight_stage (stage hs) dirs"
    using run_encrypted_inv [OF assms(3) len] by blast
  with assms(6) have inv: "\<not> is_tls12 (handshake c)" "stage (handshake c) = flight_stage (stage hs) dirs"
    by (simp_all add: dirs_def)
  obtain k where n: "n = Suc k" using assms(4) by (cases n) simp_all
  have rest: "flight_rest dirs = dirs" "flight_after dirs = (if client_sent then [Direction.ClientToServer] else [])"
    by (simp_all add: flight_rest_def flight_after_def dirs_def n dropWhile_append3)
  have long: "\<not> length dirs \<le> 3" "dirs \<noteq> []" using assms(4) by (auto simp: dirs_def)
  have st: "current_stage app = (if client_sent then HandshakeStage.ClientFinished else HandshakeStage.ServerFinished)"
    using assms(1) inv(2) rest long by (simp add: current_stage_def flight_stage_def)
  have tls: "\<not> selected_is_tls12 app"
    using assms(1) inv(1) by (auto simp: selected_is_tls12_def is_tls12_def split: option.splits)
  have none: "selected_record_stage app = None"
    using assms(1,2) by (simp add: selected_record_stage_def)
  have stages: "flow_stages (selected_is_tls12 app) = [HandshakeStage.ClientHello, HandshakeStage.ServerHello,
      HandshakeStage.Certificate, HandshakeStage.ClientFinished, HandshakeStage.ServerFinished,
      HandshakeStage.ApplicationData]"
    using tls by (simp add: flow_stages_def ordered_def)
  obtain header ls where v: "flow_view app width = Some (header, ls)"
    and s3: "step_row app (unat (u16_saturating_sub width 2)) 3 = Some (ls ! 8)"
    using flow_view_step [of 3 app width] stages by auto
  have s4: "step_row app (unat (u16_saturating_sub width 2)) 4 = Some (ls ! 10)"
    using flow_view_step [of 4 app width] stages v by auto
  show ?thesis
    using v s3 s4 tls none st stages by (cases client_sent) (auto simp: step_row_def Let_def)
qed

theorem finished_steps_swapped_witness:
  "\<exists>app header ls. flow_view app 80 = Some (header, ls)
    \<and> step_line HandshakeStage.ClientFinished 78 False False True False = Some (ls ! 8)"
proof -
  let ?key = "canonical (V4 1) 50000 (V4 2) 443"
  let ?hs = "fst (run_encrypted HandshakeInfo_new (replicate 4 Direction.ServerToClient))"
  let ?c = "\<lparr>cs_key = ?key, first_seen_ms = 3, last_seen_ms = 4, handshake = ?hs, records = []\<rparr>"
  let ?app = "app_new\<lparr>app_order := [?key], app_connections := hm_insert ?key ?c hm_empty\<rparr>"
  have "selected ?app = Some ?c"
    by (simp add: selected_def vec_get_def app_new_def hm_get_insert)
  moreover have "app_records_row ?app = 0" "\<not> is_tls12 HandshakeInfo_new"
    by (simp_all add: app_new_def is_tls12_def HandshakeInfo_new_def)
  moreover have "unat (u16_saturating_sub 80 2) = 78" by (simp add: u16_saturating_sub_def)
  ultimately show ?thesis
    using finished_steps_swapped [of ?app ?c HandshakeInfo_new 4 False 80] by auto
qed

end
